(* ===== verification/Prelude.thy ===== *)
theory Prelude
  imports
    Main
    "HOL-Library.Word"
    "HOL-Library.Monad_Syntax"
begin

unbundle bit_operations_syntax

text \<open>
  The common ground of the development.

  \<^item> Types: bytes and fixed-width unsigned integers as words, buffers
    (\<^verbatim>\<open>std::vector<unsigned char>\<close>, C arrays, the memory behind a pointer) as lists of bytes.
  \<^item> Outcomes: what a call of a C++ member function can end in. A call returns, throws
    \<^verbatim>\<open>std::runtime_error\<close> (the state reached so far survives), or has undefined behaviour
    (a null pointer dereferenced, memory read or written out of range).
  \<^item> Memory: \<open>chunk\<close> and \<open>put\<close> are the reading and the writing half of \<^verbatim>\<open>memcpy\<close>;
    \<open>mem_read\<close> and \<open>mem_write\<close> add the bounds check that the C++ leaves out.
  \<^item> Byte order: the host is little-endian (\<^verbatim>\<open>BOOST_LITTLE_ENDIAN\<close>, the branch of
    \<^verbatim>\<open>core/protocol.hpp\<close> taken on the x86 machines of the project's Vagrantfile).
\<close>

section \<open>Types\<close>

type_synonym byte = "8 word"
type_synonym u16 = "16 word"
type_synonym u32 = "32 word"
type_synonym buffer = "byte list"

text \<open>Clock readings: the count of nanoseconds of \<^verbatim>\<open>std::chrono::steady_clock\<close>.\<close>

type_synonym time_point = int

abbreviation seconds :: "int \<Rightarrow> time_point" where
  "seconds n \<equiv> n * 1000000000"

text \<open>The readings of the clock during one call: \<open>clk i\<close> is the \<open>i\<close>-th reading.\<close>

type_synonym clock = "nat \<Rightarrow> time_point"

section \<open>Collections of facts\<close>

named_theorems mem_simps \<open>reading and writing buffers\<close>
named_theorems byteorder_simps \<open>byte order conversions\<close>

section \<open>Outcomes\<close>

datatype undefined_behaviour = OutOfBounds | NullDeref | Uninitialised | UseAfterFree

datatype ('s, 'a) outcome =
    Done 'a 's
  | Raised string 's
  | Undef undefined_behaviour

fun oc_bind :: "('s, 'a) outcome \<Rightarrow> ('a \<Rightarrow> 's \<Rightarrow> ('s, 'b) outcome) \<Rightarrow> ('s, 'b) outcome" where
  "oc_bind (Done a s) f = f a s"
| "oc_bind (Raised e s) f = Raised e s"
| "oc_bind (Undef u) f = Undef u"

text \<open>An access that may be out of range, or a pointer that may be null, before the rest.\<close>

fun need :: "undefined_behaviour \<Rightarrow> 'a option \<Rightarrow> ('a \<Rightarrow> ('s, 'b) outcome) \<Rightarrow> ('s, 'b) outcome" where
  "need u None f = Undef u"
| "need u (Some a) f = f a"

text \<open>A predicate on the state a call leaves behind, whether it returned or threw.\<close>

fun oc_all :: "('s \<Rightarrow> bool) \<Rightarrow> ('s, 'a) outcome \<Rightarrow> bool" where
  "oc_all P (Done a s) = P s"
| "oc_all P (Raised e s) = P s"
| "oc_all P (Undef u) = True"

fun is_undef :: "('s, 'a) outcome \<Rightarrow> bool" where
  "is_undef (Undef u) = True"
| "is_undef _ = False"

lemma oc_all_bind:
  "oc_all P m \<Longrightarrow> (\<And>a s. m = Done a s \<Longrightarrow> P s \<Longrightarrow> oc_all P (f a s)) \<Longrightarrow> oc_all P (oc_bind m f)"
  by (cases m) auto

lemma oc_all_need [intro]: "(\<And>a. x = Some a \<Longrightarrow> oc_all P (f a)) \<Longrightarrow> oc_all P (need u x f)"
  by (cases x) auto

lemma oc_all_mono: "oc_all P m \<Longrightarrow> (\<And>s. P s \<Longrightarrow> Q s) \<Longrightarrow> oc_all Q m"
  by (cases m) auto

lemma need_eq_Done: "need u x f = Done a s \<longleftrightarrow> (\<exists>y. x = Some y \<and> f y = Done a s)"
  by (cases x) auto

lemma is_undef_need: "is_undef (need u x f) \<longleftrightarrow> x = None \<or> (\<exists>y. x = Some y \<and> is_undef (f y))"
  by (cases x) auto

lemma is_undef_bind:
  "is_undef (oc_bind m f) \<longleftrightarrow> is_undef m \<or> (\<exists>a s. m = Done a s \<and> is_undef (f a s))"
  by (cases m) auto

section \<open>Memory\<close>

definition chunk :: "nat \<Rightarrow> nat \<Rightarrow> 'a list \<Rightarrow> 'a list" where
  "chunk off n b = take n (drop off b)"

definition put :: "nat \<Rightarrow> 'a list \<Rightarrow> 'a list \<Rightarrow> 'a list" where
  "put off src b = take off b @ src @ drop (off + length src) b"

text \<open>\<^verbatim>\<open>memcpy(dst, &b[off], n)\<close>\<close>

definition mem_read :: "nat \<Rightarrow> nat \<Rightarrow> buffer \<Rightarrow> buffer option" where
  "mem_read off n b = (if off + n \<le> length b then Some (chunk off n b) else None)"

text \<open>\<^verbatim>\<open>memcpy(&b[off], src, n)\<close> for a \<open>src\<close> of \<open>n\<close> bytes\<close>

definition mem_write :: "nat \<Rightarrow> buffer \<Rightarrow> buffer \<Rightarrow> buffer option" where
  "mem_write off src b = (if off + length src \<le> length b then Some (put off src b) else None)"

lemma length_chunk [mem_simps, simp]: "length (chunk off n b) = min n (length b - off)"
  by (simp add: chunk_def)

lemma length_put [mem_simps, simp]:
  "off + length src \<le> length b \<Longrightarrow> length (put off src b) = length b"
  by (simp add: put_def)

lemma nth_chunk [mem_simps]: "i < n \<Longrightarrow> off + i < length b \<Longrightarrow> chunk off n b ! i = b ! (off + i)"
  by (simp add: chunk_def)

lemma nth_put [mem_simps]:
  assumes "off + length src \<le> length b" and "i < length b"
  shows "put off src b ! i = (if off \<le> i \<and> i < off + length src then src ! (i - off) else b ! i)"
  using assms by (auto simp: put_def nth_append min_def)

lemma chunk_put_disjoint [mem_simps]:
  assumes "off + length src \<le> length b" and "off + length src \<le> k \<or> k + n \<le> off"
  shows "chunk k n (put off src b) = chunk k n b"
  using assms by (intro nth_equalityI) (auto simp: nth_chunk nth_put)

lemma chunk_put_inside [mem_simps]:
  assumes "k \<le> off" and "off + length src \<le> k + n" and "k + n \<le> length b"
  shows "chunk k n (put off src b) = put (off - k) src (chunk k n b)"
proof (rule nth_equalityI)
  show "length (chunk k n (put off src b)) = length (put (off - k) src (chunk k n b))"
    using assms by simp
next
  fix i assume "i < length (chunk k n (put off src b))"
  then have "i < n" using assms by simp
  with assms show "chunk k n (put off src b) ! i = put (off - k) src (chunk k n b) ! i"
    by (auto simp: nth_chunk nth_put add.commute)
qed

lemma chunk_put_same [mem_simps]:
  "off + length src \<le> length b \<Longrightarrow> n = length src \<Longrightarrow> chunk off n (put off src b) = src"
  by (intro nth_equalityI) (auto simp: nth_chunk nth_put)

lemma chunk_chunk [mem_simps]:
  "k + m \<le> n \<Longrightarrow> chunk k m (chunk off n b) = chunk (off + k) m b"
  by (simp add: chunk_def drop_take add.commute min_def)

lemma chunk_all [mem_simps]: "n = length b \<Longrightarrow> chunk 0 n b = b"
  by (simp add: chunk_def)

lemma put_put_same [mem_simps]:
  "off + length s \<le> length b \<Longrightarrow> length s = length t \<Longrightarrow> put off s (put off t b) = put off s b"
  by (intro nth_equalityI) (auto simp: nth_put)

lemma put_put_commute:
  "off + length s \<le> length b \<Longrightarrow> k + length t \<le> length b \<Longrightarrow>
   off + length s \<le> k \<or> k + length t \<le> off \<Longrightarrow> put off s (put k t b) = put k t (put off s b)"
  by (intro nth_equalityI) (auto simp: nth_put)

lemma put_chunk_id [mem_simps]:
  "off + n \<le> length b \<Longrightarrow> put off (chunk off n b) b = b"
  by (intro nth_equalityI) (auto simp: nth_put nth_chunk)

lemma put_two:
  "length s = k \<Longrightarrow> length b = k + length t \<Longrightarrow> put k t (put 0 s b) = s @ t"
  by (simp add: put_def)

lemma drop_put [mem_simps]:
  "k \<le> off \<Longrightarrow> off + length s \<le> length b \<Longrightarrow> drop k (put off s b) = put (off - k) s (drop k b)"
  by (intro nth_equalityI) (auto simp: nth_put add.commute)

lemma chunk_drop: "chunk k n (drop j b) = chunk (j + k) n b"
  by (simp add: chunk_def add.commute)

text \<open>A buffer written as its segments: an access skips the segments before it.\<close>

named_theorems seg_simps \<open>accesses to a buffer that is a concatenation of segments\<close>

lemma put_skip [seg_simps]:
  "length b \<le> off \<Longrightarrow> 0 < off \<Longrightarrow> put off s (b @ c) = b @ put (off - length b) s c"
  by (simp add: put_def)

lemma put_here [seg_simps]: "length s = length b \<Longrightarrow> put 0 s (b @ c) = s @ c"
  by (simp add: put_def)

lemma put_here_last [seg_simps]: "length s = length b \<Longrightarrow> put 0 s b = s"
  by (simp add: put_def)

lemma put_Cons [seg_simps]:
  "0 < off \<Longrightarrow> put off s (x # c) = x # put (off - 1) s c" "put 0 (a # s) (x # c) = a # put 0 s c"
  "put 0 [] c = c"
  by (cases off) (simp_all add: put_def)

lemma put_byte [seg_simps]: "length b = Suc 0 \<Longrightarrow> put 0 (a # s) (b @ c) = a # put 0 s c"
  by (cases b) (simp_all add: put_def)

lemma put_pair [seg_simps]: "length s = 2 \<Longrightarrow> put 0 s (x # y # c) = s @ c"
  by (simp add: put_def)

lemma chunk_Cons [seg_simps]:
  "0 < k \<Longrightarrow> chunk k n (x # c) = chunk (k - 1) n c" "0 < n \<Longrightarrow> chunk 0 n (x # c) = x # chunk 0 (n - 1) c"
  "chunk k 0 c = []"
  by (cases k; cases n; simp add: chunk_def)+

lemma chunk_skip [seg_simps]:
  "length b \<le> k \<Longrightarrow> 0 < k \<Longrightarrow> chunk k n (b @ c) = chunk (k - length b) n c"
  by (simp add: chunk_def)

lemma chunk_across [seg_simps]:
  "length b \<le> n \<Longrightarrow> chunk 0 n (b @ c) = b @ chunk 0 (n - length b) c"
  by (simp add: chunk_def)

lemma put_replicate [seg_simps]:
  "k + length s \<le> n \<Longrightarrow>
   put k s (replicate n x) = replicate k x @ s @ replicate (n - k - length s) x"
  by (simp add: put_def add.commute)

lemma chunk_here_last [seg_simps]: "length b = n \<Longrightarrow> chunk 0 n b = b"
  by (simp add: chunk_def)

lemma chunk_append_drop [mem_simps]:
  "k + n \<le> length b \<Longrightarrow> chunk k n b @ drop (k + n) b = drop k b"
  by (metis add.commute append_take_drop_id chunk_def drop_drop)

lemma chunk_two [mem_simps]:
  "k + 1 < length b \<Longrightarrow> chunk k 2 b = [b ! k, b ! (k + 1)]"
  by (simp add: chunk_def numeral_2_eq_2 take_Suc_conv_app_nth Cons_nth_drop_Suc
      flip: Cons_nth_drop_Suc)

lemma mem_read_Some [mem_simps]: "off + n \<le> length b \<Longrightarrow> mem_read off n b = Some (chunk off n b)"
  by (simp add: mem_read_def)

lemma mem_read_None: "mem_read off n b = None \<longleftrightarrow> length b < off + n"
  by (auto simp: mem_read_def)

lemma mem_read_eq_Some: "mem_read off n b = Some c \<longleftrightarrow> off + n \<le> length b \<and> c = chunk off n b"
  by (auto simp: mem_read_def)

lemma mem_write_Some [mem_simps]:
  "off + length src \<le> length b \<Longrightarrow> mem_write off src b = Some (put off src b)"
  by (simp add: mem_write_def)

lemma mem_write_eq_Some:
  "mem_write off src b = Some c \<longleftrightarrow> off + length src \<le> length b \<and> c = put off src b"
  by (auto simp: mem_write_def)

section \<open>Searching a list\<close>

lemma find_append: "find P (xs @ ys) = (case find P xs of None \<Rightarrow> find P ys | Some x \<Rightarrow> Some x)"
  by (induction xs) auto

lemma find_in_set: "find P xs = Some x \<Longrightarrow> x \<in> set xs \<and> P x"
  by (metis find_Some_iff nth_mem)

lemma nth_update_at: "i < length xs \<Longrightarrow> xs[j := y] ! i = (if i = j then y else xs ! i)"
  by (cases "i = j") simp_all

lemma find_upt_least:
  assumes "i < n" and "P i" and "\<And>j. j < i \<Longrightarrow> \<not> P j"
  shows "find P [0..<n] = Some i"
proof -
  have "[0..<i + (n - i)] = [0..<i] @ [i..<i + (n - i)]" by (rule upt_add_eq_append) simp
  then have "[0..<n] = [0..<i] @ i # [Suc i..<n]" using assms(1) by (simp add: upt_conv_Cons)
  moreover have "find P [0..<i] = None" using assms(3) by (simp add: find_None_iff)
  ultimately show ?thesis using assms(2) by (simp add: find_append)
qed

lemma distinct_middle:
  assumes "distinct (map f (xs @ r # ys))"
  shows "x \<in> set xs \<Longrightarrow> f x \<noteq> f r" and "x \<in> set ys \<Longrightarrow> f x \<noteq> f r"
  using assms by (auto simp: image_iff)

end
