(* ===== verification/Protocol.thy ===== *)
theory Protocol
  imports Prelude
begin

unbundle bit_operations_syntax

text \<open>
  \<^verbatim>\<open>core/protocol.hpp\<close>: the packed header structures, their fields at their widths, and the two
  \<^verbatim>\<open>memcpy\<close> directions the router uses: \<open>..._of_bytes\<close> reads a structure from its bytes and
  \<open>..._bytes\<close> lists the bytes of a structure. Multi-byte fields are held the way the host loads
  them, little-endian, from bytes that are in network order; \<open>htons\<close> and \<open>htonl\<close> swap.
  The lemmas are the round trips of every header and the positions of the fields.
\<close>

section \<open>Byte order\<close>

definition le16 :: "byte \<Rightarrow> byte \<Rightarrow> u16" where
  "le16 a b = ucast a OR push_bit 8 (ucast b)"

definition le32 :: "byte \<Rightarrow> byte \<Rightarrow> byte \<Rightarrow> byte \<Rightarrow> u32" where
  "le32 a b c d =
     ucast a OR push_bit 8 (ucast b) OR push_bit 16 (ucast c) OR push_bit 24 (ucast d)"

definition u16_bytes :: "u16 \<Rightarrow> buffer" where
  "u16_bytes w = [ucast w, ucast (drop_bit 8 w)]"

definition u32_bytes :: "u32 \<Rightarrow> buffer" where
  "u32_bytes w = [ucast w, ucast (drop_bit 8 w), ucast (drop_bit 16 w), ucast (drop_bit 24 w)]"

definition htons :: "u16 \<Rightarrow> u16" where
  "htons w = push_bit 8 w OR drop_bit 8 w"

definition htonl :: "u32 \<Rightarrow> u32" where
  "htonl w = push_bit 24 w OR push_bit 8 (w AND 0xff00) OR drop_bit 8 (w AND 0xff0000)
     OR drop_bit 24 w"

abbreviation ntohs :: "u16 \<Rightarrow> u16" where
  "ntohs \<equiv> htons"

abbreviation ntohl :: "u32 \<Rightarrow> u32" where
  "ntohl \<equiv> htonl"

text \<open>The value of two consecutive bytes in network order.\<close>

definition be16 :: "byte \<Rightarrow> byte \<Rightarrow> nat" where
  "be16 a b = 256 * unat a + unat b"

lemma bit_byte [byteorder_simps]: "bit (a :: byte) n \<Longrightarrow> n < 8"
  using bit_imp_le_length [of a n] by simp

lemma not_bit_byte [byteorder_simps]: "8 \<le> n \<Longrightarrow> \<not> bit (a :: byte) n"
  by (auto dest: bit_byte)

text \<open>A bit of a 32-bit word lies in one of its four bytes.\<close>

lemma four_bytes:
  fixes n :: nat
  assumes "n < 32"
  obtains (first) "n < 8" | (second) m where "n = 8 + m" "m < 8"
    | (third) m where "n = 16 + m" "m < 8" | (fourth) m where "n = 24 + m" "m < 8"
proof (cases "n < 8")
  case True
  then show ?thesis by (rule first)
next
  case False
  then obtain k where k: "n = 8 + k" using le_Suc_ex by (metis not_less)
  show ?thesis
  proof (cases "k < 8")
    case True
    with k show ?thesis by (rule second)
  next
    case False
    show ?thesis
    proof (cases "k < 16")
      case True
      show ?thesis using k True False by (intro third [of "k - 8"]) auto
    next
      case gt: False
      show ?thesis using k gt assms by (intro fourth [of "k - 16"]) auto
    qed
  qed
qed

lemma le16_bytes_u16 [byteorder_simps]: "u16_bytes (le16 a b) = [a, b]"
  unfolding u16_bytes_def le16_def
  by (auto intro!: bit_word_eqI simp: bit_simps not_bit_byte)

lemma le16_of_u16 [byteorder_simps]: "le16 (ucast w) (ucast (drop_bit 8 w)) = w"
  unfolding le16_def by (rule bit_word_eqI) (auto simp: bit_simps)

lemma le32_bytes_u32 [byteorder_simps]: "u32_bytes (le32 a b c d) = [a, b, c, d]"
  unfolding u32_bytes_def le32_def
  by (auto intro!: bit_word_eqI simp: bit_simps not_bit_byte)

lemma le32_of_u32 [byteorder_simps]:
  "le32 (ucast w) (ucast (drop_bit 8 w)) (ucast (drop_bit 16 w)) (ucast (drop_bit 24 w)) = w"
proof (rule bit_word_eqI)
  fix n assume "n < LENGTH(32)"
  then have "n < 32" by simp
  then show "bit (le32 (ucast w) (ucast (drop_bit 8 w)) (ucast (drop_bit 16 w))
      (ucast (drop_bit 24 w))) n = bit w n"
    by (cases rule: four_bytes) (simp_all add: le32_def bit_simps)
qed

lemma le16_inject [byteorder_simps]: "le16 a b = le16 c d \<longleftrightarrow> a = c \<and> b = d"
  by (metis le16_bytes_u16 list.inject)

lemma le32_inject [byteorder_simps]:
  "le32 a b c d = le32 a' b' c' d' \<longleftrightarrow> a = a' \<and> b = b' \<and> c = c' \<and> d = d'"
proof
  assume "le32 a b c d = le32 a' b' c' d'"
  then have "u32_bytes (le32 a b c d) = u32_bytes (le32 a' b' c' d')" by simp
  then show "a = a' \<and> b = b' \<and> c = c' \<and> d = d'" by (simp only: le32_bytes_u32 list.inject simp_thms)
qed simp

lemma u16_bytes_inject: "u16_bytes v = u16_bytes w \<longleftrightarrow> v = w"
  by (metis le16_of_u16 list.inject u16_bytes_def)

lemma length_u16_bytes [simp]: "length (u16_bytes w) = 2"
  by (simp add: u16_bytes_def)

lemma length_u32_bytes [simp]: "length (u32_bytes w) = 4"
  by (simp add: u32_bytes_def)

lemma htons_le16 [byteorder_simps]: "htons (le16 a b) = le16 b a"
proof (rule bit_word_eqI)
  fix n assume "n < LENGTH(16)"
  then have "n < 32" and "n < 16" by simp_all
  then show "bit (htons (le16 a b)) n = bit (le16 b a) n"
    by (cases rule: four_bytes) (simp_all add: htons_def le16_def bit_simps not_bit_byte)
qed

lemma u16_cases: obtains a b where "w = le16 a b"
  by (metis le16_of_u16)

lemma u32_cases: obtains a b c d where "w = le32 a b c d"
  by (metis le32_of_u32)

lemma htons_htons [byteorder_simps]: "htons (htons w) = w"
  by (cases w rule: u16_cases) (simp add: htons_le16)

lemma htonl_le32 [byteorder_simps]: "htonl (le32 a b c d) = le32 d c b a"
proof (rule bit_word_eqI)
  fix n assume "n < LENGTH(32)"
  then have n: "n < 32" by simp
  have m: "(0xff00 :: u32) = push_bit 8 (mask 8)" "(0xff0000 :: u32) = push_bit 16 (mask 8)"
    by (simp_all add: mask_eq_exp_minus_1 push_bit_eq_mult)
  from n show "bit (htonl (le32 a b c d)) n = bit (le32 d c b a) n"
    unfolding htonl_def m le32_def
    by (cases rule: four_bytes) (simp_all add: bit_simps not_bit_byte)
qed

lemma htonl_htonl [byteorder_simps]: "htonl (htonl w) = w"
  by (cases w rule: u32_cases) (simp add: htonl_le32)

lemma unat_byte_less: "unat (a :: byte) < 256"
  using unsigned_less [of a, where ?'a = nat] by simp

lemma unat_le16: "unat (le16 a b) = unat a + 256 * unat b"
proof -
  have "le16 a b = ucast a + push_bit 8 (ucast b)"
    unfolding le16_def
    by (rule disjunctive_add [symmetric]) (auto simp: bit_simps not_bit_byte)
  moreover have "unat (push_bit 8 (ucast b :: u16)) = 256 * unat b"
    using unat_byte_less [of b]
    by (simp add: push_bit_eq_mult unat_word_ariths unsigned_ucast_eq take_bit_eq_mod)
  moreover have "unat (ucast a :: u16) = unat a"
    using unat_byte_less [of a] by (simp add: unsigned_ucast_eq take_bit_eq_mod)
  ultimately show ?thesis
    using unat_byte_less [of a] unat_byte_less [of b] by (simp add: unat_word_ariths)
qed

lemma unat_htons_le16: "unat (htons (le16 a b)) = be16 a b"
  by (simp add: htons_le16 unat_le16 be16_def)


definition u16_at :: "nat \<Rightarrow> buffer \<Rightarrow> u16" where
  "u16_at off b = le16 (b ! off) (b ! (off + 1))"

definition u32_at :: "nat \<Rightarrow> buffer \<Rightarrow> u32" where
  "u32_at off b = le32 (b ! off) (b ! (off + 1)) (b ! (off + 2)) (b ! (off + 3))"

section \<open>Constants\<close>

abbreviation ETHER_ADDR_LEN :: nat where "ETHER_ADDR_LEN \<equiv> 6"

definition ethertype_arp :: u16 where "ethertype_arp = 0x0806"

definition ethertype_ip :: u16 where "ethertype_ip = 0x0800"

definition arp_op_request :: u16 where "arp_op_request = 0x0001"

definition arp_op_reply :: u16 where "arp_op_reply = 0x0002"

definition ip_protocol_icmp :: byte where "ip_protocol_icmp = 0x01"

section \<open>Ethernet header\<close>

record ethernet_hdr =
  ether_dhost :: buffer
  ether_shost :: buffer
  ether_type :: u16

definition ethernet_hdr_of_bytes :: "buffer \<Rightarrow> ethernet_hdr" where
  "ethernet_hdr_of_bytes b =
     \<lparr>ether_dhost = chunk 0 6 b, ether_shost = chunk 6 6 b, ether_type = u16_at 12 b\<rparr>"

definition ethernet_hdr_bytes :: "ethernet_hdr \<Rightarrow> buffer" where
  "ethernet_hdr_bytes h = ether_dhost h @ ether_shost h @ u16_bytes (ether_type h)"

text \<open>The arrays of the structure hold six bytes each.\<close>

definition ethernet_wf :: "ethernet_hdr \<Rightarrow> bool" where
  "ethernet_wf h \<longleftrightarrow> length (ether_dhost h) = 6 \<and> length (ether_shost h) = 6"

section \<open>ARP header\<close>

record arp_hdr =
  arp_hrd :: u16
  arp_pro :: u16
  arp_hln :: byte
  arp_pln :: byte
  arp_op :: u16
  arp_sha :: buffer
  arp_sip :: u32
  arp_tha :: buffer
  arp_tip :: u32

definition arp_hdr_of_bytes :: "buffer \<Rightarrow> arp_hdr" where
  "arp_hdr_of_bytes b =
     \<lparr>arp_hrd = u16_at 0 b, arp_pro = u16_at 2 b, arp_hln = b ! 4, arp_pln = b ! 5,
      arp_op = u16_at 6 b, arp_sha = chunk 8 6 b, arp_sip = u32_at 14 b,
      arp_tha = chunk 18 6 b, arp_tip = u32_at 24 b\<rparr>"

definition arp_hdr_bytes :: "arp_hdr \<Rightarrow> buffer" where
  "arp_hdr_bytes h =
     u16_bytes (arp_hrd h) @ u16_bytes (arp_pro h) @ [arp_hln h, arp_pln h] @
     u16_bytes (arp_op h) @ arp_sha h @ u32_bytes (arp_sip h) @ arp_tha h @
     u32_bytes (arp_tip h)"

definition arp_wf :: "arp_hdr \<Rightarrow> bool" where
  "arp_wf h \<longleftrightarrow> length (arp_sha h) = 6 \<and> length (arp_tha h) = 6"

section \<open>IP header\<close>

text \<open>The first byte holds two bit fields, the header length in its low half.\<close>

record ip_hdr =
  ip_hl :: "4 word"
  ip_v :: "4 word"
  ip_tos :: byte
  ip_len :: u16
  ip_id :: u16
  ip_off :: u16
  ip_ttl :: byte
  ip_p :: byte
  ip_sum :: u16
  ip_src :: u32
  ip_dst :: u32

definition ip_hdr_of_bytes :: "buffer \<Rightarrow> ip_hdr" where
  "ip_hdr_of_bytes b =
     \<lparr>ip_hl = ucast (b ! 0), ip_v = ucast (drop_bit 4 (b ! 0)), ip_tos = b ! 1,
      ip_len = u16_at 2 b, ip_id = u16_at 4 b, ip_off = u16_at 6 b, ip_ttl = b ! 8,
      ip_p = b ! 9, ip_sum = u16_at 10 b, ip_src = u32_at 12 b, ip_dst = u32_at 16 b\<rparr>"

definition ip_hdr_bytes :: "ip_hdr \<Rightarrow> buffer" where
  "ip_hdr_bytes h =
     [ucast (ip_hl h) OR push_bit 4 (ucast (ip_v h)), ip_tos h] @ u16_bytes (ip_len h) @
     u16_bytes (ip_id h) @ u16_bytes (ip_off h) @ [ip_ttl h, ip_p h] @ u16_bytes (ip_sum h) @
     u32_bytes (ip_src h) @ u32_bytes (ip_dst h)"

section \<open>ICMP header\<close>

record icmp_hdr =
  icmp_type :: byte
  icmp_code :: byte
  icmp_sum :: u16

definition icmp_hdr_of_bytes :: "buffer \<Rightarrow> icmp_hdr" where
  "icmp_hdr_of_bytes b = \<lparr>icmp_type = b ! 0, icmp_code = b ! 1, icmp_sum = u16_at 2 b\<rparr>"

definition icmp_hdr_bytes :: "icmp_hdr \<Rightarrow> buffer" where
  "icmp_hdr_bytes h = [icmp_type h, icmp_code h] @ u16_bytes (icmp_sum h)"

text \<open>The longer ICMP headers, which no code fills in; the second ends with 28 bytes of the packet it is
  about.\<close>

record icmp_message_hdr = icmp_hdr +
  icmp_id :: u16
  icmp_seq :: u16

record icmp_t3_hdr = icmp_hdr +
  unused :: u16
  next_mtu :: u16
  icmp_data :: buffer

definition icmp_message_hdr_bytes :: "icmp_message_hdr \<Rightarrow> buffer" where
  "icmp_message_hdr_bytes h = icmp_hdr_bytes (icmp_hdr.truncate h) @ u16_bytes (icmp_id h) @ u16_bytes (icmp_seq h)"

definition icmp_message_hdr_of_bytes :: "buffer \<Rightarrow> icmp_message_hdr" where
  "icmp_message_hdr_of_bytes b = icmp_hdr.extend (icmp_hdr_of_bytes b) \<lparr>icmp_id = u16_at 4 b, icmp_seq = u16_at 6 b\<rparr>"

definition icmp_t3_hdr_bytes :: "icmp_t3_hdr \<Rightarrow> buffer" where
  "icmp_t3_hdr_bytes h =
     icmp_hdr_bytes (icmp_hdr.truncate h) @ u16_bytes (unused h) @ u16_bytes (next_mtu h) @ icmp_data h"

definition icmp_t3_hdr_of_bytes :: "buffer \<Rightarrow> icmp_t3_hdr" where
  "icmp_t3_hdr_of_bytes b = icmp_hdr.extend (icmp_hdr_of_bytes b)
     \<lparr>unused = u16_at 4 b, next_mtu = u16_at 6 b, icmp_data = chunk 8 28 b\<rparr>"

lemmas hdr_of_bytes_defs =
  ethernet_hdr_of_bytes_def arp_hdr_of_bytes_def ip_hdr_of_bytes_def icmp_hdr_of_bytes_def
  u16_at_def u32_at_def

lemmas hdr_bytes_defs =
  ethernet_hdr_bytes_def arp_hdr_bytes_def ip_hdr_bytes_def icmp_hdr_bytes_def

section \<open>Sizes and round trips\<close>

lemma length_ethernet_hdr_bytes [simp]: "ethernet_wf h \<Longrightarrow> length (ethernet_hdr_bytes h) = 14"
  by (simp add: ethernet_hdr_bytes_def ethernet_wf_def)

lemma length_arp_hdr_bytes [simp]: "arp_wf h \<Longrightarrow> length (arp_hdr_bytes h) = 28"
  by (simp add: arp_hdr_bytes_def arp_wf_def)

lemma length_ip_hdr_bytes [simp]: "length (ip_hdr_bytes h) = 20"
  by (simp add: ip_hdr_bytes_def)

lemma length_icmp_hdr_bytes [simp]: "length (icmp_hdr_bytes h) = 4"
  by (simp add: icmp_hdr_bytes_def)

lemma ethernet_wf_of_bytes [simp]: "12 \<le> length b \<Longrightarrow> ethernet_wf (ethernet_hdr_of_bytes b)"
  by (simp add: ethernet_wf_def ethernet_hdr_of_bytes_def)

lemma arp_wf_of_bytes [simp]: "24 \<le> length b \<Longrightarrow> arp_wf (arp_hdr_of_bytes b)"
  by (simp add: arp_wf_def arp_hdr_of_bytes_def)

lemma not_bit_nibble: "4 \<le> n \<Longrightarrow> \<not> bit (a :: 4 word) n"
  using bit_imp_le_length [of a n] by auto

lemma nibbles_of_byte:
  "ucast (ucast a :: 4 word) OR push_bit 4 (ucast (ucast (drop_bit 4 a) :: 4 word)) = (a :: byte)"
  (is "?w = a")
proof (rule bit_word_eqI)
  fix n assume "n < LENGTH(8)"
  then show "bit ?w n = bit a n"
    by (cases "n < 4") (auto simp: bit_simps)
qed

lemma byte_of_nibbles:
  fixes l h :: "4 word"
  shows "ucast (ucast l OR push_bit 4 (ucast h) :: byte) = l"
    and "ucast (drop_bit 4 (ucast l OR push_bit 4 (ucast h) :: byte)) = h"
  by (auto intro!: bit_word_eqI simp: bit_simps not_bit_nibble)

lemma list_of_length_Suc: "length b = Suc n \<longleftrightarrow> (\<exists>x xs. b = x # xs \<and> length xs = n)"
  by (cases b) auto

lemma list_of_4:
  "length b = 4 \<longleftrightarrow> (\<exists>x0 x1 x2 x3. b = [x0, x1, x2, x3])"
  by (auto simp: numeral_eq_Suc list_of_length_Suc)

lemma list_of_6:
  "length b = 6 \<longleftrightarrow> (\<exists>x0 x1 x2 x3 x4 x5. b = [x0, x1, x2, x3, x4,
    x5])"
  by (auto simp: numeral_eq_Suc list_of_length_Suc)

lemma list_of_14:
  "length b = 14 \<longleftrightarrow> (\<exists>x0 x1 x2 x3 x4 x5 x6 x7 x8 x9 x10 x11 x12 x13.
    b = [x0, x1, x2, x3, x4, x5, x6, x7, x8, x9, x10, x11, x12, x13])"
  by (auto simp: numeral_eq_Suc list_of_length_Suc)

lemma list_of_20:
  "length b = 20 \<longleftrightarrow> (\<exists>x0 x1 x2 x3 x4 x5 x6 x7 x8 x9 x10 x11 x12 x13
    x14 x15 x16 x17 x18 x19. b = [x0, x1, x2, x3, x4, x5, x6, x7, x8, x9, x10, x11, x12,
    x13, x14, x15, x16, x17, x18, x19])"
  by (auto simp: numeral_eq_Suc list_of_length_Suc)

lemma list_of_28:
  "length b = 28 \<longleftrightarrow> (\<exists>x0 x1 x2 x3 x4 x5 x6 x7 x8 x9 x10 x11 x12 x13
    x14 x15 x16 x17 x18 x19 x20 x21 x22 x23 x24 x25 x26 x27. b = [x0, x1, x2, x3, x4, x5,
    x6, x7, x8, x9, x10, x11, x12, x13, x14, x15, x16, x17, x18, x19, x20, x21, x22, x23,
    x24, x25, x26, x27])"
  by (auto simp: numeral_eq_Suc list_of_length_Suc)

lemma ethernet_hdr_bytes_of_bytes:
  "length b = 14 \<Longrightarrow> ethernet_hdr_bytes (ethernet_hdr_of_bytes b) = b"
  by (auto simp: list_of_14 ethernet_hdr_bytes_def ethernet_hdr_of_bytes_def chunk_def
      u16_at_def le16_bytes_u16)

lemma ethernet_hdr_of_bytes_bytes:
  "ethernet_wf h \<Longrightarrow> ethernet_hdr_of_bytes (ethernet_hdr_bytes h) = h"
  by (cases h) (auto simp: ethernet_wf_def list_of_6 ethernet_hdr_bytes_def
      ethernet_hdr_of_bytes_def chunk_def u16_at_def u16_bytes_def le16_of_u16)

lemma arp_hdr_bytes_of_bytes: "length b = 28 \<Longrightarrow> arp_hdr_bytes (arp_hdr_of_bytes b) = b"
  by (auto simp: list_of_28 arp_hdr_bytes_def arp_hdr_of_bytes_def chunk_def
      u16_at_def u32_at_def le16_bytes_u16 le32_bytes_u32)

lemma arp_hdr_of_bytes_bytes: "arp_wf h \<Longrightarrow> arp_hdr_of_bytes (arp_hdr_bytes h) = h"
  by (cases h) (auto simp: arp_wf_def list_of_6 arp_hdr_bytes_def arp_hdr_of_bytes_def
      chunk_def u16_at_def u32_at_def u16_bytes_def u32_bytes_def le16_of_u16 le32_of_u32)

lemma ip_hdr_bytes_of_bytes: "length b = 20 \<Longrightarrow> ip_hdr_bytes (ip_hdr_of_bytes b) = b"
  by (auto simp: list_of_20 ip_hdr_bytes_def ip_hdr_of_bytes_def
      u16_at_def u32_at_def le16_bytes_u16 le32_bytes_u32 nibbles_of_byte)

lemma ip_hdr_of_bytes_bytes: "ip_hdr_of_bytes (ip_hdr_bytes h) = h"
  by (cases h) (simp add: ip_hdr_bytes_def ip_hdr_of_bytes_def u16_at_def u32_at_def
      u16_bytes_def u32_bytes_def le16_of_u16 le32_of_u32 byte_of_nibbles
      byte_of_nibbles [simplified])

lemma icmp_hdr_bytes_of_bytes: "length b = 4 \<Longrightarrow> icmp_hdr_bytes (icmp_hdr_of_bytes b) = b"
  by (auto simp: list_of_4 icmp_hdr_bytes_def icmp_hdr_of_bytes_def u16_at_def le16_bytes_u16)

lemma icmp_hdr_of_bytes_bytes: "icmp_hdr_of_bytes (icmp_hdr_bytes h) = h"
  by (cases h) (simp add: icmp_hdr_bytes_def icmp_hdr_of_bytes_def u16_at_def u16_bytes_def
      le16_of_u16)

text \<open>The long ICMP headers start like the short one and read back as they were written.\<close>

lemma icmp_message_hdr_roundtrip:
  "icmp_message_hdr_of_bytes (icmp_message_hdr_bytes h) = h" "take 4 (icmp_message_hdr_bytes h) = icmp_hdr_bytes (icmp_hdr.truncate h)"
  by (cases h; simp add: icmp_message_hdr_bytes_def icmp_message_hdr_of_bytes_def icmp_hdr_bytes_def icmp_hdr_of_bytes_def
      icmp_hdr.defs u16_at_def u16_bytes_def le16_of_u16)+

lemma icmp_t3_hdr_roundtrip:
  assumes "length (icmp_data h) = 28"
  shows "icmp_t3_hdr_of_bytes (icmp_t3_hdr_bytes h) = h" and "length (icmp_t3_hdr_bytes h) = 36"
  using assms by (cases h; simp add: icmp_t3_hdr_bytes_def icmp_t3_hdr_of_bytes_def icmp_hdr_bytes_def icmp_hdr_of_bytes_def
      icmp_hdr.defs u16_at_def u16_bytes_def le16_of_u16 chunk_def)+

section \<open>Properties\<close>

text \<open>Reading a header structure from its bytes and writing it back restores the bytes, for each of
  the four headers, the two bit fields of the IP header included.\<close>

theorem headers_roundtrip:
  assumes "length e = 14" and "length a = 28" and "length i = 20" and "length c = 4"
  shows "ethernet_hdr_bytes (ethernet_hdr_of_bytes e) = e \<and> arp_hdr_bytes (arp_hdr_of_bytes a) = a \<and>
    ip_hdr_bytes (ip_hdr_of_bytes i) = i \<and> icmp_hdr_bytes (icmp_hdr_of_bytes c) = c"
  using assms by (simp add: ethernet_hdr_bytes_of_bytes arp_hdr_bytes_of_bytes ip_hdr_bytes_of_bytes
      icmp_hdr_bytes_of_bytes)

theorem headers_roundtrip_witness:
  "ip_hdr_bytes (ip_hdr_of_bytes (0x45 # replicate 19 7)) = 0x45 # replicate 19 7"
  using headers_roundtrip [of "replicate 14 1" "replicate 28 2" "0x45 # replicate 19 7" "replicate 4 3"] by simp

end
