(* ===== verification/Utils.thy ===== *)
theory Utils
  imports Protocol
begin

unbundle bit_operations_syntax

text \<open>
  \<^verbatim>\<open>core/utils.cpp\<close>: the Internet checksum \<open>cksum\<close>, the field readers, the printers of
  addresses and headers.

  \<open>cksum\<close> keeps the shape of the C function: a loop over a pointer and a signed length that
  adds 16-bit words to a 32-bit accumulator, the loop that folds the carries, the
  complement, the swap to network order, and the final test for zero. The lemmas relate it to
  the sm of the 16-bit words of the data modulo 65535, which is what RFC 1071 specifies, and
  say what storing the result in the data does to the checksum of the whole.
\<close>

section \<open>cksum\<close>

text \<open>
  \<^verbatim>\<open>for (sum = 0; len >= 2; data += 2, len -= 2) sum += data[0] << 8 | data[1];\<close>
  \<open>None\<close>: the loop reads past the memory behind the pointer.
\<close>

fun cksum_loop :: "buffer \<Rightarrow> int \<Rightarrow> u32 \<Rightarrow> (buffer \<times> int \<times> u32) option" where
  "cksum_loop data len sm =
     (if 2 \<le> len
      then (case data of
              a # b # rest \<Rightarrow> cksum_loop rest (len - 2) (sm + (push_bit 8 (ucast a) OR ucast b))
            | _ \<Rightarrow> None)
      else Some (data, len, sm))"

declare cksum_loop.simps [simp del]

text \<open>\<^verbatim>\<open>while (sum > 0xffff) sum = (sum >> 16) + (sum & 0xffff);\<close>\<close>

lemma unat_carry_step:
  fixes sm :: u32
  shows "unat (drop_bit 16 sm + (sm AND 0xffff)) = unat sm div 65536 + unat sm mod 65536"
proof -
  have m: "(0xffff :: u32) = mask 16" by (simp add: mask_eq_exp_minus_1)
  have "unat (drop_bit 16 sm) = unat sm div 65536"
    by (simp add: drop_bit_eq_div unat_div_distrib)
  moreover have "unat (sm AND 0xffff) = unat sm mod 65536"
    unfolding m by (simp add: take_bit_eq_mod unat_mod_distrib flip: take_bit_eq_mask)
  moreover have "unat sm < 2 ^ 32" using unsigned_less [of sm, where ?'a = nat] by simp
  then have "unat sm div 65536 + unat sm mod 65536 < 2 ^ 32" by (simp add: div_le_dividend)
  ultimately show ?thesis
    by (simp add: unat_word_ariths)
qed

function fold_carry :: "u32 \<Rightarrow> u32" where
  "fold_carry sm =
     (if 0xffff < sm then fold_carry (drop_bit 16 sm + (sm AND 0xffff)) else sm)"
  by pat_completeness auto
termination
proof (relation "measure unat")
  fix sm :: u32
  assume "0xffff < sm"
  then have "65535 < unat sm" by (simp add: word_less_nat_alt)
  moreover have "unat sm = 65536 * (unat sm div 65536) + unat sm mod 65536" by simp
  ultimately have "unat sm div 65536 + unat sm mod 65536 < unat sm" by linarith
  then show "(drop_bit 16 sm + (sm AND 0xffff), sm) \<in> measure unat"
    by (simp add: unat_carry_step)
qed simp

declare fold_carry.simps [simp del]

definition cksum :: "buffer \<Rightarrow> int \<Rightarrow> u16 option" where
  "cksum data len = do {
     (data, len, sm) \<leftarrow> cksum_loop data len 0;
     sm \<leftarrow> (if 0 < len
            then (case data of a # _ \<Rightarrow> Some (sm + push_bit 8 (ucast a)) | [] \<Rightarrow> None)
            else Some sm);
     let sm = htons (ucast (NOT (fold_carry sm)));
     Some (if sm \<noteq> 0 then sm else 0xffff)
   }"

section \<open>What cksum computes\<close>

text \<open>The sum of the 16-bit words in network order, an odd last byte padded with a zero.\<close>

fun sum16 :: "buffer \<Rightarrow> nat" where
  "sum16 [] = 0"
| "sum16 [a] = 256 * unat a"
| "sum16 (a # b # r) = be16 a b + sum16 r"

text \<open>End-around carry, and the complement with zero written as all ones.\<close>

definition ones_norm :: "nat \<Rightarrow> nat" where
  "ones_norm n = (if n = 0 then 0 else (n - 1) mod 65535 + 1)"

definition cksum_value :: "nat \<Rightarrow> nat" where
  "cksum_value n = (if ones_norm n = 65535 then 65535 else 65535 - ones_norm n)"

lemma be16_le: "be16 a b \<le> 65535"
  using unat_byte_less [of a] unat_byte_less [of b] by (simp add: be16_def)

lemma sum16_le: "sum16 b \<le> 65535 * length b"
proof (induction b rule: sum16.induct)
  case (2 a)
  then show ?case using unat_byte_less [of a] by simp
next
  case (3 a b r)
  then show ?case using be16_le [of a b] by simp
qed simp

lemma sum16_append: "even (length xs) \<Longrightarrow> sum16 (xs @ ys) = sum16 xs + sum16 ys"
  by (induction xs rule: sum16.induct) auto

lemma unat_word_of_bytes: "unat (push_bit 8 (ucast a) OR ucast b :: u32) = be16 a b"
proof -
  have "(push_bit 8 (ucast a) OR ucast b :: u32) = push_bit 8 (ucast a) + ucast b"
    by (rule disjunctive_add [symmetric]) (auto simp: bit_simps not_bit_byte)
  moreover have "unat (push_bit 8 (ucast a :: u32)) = 256 * unat a"
    using unat_byte_less [of a]
    by (simp add: push_bit_eq_mult unat_word_ariths unsigned_ucast_eq take_bit_eq_mod)
  moreover have "unat (ucast b :: u32) = unat b"
    using unat_byte_less [of b] by (simp add: unsigned_ucast_eq take_bit_eq_mod)
  ultimately show ?thesis
    using unat_byte_less [of a] unat_byte_less [of b] by (simp add: unat_word_ariths be16_def)
qed

lemma word_of_bytes: "(push_bit 8 (ucast a) OR ucast b :: u32) = of_nat (be16 a b)"
  by (simp add: word_eq_iff_unsigned [where ?'a = nat] unat_word_of_bytes
      unsigned_of_nat take_bit_nat_eq_self be16_le [THEN le_less_trans])

lemma cksum_loop_eq:
  "n \<le> length data \<Longrightarrow> cksum_loop data (int n) s =
     Some (drop (2 * (n div 2)) data, int (n mod 2),
           s + of_nat (sum16 (take (2 * (n div 2)) data)))"
proof (induction data arbitrary: n s rule: sum16.induct)
  case (3 a b r)
  show ?case
  proof (cases "2 \<le> n")
    case True
    then obtain m where m: "n = m + 2" by (metis add.commute le_Suc_ex)
    with "3.prems" have "m \<le> length r" by simp
    from "3.IH" [OF this] show ?thesis
      by (simp add: cksum_loop.simps [of "a # b # r"] m word_of_bytes add.assoc)
  next
    case False
    then have "n = 0 \<or> n = 1" by auto
    then show ?thesis by (auto simp: cksum_loop.simps)
  qed
next
  case (2 a)
  then have "n = 0 \<or> n = 1" by auto
  then show ?case by (auto simp: cksum_loop.simps)
qed (simp add: cksum_loop.simps)

lemma ones_norm_le: "ones_norm n \<le> 65535"
proof (cases n)
  case (Suc m)
  have "m mod 65535 < 65535" by (rule mod_less_divisor) simp
  then have "Suc (m mod 65535) \<le> 65535" by (rule Suc_leI)
  with Suc show ?thesis by (simp add: ones_norm_def)
qed (simp add: ones_norm_def)

lemma ones_norm_0_iff [simp]: "ones_norm n = 0 \<longleftrightarrow> n = 0"
  by (simp add: ones_norm_def)

lemma ones_norm_mod: "ones_norm n mod 65535 = n mod 65535"
  by (cases n) (auto simp: ones_norm_def mod_Suc_eq)

lemma ones_norm_small: "n \<le> 65535 \<Longrightarrow> ones_norm n = n"
  by (cases n) (auto simp: ones_norm_def)

lemma ones_norm_unique:
  assumes "m \<le> 65535" and "m = 0 \<longleftrightarrow> n = 0" and "m mod 65535 = n mod 65535"
  shows "ones_norm n = m"
proof (cases "n = 0")
  case False
  then have *: "0 < m" "0 < ones_norm n" "ones_norm n \<le> 65535"
    using assms(2) ones_norm_le by (auto simp: ones_norm_def)
  have eq: "ones_norm n mod 65535 = m mod 65535" using assms(3) ones_norm_mod by simp
  show ?thesis
  proof (cases "m = 65535")
    case True
    with eq have "65535 dvd ones_norm n" by (simp add: dvd_eq_mod_eq_0)
    with * show ?thesis using True dvd_imp_le [of 65535 "ones_norm n"] by simp
  next
    case False
    with assms(1) * have "m mod 65535 = m" "0 < m" by simp_all
    moreover have "ones_norm n \<noteq> 65535" using eq calculation by auto
    ultimately show ?thesis using eq * by simp
  qed
qed (use assms in simp)

lemma ones_norm_cong:
  "n mod 65535 = m mod 65535 \<Longrightarrow> (n = 0 \<longleftrightarrow> m = 0) \<Longrightarrow> ones_norm n = ones_norm m"
  by (rule ones_norm_unique) (auto simp: ones_norm_le ones_norm_mod)

lemma unat_fold_carry: "unat (fold_carry s) = ones_norm (unat s)"
proof (induction s rule: fold_carry.induct)
  case (1 s)
  show ?case
  proof (cases "0xffff < s")
    case True
    let ?q = "unat s div 65536" and ?r = "unat s mod 65536"
    have s: "unat s = ?q * 65536 + ?r" by simp
    have "unat s = (?q + ?r) + 65535 * ?q" using s by linarith
    then have "unat s mod 65535 = (?q + ?r) mod 65535" by (metis mod_mult_self2)
    moreover have "unat s = 0 \<longleftrightarrow> ?q + ?r = 0" using s by linarith
    ultimately have "ones_norm (unat s) = ones_norm (?q + ?r)" by (rule ones_norm_cong)
    with True "1.IH" show ?thesis
      by (simp add: fold_carry.simps [of s] unat_carry_step)
  next
    case False
    then have "unat s \<le> 65535" by (simp add: word_less_nat_alt)
    with False show ?thesis by (simp add: fold_carry.simps [of s] ones_norm_small)
  qed
qed


lemma htons_0_iff [simp]: "htons w = 0 \<longleftrightarrow> w = 0"
  by (metis htons_htons htons_def bit.disj_zero_right drop_bit_of_0 push_bit_of_0)

lemma unat_not_u16: "unat (ucast (NOT s :: u32) :: u16) = 65535 - unat (ucast s :: u16)"
proof -
  have "ucast (NOT s :: u32) = (NOT (ucast s) :: u16)"
    by (rule bit_word_eqI) (simp add: bit_simps)
  also have "\<dots> = - 1 - ucast s" by (simp add: not_eq_complement)
  finally show ?thesis
    by (simp add: unat_sub unsigned_minus_1_eq_mask mask_eq_exp_minus_1)
qed

text \<open>The result for the first \<open>n\<close> bytes of the data, in network order.\<close>

lemma cksum_finish:
  assumes "unat s \<le> 65535"
  shows "unat (htons (if htons (ucast (NOT s)) \<noteq> 0 then htons (ucast (NOT s)) else 0xffff))
    = (if unat (s :: u32) = 65535 then 65535 else 65535 - unat s)"
proof -
  have u: "unat (ucast s :: u16) = unat s"
    using assms by (simp add: unsigned_ucast_eq take_bit_nat_eq_self)
  have z: "(ucast (NOT s) :: u16) = 0 \<longleftrightarrow> unat s = 65535"
    using assms by (simp add: unat_eq_0 [symmetric] unat_not_u16 u)
  have "htons 0xffff = 0xffff" by (simp add: htons_def)
  then show ?thesis by (simp add: htons_htons unat_not_u16 u z)
qed

lemma sum16_take_Suc:
  assumes "n < length data" and "even n"
  shows "sum16 (take (Suc n) data) = sum16 (take n data) + 256 * unat (data ! n)"
  using assms by (simp add: take_Suc_conv_app_nth sum16_append)

lemma cksum_Some:
  assumes "n \<le> length data" and "n \<le> 65536"
  obtains r where "cksum data (int n) = Some r"
    and "unat (htons r) = cksum_value (sum16 (take n data))"
proof -
  let ?N = "sum16 (take n data)"
  let ?s = "fold_carry (of_nat ?N)"
  let ?r = "if htons (ucast (NOT ?s)) \<noteq> 0 then htons (ucast (NOT ?s)) else 0xffff"
  have N: "?N < 2 ^ 32" using sum16_le [of "take n data"] assms by simp
  have "cksum data (int n) = Some ?r"
  proof (cases "even n")
    case True
    then show ?thesis using assms by (simp add: cksum_def cksum_loop_eq)
  next
    case False
    then obtain m where n: "n = Suc (2 * m)" by (elim oddE) simp
    with assms have k: "2 * m < length data" by simp
    have d: "drop (2 * m) data = data ! (2 * m) # drop (Suc (2 * m)) data"
      using k by (simp add: Cons_nth_drop_Suc)
    have b: "push_bit 8 (ucast (data ! (2 * m)) :: u32) = of_nat (256 * unat (data ! (2 * m)))"
      by (simp add: push_bit_eq_mult mult.commute)
    have "?N = sum16 (take (2 * m) data) + 256 * unat (data ! (2 * m))"
      unfolding n by (rule sum16_take_Suc [OF k]) simp
    then have "(of_nat ?N :: u32) =
        of_nat (sum16 (take (2 * m) data)) + of_nat (256 * unat (data ! (2 * m)))"
      by (simp only: of_nat_add)
    then show ?thesis
      unfolding cksum_def cksum_loop_eq [OF assms(1)] Let_def
      by (simp add: n d b del: of_nat_mult)
  qed
  moreover have "unat (of_nat ?N :: u32) = ?N"
    using N by (simp add: unsigned_of_nat take_bit_nat_eq_self)
  then have "unat ?s = ones_norm ?N" by (simp add: unat_fold_carry)
  then have "unat (htons ?r) = cksum_value ?N"
    by (subst cksum_finish) (simp_all add: ones_norm_le cksum_value_def)
  ultimately show ?thesis by (rule that)
qed


lemma ucast_minus_1: "(ucast (- 1 :: u32) :: u16) = 0xffff"
  by (simp add: word_eq_iff_unsigned [where ?'a = nat] unsigned_ucast_eq
      unsigned_minus_1_eq_mask mask_eq_exp_minus_1 take_bit_eq_mod)

lemma cksum_nonpositive: "len \<le> 0 \<Longrightarrow> cksum data len = Some 0xffff"
  by (simp add: cksum_def cksum_loop.simps fold_carry.simps htons_def ucast_minus_1)

lemma cksum_value_ffff: "cksum_value n = 65535 \<longleftrightarrow> n mod 65535 = 0"
proof -
  have "m \<le> 65535 \<Longrightarrow> (if m = 65535 then 65535 else 65535 - m) = (65535 :: nat) \<longleftrightarrow> m mod 65535 = 0" for m
    by (cases "m = 65535"; cases "m = 0") auto
  from this [OF ones_norm_le [of n]] show ?thesis
    by (simp only: cksum_value_def ones_norm_mod)
qed

text \<open>Replacing one aligned 16-bit word changes the sum by the difference.\<close>

lemma put_two_split:
  assumes "off + 2 \<le> length b"
  shows "put off [x, y] b = take off b @ [x, y] @ drop (off + 2) b"
    and "b = take off b @ [b ! off, b ! (off + 1)] @ drop (off + 2) b"
  using assms by (simp_all add: put_def id_take_nth_drop Cons_nth_drop_Suc
      flip: append_assoc append_take_drop_id)

lemma sum16_put:
  assumes "even off" and "off + 2 \<le> length b"
  shows "sum16 (put off [x, y] b) + be16 (b ! off) (b ! (off + 1)) = sum16 b + be16 x y"
proof -
  let ?z = "sum16 (drop (off + 2) b)"
  have e: "even (length (take off b))" using assms by simp
  have "sum16 (put off [x, y] b) = sum16 (take off b) + (be16 x y + ?z)"
    unfolding put_two_split(1) [OF assms(2)] sum16_append [OF e] by simp
  moreover have "sum16 b = sum16 (take off b) + (be16 (b ! off) (b ! (off + 1)) + ?z)"
    by (subst put_two_split(2) [OF assms(2)], subst sum16_append [OF e]) simp
  ultimately show ?thesis by simp
qed

lemma be16_u16_bytes: "u16_bytes w = [x, y] \<Longrightarrow> be16 x y = unat (htons w)"
  by (metis le16_of_u16 list.inject u16_bytes_def unat_htons_le16)

section \<open>The contract of a checksum\<close>

text \<open>
  What the router relies on when it verifies or fills in a checksum field: over the first
  \<open>n\<close> bytes of the data the routine yields the complement of their sum.
\<close>

locale internet_checksum =
  fixes ck :: "buffer \<Rightarrow> int \<Rightarrow> u16 option"
  assumes total: "n \<le> length data \<Longrightarrow> n \<le> 65536 \<Longrightarrow> \<exists>r. ck data (int n) = Some r"
    and result: "n \<le> length data \<Longrightarrow> n \<le> 65536 \<Longrightarrow> ck data (int n) = Some r \<Longrightarrow>
      unat (htons r) = cksum_value (sum16 (take n data))"
begin

lemma verify:
  assumes "n \<le> length data" and "n \<le> 65536"
  shows "ck data (int n) = Some 0xffff \<longleftrightarrow> sum16 (take n data) mod 65535 = 0"
proof -
  obtain r where r: "ck data (int n) = Some r" using total [OF assms] by blast
  have "r = 0xffff \<longleftrightarrow> htons r = htons 0xffff" by (metis htons_htons)
  also have "htons 0xffff = 0xffff" by (simp add: htons_def)
  also have "htons r = 0xffff \<longleftrightarrow> cksum_value (sum16 (take n data)) = 65535"
    by (simp add: word_eq_iff_unsigned [where ?'a = nat] result [OF assms r])
  finally show ?thesis using r by (simp add: cksum_value_ffff)
qed

text \<open>Storing the result in the zeroed field makes the whole verify.\<close>

lemma seal:
  assumes len: "n \<le> length b" "n \<le> 65536" and off: "even off" "off + 2 \<le> n"
    and zero: "b ! off = 0" "b ! (off + 1) = 0"
    and c: "ck b (int n) = Some c"
  shows "ck (put off (u16_bytes c) b) (int n) = Some 0xffff"
proof -
  let ?t = "take n b"
  obtain x y where xy: "u16_bytes c = [x, y]" by (simp add: u16_bytes_def)
  have t: "take n (put off (u16_bytes c) b) = put off [x, y] ?t"
    using chunk_put_inside [of 0 off "[x, y]" n b] off len by (simp add: xy chunk_def)
  have "sum16 (put off [x, y] ?t) + be16 0 0 = sum16 ?t + be16 x y"
    using sum16_put [of off ?t x y] off len zero by simp
  moreover have "be16 x y = cksum_value (sum16 ?t)"
    using be16_u16_bytes [OF xy] result [OF len c] by simp
  ultimately have eq: "sum16 (put off [x, y] ?t) = sum16 ?t + cksum_value (sum16 ?t)"
    by (simp add: be16_def)
  have "(sum16 ?t + cksum_value (sum16 ?t)) mod 65535
      = (ones_norm (sum16 ?t) + cksum_value (sum16 ?t)) mod 65535"
    by (metis mod_add_left_eq ones_norm_mod)
  also have "\<dots> = 0" using ones_norm_le [of "sum16 ?t"] by (simp add: cksum_value_def)
  finally show ?thesis
    using verify [of n "put off (u16_bytes c) b"] len off by (simp add: t eq)
qed

end

interpretation ck: internet_checksum cksum
proof
  fix n and data :: buffer
  assume "n \<le> length data" "n \<le> 65536"
  then show "\<exists>r. cksum data (int n) = Some r" by (rule cksum_Some) blast
next
  fix n and data :: buffer and r
  assume "n \<le> length data" "n \<le> 65536" "cksum data (int n) = Some r"
  then show "unat (htons r) = cksum_value (sum16 (take n data))"
    by (metis cksum_Some option.inject)
qed

section \<open>Properties\<close>

text \<open>C36: The checksum of the first bytes of a buffer is the one nonzero 16-bit number that, added to the
  sum of their 16-bit words in network order (an odd last byte padded with zero), makes a
  multiple of 65535, which is the Internet checksum of RFC 1071.\<close>

theorem cksum_rfc1071:
  assumes "n \<le> length data" and "n \<le> 65536"
  shows "\<exists>r. cksum data (int n) = Some r \<and> 0 < unat (htons r) \<and>
    (sum16 (take n data) + unat (htons r)) mod 65535 = 0"
proof -
  let ?S = "sum16 (take n data)"
  obtain r where r: "cksum data (int n) = Some r" using ck.total [OF assms] by blast
  have v: "unat (htons r) = cksum_value ?S" by (rule ck.result [OF assms r])
  have le: "ones_norm ?S \<le> 65535" by (rule ones_norm_le)
  have "(?S + cksum_value ?S) mod 65535 = (ones_norm ?S + cksum_value ?S) mod 65535"
    by (metis mod_add_left_eq ones_norm_mod)
  also have "\<dots> = 0" using le by (simp add: cksum_value_def)
  finally have sm: "(?S + unat (htons r)) mod 65535 = 0" by (simp only: v)
  have "0 < (if k = 65535 then 65535 else 65535 - k)" if "k \<le> 65535" for k :: nat
    using that by (cases "k = 65535") simp_all
  from this [OF le] have "0 < unat (htons r)" unfolding v cksum_value_def .
  then show ?thesis using r sm by (intro exI [of _ r] conjI)
qed

theorem cksum_rfc1071_witness:
  "\<exists>r. cksum [0x45, 0x00, 0x1c] (int 3) = Some r \<and> 0 < unat (htons r) \<and>
    (sum16 (take 3 [0x45, 0x00, 0x1c]) + unat (htons r)) mod 65535 = 0"
  by (rule cksum_rfc1071) simp_all

text \<open>C37: Storing the checksum of a buffer in its zeroed checksum field makes the buffer verify: the
  routine returns 0xffff on it, the value the router compares with.\<close>

theorem cksum_seals:
  assumes "n \<le> length b" and "n \<le> 65536" and "even off" and "off + 2 \<le> n"
    and "b ! off = 0" and "b ! (off + 1) = 0" and "cksum b (int n) = Some c"
  shows "cksum (put off (u16_bytes c) b) (int n) = Some 0xffff"
  using assms by (rule ck.seal)

theorem cksum_seals_witness:
  "\<exists>c. cksum (put 2 (u16_bytes c) [0x45, 0x00, 0, 0, 0x1c, 0x07]) (int 6) = Some 0xffff"
proof -
  obtain c where c: "cksum [0x45, 0x00, 0, 0, 0x1c, 0x07] (int 6) = Some c"
    using ck.total [of 6 "[0x45, 0x00, 0, 0, 0x1c, 0x07]"] by auto
  have "cksum (put 2 (u16_bytes c) [0x45, 0x00, 0, 0, 0x1c, 0x07]) (int 6) = Some 0xffff"
    by (rule cksum_seals [OF _ _ _ _ _ _ c]) simp_all
  then show ?thesis by blast
qed

end
