(* ===== verification/Texts.thy ===== *)
theory Texts
  imports Prelude
begin

text \<open>
  What the three projects print numbers with (\<^verbatim>\<open>std::to_string\<close>, \<^verbatim>\<open>operator<<\<close>, \<^verbatim>\<open>%u\<close>, \<^verbatim>\<open>%d\<close>), and
  the casts of clock differences to whole units (\<^verbatim>\<open>std::chrono::duration_cast\<close>, which rounds
  towards zero). The lemmas: decimal text determines its number, so files named by a number are
  different files.
\<close>

section \<open>Decimal text\<close>

fun show_nat :: "nat \<Rightarrow> string" where
  "show_nat n = (if n < 10 then [char_of (48 + n)] else show_nat (n div 10) @ [char_of (48 + n mod 10)])"

declare show_nat.simps [simp del]

definition show_int :: "int \<Rightarrow> string" where
  "show_int i = (if i < 0 then ''-'' @ show_nat (nat (- i)) else show_nat (nat i))"

abbreviation newline :: string where "newline \<equiv> [CHR 0x0A]"

lemma char_of_digit_inject: "m < 10 \<Longrightarrow> n < 10 \<Longrightarrow> (char_of (48 + m) :: char) = char_of (48 + n) \<longleftrightarrow> m = (n :: nat)"
proof
  assume d: "m < 10" "n < 10" and "(char_of (48 + m) :: char) = char_of (48 + n)"
  then have "(of_char (char_of (48 + m) :: char) :: nat) = of_char (char_of (48 + n) :: char)" by simp
  with d show "m = n" by simp
qed simp

lemma show_nat_nonempty: "show_nat n \<noteq> []"
  by (subst show_nat.simps) simp

lemma length_show_nat_1: "length (show_nat n) = 1 \<longleftrightarrow> n < 10"
  by (subst show_nat.simps) (simp add: show_nat_nonempty)

lemma show_nat_inject: "show_nat m = show_nat n \<longleftrightarrow> m = n"
proof
  show "show_nat m = show_nat n \<Longrightarrow> m = n"
  proof (induction m arbitrary: n rule: less_induct)
    case (less m)
    have small: "m < 10 \<longleftrightarrow> n < 10" using less.prems length_show_nat_1 by metis
    show ?case
    proof (cases "m < 10")
      case True
      with less.prems small show ?thesis
        by (subst (asm) (1 2) show_nat.simps) (simp add: char_of_digit_inject)
    next
      case False
      with less.prems small have eq: "show_nat (m div 10) = show_nat (n div 10)"
          "(char_of (48 + m mod 10) :: char) = char_of (48 + n mod 10)"
        by (subst (asm) (1 2) show_nat.simps, simp)+
      have "m div 10 = n div 10" using less.IH [of "m div 10" "n div 10"] eq(1) False by simp
      moreover have "m mod 10 = n mod 10" using eq(2) by (simp add: char_of_digit_inject)
      ultimately show ?thesis by (metis div_mult_mod_eq)
    qed
  qed
qed simp

section \<open>Durations\<close>

definition duration_seconds :: "int \<Rightarrow> int" where
  "duration_seconds d = (if d < 0 then - ((- d) div seconds 1) else d div seconds 1)"

definition duration_millis :: "int \<Rightarrow> int" where
  "duration_millis d = (if d < 0 then - ((- d) div 1000000) else d div 1000000)"

end
