(* ===== verification/Printers.thy ===== *)
theory Printers
  imports Utils Texts
begin

unbundle bit_operations_syntax

text \<open>
  The printers of \<^verbatim>\<open>core/utils.cpp\<close>. \<open>macToString\<close> and \<open>ipToString\<close> return the strings the
  code builds (\<open>macToString\<close> throws \<^verbatim>\<open>std::out_of_range\<close>, written \<open>None\<close>, on an address of fewer
  than six bytes). The \<open>print_...\<close> functions write to \<^verbatim>\<open>stderr\<close>: their model is the list of the
  headers they print, with the printed fields, and \<open>None\<close> when they read past the buffer.
\<close>

section \<open>Addresses\<close>

definition hex_digit :: "nat \<Rightarrow> char" where
  "hex_digit n = (if n < 10 then char_of (48 + n) else char_of (87 + n))"

text \<open>The conversions \<^verbatim>\<open>%02x\<close> and \<^verbatim>\<open>%d\<close> for a byte.\<close>

definition hex2 :: "byte \<Rightarrow> string" where
  "hex2 b = [hex_digit (unat b div 16), hex_digit (unat b mod 16)]"

definition dec_byte :: "byte \<Rightarrow> string" where
  "dec_byte b =
     (let n = unat b in
      if n < 10 then [char_of (48 + n)]
      else if n < 100 then [char_of (48 + n div 10), char_of (48 + n mod 10)]
      else [char_of (48 + n div 100), char_of (48 + n div 10 mod 10), char_of (48 + n mod 10)])"

definition macToString :: "buffer \<Rightarrow> string option" where
  "macToString mac =
     (if 6 \<le> length mac
      then Some (hex2 (mac ! 0) @ '':'' @ hex2 (mac ! 1) @ '':'' @ hex2 (mac ! 2) @ '':'' @
                 hex2 (mac ! 3) @ '':'' @ hex2 (mac ! 4) @ '':'' @ hex2 (mac ! 5))
      else None)"

text \<open>\<^verbatim>\<open>inet_ntop(AF_INET, ...)\<close> on the four bytes of the address in memory order.\<close>

definition ipToString :: "u32 \<Rightarrow> string" where
  "ipToString ip =
     (let b = u32_bytes ip in
      dec_byte (b ! 0) @ ''.'' @ dec_byte (b ! 1) @ ''.'' @ dec_byte (b ! 2) @ ''.'' @
      dec_byte (b ! 3))"

lemma length_dec_byte: "0 < length (dec_byte b)"
  by (simp add: dec_byte_def Let_def)

lemma dec_byte_one: "length (dec_byte b) = 1 \<longleftrightarrow> unat b < 10"
  by (simp add: dec_byte_def Let_def)

lemma dec_byte_0: "dec_byte b = ''0'' \<longleftrightarrow> b = 0"
proof
  assume a: "dec_byte b = ''0''"
  then have "unat b < 10" using dec_byte_one [of b] by simp
  with a have "char_of (48 + unat b) = (CHR ''0'')" by (simp add: dec_byte_def Let_def)
  then have "of_char (char_of (48 + unat b) :: char) = (of_char (CHR ''0'') :: nat)" by simp
  with \<open>unat b < 10\<close> have "unat b = 0" by simp
  then show "b = 0" by (simp add: word_eq_iff_unsigned [where ?'a = nat])
qed (simp add: dec_byte_def char_of_def bit_0)

lemma ipToString_0: "ipToString ip = ''0.0.0.0'' \<longleftrightarrow> ip = 0"
proof
  obtain a b c d where ip: "ip = le32 a b c d" by (cases ip rule: u32_cases)
  assume eq: "ipToString ip = ''0.0.0.0''"
  then have s: "dec_byte a @ ''.'' @ dec_byte b @ ''.'' @ dec_byte c @ ''.'' @ dec_byte d
      = ''0.0.0.0''"
    by (simp add: ipToString_def ip le32_bytes_u32)
  then have "length (dec_byte a) + length (dec_byte b) + length (dec_byte c) + length (dec_byte d) = 4"
    by (drule_tac f = length in arg_cong) simp
  with length_dec_byte [of a] length_dec_byte [of b] length_dec_byte [of c] length_dec_byte [of d]
  have "length (dec_byte a) = 1" "length (dec_byte b) = 1" "length (dec_byte c) = 1"
    "length (dec_byte d) = 1" by linarith+
  then obtain w x y z where "dec_byte a = [w]" "dec_byte b = [x]" "dec_byte c = [y]" "dec_byte d = [z]"
    by (auto simp: length_Suc_conv)
  with s have "dec_byte a = ''0''" "dec_byte b = ''0''" "dec_byte c = ''0''" "dec_byte d = ''0''"
    by simp_all
  then show "ip = 0" by (simp add: ip dec_byte_0 le32_def)
next
  assume "ip = 0"
  then show "ipToString ip = ''0.0.0.0''"
    by (simp add: ipToString_def u32_bytes_def dec_byte_0 [THEN iffD2])
qed

section \<open>Headers\<close>

definition ethertype :: "buffer \<Rightarrow> u16 option" where
  "ethertype buf = do {
     h \<leftarrow> mem_read 0 14 buf;
     Some (ntohs (ether_type (ethernet_hdr_of_bytes h)))
   }"

definition ip_protocol :: "buffer \<Rightarrow> byte option" where
  "ip_protocol buf = do {
     h \<leftarrow> mem_read 0 20 buf;
     Some (ip_p (ip_hdr_of_bytes h))
   }"

datatype printed =
    Printed_eth buffer buffer nat
  | Printed_ip ip_hdr "string option" nat string string
  | Printed_icmp icmp_hdr
  | Printed_arp arp_hdr string string
  | Printed_failure string
  | Printed_unrecognized nat

text \<open>\<^verbatim>\<open>%02X\<close>, and the line \<^verbatim>\<open>print_addr_eth\<close> writes for the six bytes at a pointer.\<close>

definition hex2_upper :: "byte \<Rightarrow> string" where
  "hex2_upper b =
     (let digit = (\<lambda>n. if n < 10 then char_of (48 + n) else char_of (55 + n))
      in [digit (unat b div 16), digit (unat b mod 16)])"

definition print_addr_eth :: "buffer \<Rightarrow> string option" where
  "print_addr_eth addr = do {
     mac \<leftarrow> mem_read 0 6 addr;
     Some (concat (map (\<lambda>pos. (if pos > 0 then '':'' else []) @ hex2_upper (mac ! pos)) [0..<6]) @ [CHR 0x0A])
   }"

lemma print_addr_eth_safe: "6 \<le> length addr \<Longrightarrow> \<exists>line. print_addr_eth addr = Some line \<and> length line = 18"
  by (simp add: print_addr_eth_def mem_read_Some hex2_upper_def Let_def upt_rec)

definition print_addr_ip_int :: "u32 \<Rightarrow> string" where
  "print_addr_ip_int ip = ipToString (ntohl ip)"

definition print_hdr_eth :: "buffer \<Rightarrow> printed option" where
  "print_hdr_eth buf = do {
     h \<leftarrow> mem_read 0 14 buf;
     let e = ethernet_hdr_of_bytes h;
     Some (Printed_eth (ether_dhost e) (ether_shost e) (unat (ntohs (ether_type e))))
   }"

definition print_hdr_ip :: "buffer \<Rightarrow> printed option" where
  "print_hdr_ip buf = do {
     b \<leftarrow> mem_read 0 20 buf;
     let h = ip_hdr_of_bytes b;
     let off = ntohs (ip_off h);
     let flag = (if off AND 0x4000 \<noteq> 0 then Some ''DF''
                 else if off AND 0x2000 \<noteq> 0 then Some ''MF''
                 else if off AND 0x8000 \<noteq> 0 then Some ''R''
                 else None);
     Some (Printed_ip h flag (unat (off AND 0x1fff))
       (print_addr_ip_int (ntohl (ip_src h))) (print_addr_ip_int (ntohl (ip_dst h))))
   }"

definition print_hdr_icmp :: "buffer \<Rightarrow> printed option" where
  "print_hdr_icmp buf = do {
     b \<leftarrow> mem_read 0 4 buf;
     Some (Printed_icmp (icmp_hdr_of_bytes b))
   }"

definition print_hdr_arp :: "buffer \<Rightarrow> printed option" where
  "print_hdr_arp buf = do {
     b \<leftarrow> mem_read 0 28 buf;
     let h = arp_hdr_of_bytes b;
     Some (Printed_arp h (print_addr_ip_int (ntohl (arp_sip h)))
       (print_addr_ip_int (ntohl (arp_tip h))))
   }"

text \<open>The pointer arithmetic \<^verbatim>\<open>buf + n\<close> drops \<open>n\<close> bytes of the memory behind the pointer.\<close>

definition print_hdrs :: "buffer \<Rightarrow> nat \<Rightarrow> printed list option" where
  "print_hdrs buf len =
     (if len < 14
      then Some [Printed_failure ''Failed to print ETHERNET header, insufficient length'']
      else do {
        ethtype \<leftarrow> ethertype buf;
        eth \<leftarrow> print_hdr_eth buf;
        if ethtype = ethertype_ip then
          (if len < 14 + 20
           then Some [eth, Printed_failure ''Failed to print IP header, insufficient length'']
           else do {
             ip \<leftarrow> print_hdr_ip (drop 14 buf);
             ip_proto \<leftarrow> ip_protocol (drop 14 buf);
             if ip_proto = ip_protocol_icmp then
               (if len < 14 + 20 + 4
                then Some [eth, ip,
                  Printed_failure ''Failed to print ICMP header, insufficient length'']
                else do {
                  icmp \<leftarrow> print_hdr_icmp (drop (14 + 20) buf);
                  Some [eth, ip, icmp]
                })
             else Some [eth, ip]
           })
        else if ethtype = ethertype_arp then
          (if len < 14 + 28
           then Some [eth, Printed_failure ''Failed to print ARP header, insufficient length'']
           else do {
             arp \<leftarrow> print_hdr_arp (drop 14 buf);
             Some [eth, arp]
           })
        else Some [eth, Printed_unrecognized (unat ethtype)]
      })"

text \<open>The overload on a vector; \<^verbatim>\<open>size()\<close> is narrowed to \<^verbatim>\<open>uint32_t\<close>.\<close>

definition print_hdrs_buffer :: "buffer \<Rightarrow> printed list option" where
  "print_hdrs_buffer buffer = print_hdrs buffer (length buffer mod 2 ^ 32)"

lemmas print_defs =
  ethertype_def ip_protocol_def print_hdr_eth_def print_hdr_ip_def print_hdr_icmp_def
  print_hdr_arp_def

lemma print_hdrs_in_bounds: "len \<le> length buf \<Longrightarrow> \<exists>out. print_hdrs buf len = Some out"
  by (simp add: print_hdrs_def print_defs mem_read_Some Let_def)

lemma print_hdrs_buffer_in_bounds: "\<exists>out. print_hdrs_buffer b = Some out"
  unfolding print_hdrs_buffer_def by (rule print_hdrs_in_bounds) (rule mod_less_eq_dividend)

section \<open>Properties\<close>

text \<open>C40: Printing the headers of a buffer never reads past its end, however short the buffer is and
  whatever protocol numbers it holds.\<close>

theorem print_hdrs_safe: "\<exists>out. print_hdrs_buffer buffer = Some out"
  by (rule print_hdrs_buffer_in_bounds)

end
