(* ===== verification/RoutingTable.thy ===== *)
theory RoutingTable
  imports Printers
begin

unbundle bit_operations_syntax

text \<open>
  \<^verbatim>\<open>routing-table.cpp\<close>: the list of routes, the longest-match loop of \<open>lookup\<close>, and the
  parser \<open>load\<close> of the routing table file.

  The loop compares masks as host integers although they hold bytes in network order. The
  abstract specification is the prefix order on addresses as strings of 32 bits, and the
  lemmas show that for masks made of leading ones the loop refines it.
\<close>

record RoutingTableEntry =
  rt_dest :: u32
  rt_gw :: u32
  rt_mask :: u32
  rt_ifName :: string

type_synonym RoutingTable = "RoutingTableEntry list"

section \<open>lookup\<close>

definition rt_matches :: "u32 \<Rightarrow> RoutingTableEntry \<Rightarrow> bool" where
  "rt_matches ip it \<longleftrightarrow> ip AND rt_mask it = rt_dest it AND rt_mask it"

fun lookup_loop :: "u32 \<Rightarrow> RoutingTable \<Rightarrow> RoutingTableEntry option \<Rightarrow> RoutingTableEntry option" where
  "lookup_loop ip [] longestmatch = longestmatch"
| "lookup_loop ip (it # rest) longestmatch =
     lookup_loop ip rest
       (if rt_matches ip it
        then (case longestmatch of
                None \<Rightarrow> Some it
              | Some l \<Rightarrow> if rt_mask l \<le> rt_mask it then Some it else longestmatch)
        else longestmatch)"

definition rt_lookup :: "RoutingTable \<Rightarrow> u32 \<Rightarrow> string + RoutingTableEntry" where
  "rt_lookup m_entries ip =
     (case lookup_loop ip m_entries None of
        None \<Rightarrow> Inl ''Routing entry not found''
      | Some longestmatch \<Rightarrow> Inr longestmatch)"

definition addEntry :: "RoutingTable \<Rightarrow> RoutingTableEntry \<Rightarrow> RoutingTable" where
  "addEntry m_entries entry = m_entries @ [entry]"

section \<open>What the loop selects\<close>

text \<open>
  The entry selected from a list of candidates: the last one, in table order, whose mask is
  maximal among the matching entries.
\<close>

definition best_match :: "u32 \<Rightarrow> RoutingTable \<Rightarrow> RoutingTableEntry \<Rightarrow> bool" where
  "best_match ip es e \<longleftrightarrow>
     rt_matches ip e \<and>
     (\<exists>xs ys. es = xs @ e # ys \<and>
        (\<forall>x \<in> set xs. rt_matches ip x \<longrightarrow> rt_mask x \<le> rt_mask e) \<and>
        (\<forall>y \<in> set ys. rt_matches ip y \<longrightarrow> rt_mask y < rt_mask e))"

text \<open>The loop invariant: what \<open>longestmatch\<close> is after the entries \<open>ps\<close>.\<close>

fun lookup_inv :: "u32 \<Rightarrow> RoutingTable \<Rightarrow> RoutingTableEntry option \<Rightarrow> bool" where
  "lookup_inv ip ps None = (\<forall>e \<in> set ps. \<not> rt_matches ip e)"
| "lookup_inv ip ps (Some e) = best_match ip ps e"

lemma best_match_snoc_old:
  assumes "best_match ip ps e" and "rt_matches ip it \<Longrightarrow> rt_mask it < rt_mask e"
  shows "best_match ip (ps @ [it]) e"
proof -
  from assms(1) obtain xs ys where "ps = xs @ e # ys" "rt_matches ip e"
    "\<forall>x \<in> set xs. rt_matches ip x \<longrightarrow> rt_mask x \<le> rt_mask e"
    "\<forall>y \<in> set ys. rt_matches ip y \<longrightarrow> rt_mask y < rt_mask e"
    by (auto simp: best_match_def)
  with assms(2) show ?thesis
    unfolding best_match_def by (intro conjI exI [of _ xs] exI [of _ "ys @ [it]"]) auto
qed

lemma best_match_snoc_new:
  assumes "rt_matches ip it" and "\<And>x. x \<in> set ps \<Longrightarrow> rt_matches ip x \<Longrightarrow> rt_mask x \<le> rt_mask it"
  shows "best_match ip (ps @ [it]) it"
  using assms unfolding best_match_def by (intro conjI exI [of _ ps] exI [of _ "[]"]) auto

lemma best_match_max:
  "best_match ip ps e \<Longrightarrow> x \<in> set ps \<Longrightarrow> rt_matches ip x \<Longrightarrow> rt_mask x \<le> rt_mask e"
  by (auto simp: best_match_def less_imp_le)

lemma lookup_loop_inv:
  "lookup_inv ip ps acc \<Longrightarrow> lookup_inv ip (ps @ es) (lookup_loop ip es acc)"
proof (induction es arbitrary: ps acc)
  case (Cons it es)
  let ?acc = "if rt_matches ip it
        then (case acc of
                None \<Rightarrow> Some it
              | Some l \<Rightarrow> if rt_mask l \<le> rt_mask it then Some it else acc)
        else acc"
  have "lookup_inv ip (ps @ [it]) ?acc"
  proof (cases acc)
    case None
    with Cons.prems show ?thesis by (auto intro: best_match_snoc_new)
  next
    case (Some l)
    with Cons.prems have l: "best_match ip ps l" by simp
    consider (no) "\<not> rt_matches ip it" | (new) "rt_matches ip it" "rt_mask l \<le> rt_mask it"
      | (old) "rt_matches ip it" "rt_mask it < rt_mask l" by force
    then show ?thesis
    proof cases
      case no
      with Some l show ?thesis by (auto intro: best_match_snoc_old)
    next
      case new
      then have "best_match ip (ps @ [it]) it"
        by (intro best_match_snoc_new) (auto dest: best_match_max [OF l])
      with Some new show ?thesis by simp
    next
      case old
      with Some l show ?thesis by (simp add: best_match_snoc_old)
    qed
  qed
  from Cons.IH [OF this] show ?case by simp
qed simp

lemma rt_lookup_Inr: "rt_lookup t ip = Inr e \<Longrightarrow> best_match ip t e"
  using lookup_loop_inv [of ip "[]" None t] by (auto simp: rt_lookup_def split: option.splits)

lemma rt_lookup_Inl: "rt_lookup t ip = Inl m \<longleftrightarrow>
    (\<forall>e \<in> set t. \<not> rt_matches ip e) \<and> m = ''Routing entry not found''"
proof (cases "lookup_loop ip t None")
  case None
  with lookup_loop_inv [of ip "[]" None t] show ?thesis by (auto simp: rt_lookup_def)
next
  case (Some e)
  with lookup_loop_inv [of ip "[]" None t] have "best_match ip t e" by simp
  with Some show ?thesis by (auto simp: rt_lookup_def best_match_def)
qed

lemma best_match_unique:
  assumes e: "best_match ip t e" and e': "best_match ip t e'"
  shows "e = e'"
proof -
  obtain xs ys where t: "t = xs @ e # ys" "\<forall>y \<in> set ys. rt_matches ip y \<longrightarrow> rt_mask y < rt_mask e"
    using e by (auto simp: best_match_def)
  obtain xs' ys' where t': "t = xs' @ e' # ys'"
    "\<forall>y \<in> set ys'. rt_matches ip y \<longrightarrow> rt_mask y < rt_mask e'"
    using e' by (auto simp: best_match_def)
  have m: "rt_matches ip e" "rt_matches ip e'" using e e' by (auto simp: best_match_def)
  have "rt_mask e \<le> rt_mask e'" by (rule best_match_max [OF e']) (use t m in auto)
  moreover have "rt_mask e' \<le> rt_mask e" by (rule best_match_max [OF e]) (use t' m in auto)
  ultimately have "e' \<notin> set ys" "e \<notin> set ys'" using t t' m by auto
  with t(1) t'(1) show ?thesis
    by (auto simp: append_eq_append_conv2 Cons_eq_append_conv append_eq_Cons_conv)
qed

lemma rt_lookup_iff: "rt_lookup t ip = Inr e \<longleftrightarrow> best_match ip t e"
proof
  assume b: "best_match ip t e"
  then have "e \<in> set t" "rt_matches ip e" by (auto simp: best_match_def)
  then obtain e' where e': "rt_lookup t ip = Inr e'"
    using rt_lookup_Inl [of t ip] by (cases "rt_lookup t ip") auto
  with b show "rt_lookup t ip = Inr e" using best_match_unique rt_lookup_Inr by metis
qed (rule rt_lookup_Inr)

section \<open>Masks made of leading ones\<close>

text \<open>
  The \<open>k\<close>-th bit of an address on the wire, counted from the first, is bit
  \<open>net_index k\<close> of the host integer.
\<close>

definition net_index :: "nat \<Rightarrow> nat" where
  "net_index k = 8 * (k div 8) + (7 - k mod 8)"

definition addr_bits :: "u32 \<Rightarrow> bool list" where
  "addr_bits ip = map (\<lambda>k. bit ip (net_index k)) [0..<32]"

text \<open>The host integer of the netmask with \<open>n\<close> leading ones.\<close>

fun prefix_mask :: "nat \<Rightarrow> u32" where
  "prefix_mask 0 = 0"
| "prefix_mask (Suc n) = prefix_mask n OR push_bit (net_index n) 1"

lemma net_index_less: "k < 32 \<Longrightarrow> net_index k < 32"
proof -
  assume "k < 32"
  then have "k div 8 < 4" by (simp add: less_mult_imp_div_less)
  then show ?thesis by (simp add: net_index_def)
qed

lemma net_index_involution [simp]: "net_index (net_index k) = k"
proof -
  have r: "k mod 8 < 8" by simp
  have dm: "(8 * q + s) div 8 = q" "(8 * q + s) mod 8 = s" if "s < 8" for q s :: nat
    using that by simp_all
  have "net_index k div 8 = k div 8" "net_index k mod 8 = 7 - k mod 8"
    unfolding net_index_def by (rule dm, simp)+
  then have "net_index (net_index k) = 8 * (k div 8) + (7 - (7 - k mod 8))"
    by (simp only: net_index_def [of "net_index k"])
  with r show ?thesis by simp
qed

lemma net_index_eq_iff [simp]: "net_index j = net_index k \<longleftrightarrow> j = k"
  by (metis net_index_involution)

lemma bit_prefix_mask: "n \<le> 32 \<Longrightarrow> bit (prefix_mask n) j \<longleftrightarrow> (\<exists>k < n. j = net_index k)"
proof (induction n)
  case (Suc n)
  then have "net_index n < 32" by (intro net_index_less) simp
  then have "bit (push_bit (net_index n) (1 :: u32)) j \<longleftrightarrow> j = net_index n"
    by (auto simp: bit_push_bit_iff bit_1_iff simp del: push_bit_of_1)
  with Suc show ?case
    by (auto simp: bit_or_iff less_Suc_eq simp del: push_bit_of_1)
qed simp

lemma and_prefix_mask_eq:
  assumes "n \<le> 32"
  shows "a AND prefix_mask n = b AND prefix_mask n \<longleftrightarrow> take n (addr_bits a) = take n (addr_bits b)"
proof -
  have "a AND prefix_mask n = b AND prefix_mask n \<longleftrightarrow>
      (\<forall>j. (\<exists>k < n. j = net_index k) \<longrightarrow> bit a j = bit b j)"
  proof (rule iffI, intro allI impI)
    fix j assume "a AND prefix_mask n = b AND prefix_mask n" and j: "\<exists>k < n. j = net_index k"
    then have "bit (a AND prefix_mask n) j = bit (b AND prefix_mask n) j" by simp
    with j show "bit a j = bit b j" by (simp only: bit_and_iff bit_prefix_mask [OF assms] simp_thms)
  next
    assume "\<forall>j. (\<exists>k < n. j = net_index k) \<longrightarrow> bit a j = bit b j"
    then show "a AND prefix_mask n = b AND prefix_mask n"
      by (intro bit_eqI) (auto simp: bit_and_iff bit_prefix_mask [OF assms])
  qed
  also have "\<dots> \<longleftrightarrow> (\<forall>k < n. bit a (net_index k) = bit b (net_index k))" by auto
  also have "\<dots> \<longleftrightarrow> take n (addr_bits a) = take n (addr_bits b)"
    using assms by (auto simp: addr_bits_def take_map list_eq_iff_nth_eq)
  finally show ?thesis .
qed

lemma prefix_mask_mono:
  assumes "m \<le> n" and "n \<le> 32"
  shows "prefix_mask m \<le> prefix_mask n"
proof -
  have "prefix_mask m AND prefix_mask n = prefix_mask m"
    unfolding bit_eq_iff [of "prefix_mask m AND prefix_mask n"]
    using assms by (auto simp: bit_and_iff bit_prefix_mask)
  then show ?thesis by (metis word_and_le1)
qed

lemma prefix_mask_less_iff:
  assumes "m \<le> 32" and "n \<le> 32"
  shows "prefix_mask m < prefix_mask n \<longleftrightarrow> m < n"
proof (cases "m < n")
  case True
  then have "bit (prefix_mask n) (net_index m)" "\<not> bit (prefix_mask m) (net_index m)"
    using assms by (auto simp: bit_prefix_mask)
  then have "prefix_mask m \<noteq> prefix_mask n" by metis
  with True assms prefix_mask_mono [of m n] show ?thesis by simp
next
  case False
  with assms prefix_mask_mono [of n m] show ?thesis by auto
qed


section \<open>The contract of a routing table\<close>

text \<open>What the forwarding code relies on when it asks for a route.\<close>

locale route_service =
  fixes lookup_route :: "'t \<Rightarrow> u32 \<Rightarrow> string + RoutingTableEntry"
    and routes :: "'t \<Rightarrow> RoutingTableEntry set"
  assumes sound: "lookup_route t ip = Inr e \<Longrightarrow> e \<in> routes t \<and> rt_matches ip e"
    and maximal: "lookup_route t ip = Inr e \<Longrightarrow> x \<in> routes t \<Longrightarrow> rt_matches ip x \<Longrightarrow> rt_mask x \<le> rt_mask e"
    and complete: "lookup_route t ip = Inl m \<Longrightarrow> x \<in> routes t \<Longrightarrow> \<not> rt_matches ip x"
begin

lemma default_route_total:
  "d \<in> routes t \<Longrightarrow> rt_mask d = 0 \<Longrightarrow> \<exists>e. lookup_route t ip = Inr e"
  using complete [of t ip _ d] by (cases "lookup_route t ip") (auto simp: rt_matches_def)

lemma route_property: "\<forall>e \<in> routes t. P e \<Longrightarrow> lookup_route t ip = Inr e \<Longrightarrow> P e"
  using sound by blast

end

interpretation rt: route_service rt_lookup set
proof
  fix t ip e
  assume "rt_lookup t ip = Inr e"
  then have b: "best_match ip t e" by (simp add: rt_lookup_iff)
  then show "e \<in> set t \<and> rt_matches ip e" by (auto simp: best_match_def)
  show "rt_mask x \<le> rt_mask e" if "x \<in> set t" "rt_matches ip x" for x
    using best_match_max [OF b] that by blast
next
  fix t ip m x
  assume "rt_lookup t ip = Inl m" "x \<in> set t"
  then show "\<not> rt_matches ip x" by (auto simp: rt_lookup_Inl)
qed

section \<open>load\<close>

text \<open>
  The file is read with \<^verbatim>\<open>fgets\<close> into a buffer of \<^verbatim>\<open>BUFSIZ\<close> = 8192 characters and each piece is
  scanned with \<^verbatim>\<open>sscanf(line, "%s %s %s %s", dest, gw, mask, iface)\<close> into four arrays of 32
  characters that live outside the loop: a conversion that finds no word leaves its array as
  it was. \<open>None\<close> is an array that no line has filled yet. \<^verbatim>\<open>inet_aton\<close> is a library function
  and a parameter: \<open>Some\<close> of the address in network order, or \<open>None\<close> when it returns 0.
\<close>

definition is_space :: "char \<Rightarrow> bool" where
  "is_space c \<longleftrightarrow> c \<in> {CHR '' '', CHR 0x09, CHR 0x0A, CHR 0x0B, CHR 0x0C, CHR 0x0D}"

text \<open>The pieces \<^verbatim>\<open>fgets\<close> delivers: up to and with a newline, at most 8191 characters.\<close>

fun fgets_line :: "nat \<Rightarrow> string \<Rightarrow> string \<times> string" where
  "fgets_line 0 cs = ([], cs)"
| "fgets_line (Suc n) [] = ([], [])"
| "fgets_line (Suc n) (c # cs) =
     (if c = CHR 0x0A then ([c], cs)
      else (let (l, r) = fgets_line n cs in (c # l, r)))"

lemma fgets_line_length: "fgets_line n cs = (l, r) \<Longrightarrow> length r = length cs - length l \<and> length l \<le> length cs"
  by (induction n cs arbitrary: l r rule: fgets_line.induct) (auto split: if_splits prod.splits)

lemma fgets_line_progress: "0 < n \<Longrightarrow> fgets_line n (c # cs) = (l, r) \<Longrightarrow> length r < Suc (length cs)"
  using fgets_line_length [of "n - 1" cs] by (cases n) (auto split: if_splits prod.splits)

function fgets_lines :: "string \<Rightarrow> string list" where
  "fgets_lines [] = []"
| "fgets_lines (c # cs) = (let (l, r) = fgets_line 8191 (c # cs) in l # fgets_lines r)"
  by pat_completeness auto
termination
proof (relation "measure length")
  fix c cs lr l r
  assume "lr = fgets_line 8191 (c # cs)" "(l, r) = lr"
  then have "length r < Suc (length cs)" by (intro fgets_line_progress [of 8191 c cs l r]) simp_all
  then show "(r, c # cs) \<in> measure length" by simp
qed simp

declare fgets_lines.simps [simp del]

text \<open>The words of a line; \<^verbatim>\<open>sscanf\<close> reads up to the first NUL.\<close>

fun next_word :: "string \<Rightarrow> string \<times> string" where
  "next_word [] = ([], [])"
| "next_word (c # cs) =
     (if is_space c then ([], c # cs) else (let (w, r) = next_word cs in (c # w, r)))"

text \<open>\<open>sscanf_words n line\<close>: what the first \<open>n\<close> conversions \<^verbatim>\<open>%s\<close> assign.\<close>

fun sscanf_words :: "nat \<Rightarrow> string \<Rightarrow> string list" where
  "sscanf_words 0 cs = []"
| "sscanf_words (Suc n) cs =
     (case next_word (dropWhile is_space cs) of
        ([], _) \<Rightarrow> []
      | (w, r) \<Rightarrow> w # sscanf_words n r)"

definition sscanf4 :: "string \<Rightarrow> string list" where
  "sscanf4 line = sscanf_words 4 (takeWhile (\<lambda>c. c \<noteq> CHR 0x00) line)"

text \<open>The arrays \<^verbatim>\<open>dest\<close>, \<^verbatim>\<open>gw\<close>, \<^verbatim>\<open>mask\<close>, \<^verbatim>\<open>iface\<close> after the assignments of one line.\<close>

type_synonym scan_bufs = "string option list"

fun assign_words :: "scan_bufs \<Rightarrow> string list \<Rightarrow> scan_bufs" where
  "assign_words bufs [] = bufs"
| "assign_words [] ws = []"
| "assign_words (b # bufs) (w # ws) = Some w # assign_words bufs ws"

text \<open>An array that has been filled, given to \<^verbatim>\<open>inet_aton\<close>; an error stops the loop.\<close>

definition load_address ::
  "(string \<Rightarrow> u32 option) \<Rightarrow> string option \<Rightarrow> RoutingTable
   \<Rightarrow> (u32 \<Rightarrow> (RoutingTable, bool) outcome) \<Rightarrow> (RoutingTable, bool) outcome" where
  "load_address inet_aton buf m_entries k =
     need Uninitialised buf (\<lambda>s.
       case inet_aton s of None \<Rightarrow> Done False m_entries | Some a \<Rightarrow> k a)"

fun load_lines ::
  "(string \<Rightarrow> u32 option) \<Rightarrow> scan_bufs \<Rightarrow> string list \<Rightarrow> RoutingTable
   \<Rightarrow> (RoutingTable, bool) outcome" where
  "load_lines inet_aton bufs [] m_entries = Done True m_entries"
| "load_lines inet_aton bufs (line # lines) m_entries =
     (let ws = sscanf4 line; bufs = assign_words bufs ws in
      if \<exists>w \<in> set ws. 32 \<le> length w then Undef OutOfBounds
      else
        load_address inet_aton (bufs ! 0) m_entries (\<lambda>dest_addr.
        load_address inet_aton (bufs ! 1) m_entries (\<lambda>gw_addr.
        load_address inet_aton (bufs ! 2) m_entries (\<lambda>mask_addr.
        need Uninitialised (bufs ! 3) (\<lambda>iface.
          load_lines inet_aton bufs lines
            (addEntry m_entries
               \<lparr>rt_dest = dest_addr, rt_gw = gw_addr, rt_mask = mask_addr, rt_ifName = iface\<rparr>))))))"

text \<open>\<open>None\<close>: \<^verbatim>\<open>access(file, R_OK)\<close> fails.\<close>

definition rt_load ::
  "(string \<Rightarrow> u32 option) \<Rightarrow> string option \<Rightarrow> RoutingTable \<Rightarrow> (RoutingTable, bool) outcome" where
  "rt_load inet_aton file m_entries =
     (case file of
        None \<Rightarrow> Done False m_entries
      | Some contents \<Rightarrow>
          load_lines inet_aton [None, None, None, None] (fgets_lines contents) m_entries)"


section \<open>Printing an entry and reading it back\<close>

text \<open>\<^verbatim>\<open>operator<<\<close> on an entry and on the table.\<close>

definition show_entry :: "RoutingTableEntry \<Rightarrow> string" where
  "show_entry entry =
     ipToString (rt_dest entry) @ [CHR 0x09, CHR 0x09] @
     ipToString (rt_gw entry) @ [CHR 0x09] @
     ipToString (rt_mask entry) @ [CHR 0x09] @
     rt_ifName entry"

definition show_table :: "RoutingTable \<Rightarrow> string" where
  "show_table m_entries =
     ''Destination'' @ [CHR 0x09] @ ''Gateway'' @ [CHR 0x09, CHR 0x09] @ ''Mask'' @ [CHR 0x09] @
     ''Iface'' @ [CHR 0x0A] @ concat (map (\<lambda>entry. show_entry entry @ [CHR 0x0A]) m_entries)"

definition is_word :: "string \<Rightarrow> bool" where
  "is_word w \<longleftrightarrow> w \<noteq> [] \<and> (\<forall>c \<in> set w. \<not> is_space c \<and> c \<noteq> CHR 0x00)"

lemma dec_byte_chars: "c \<in> set (dec_byte b) \<Longrightarrow> \<exists>k < 10. c = char_of (48 + k :: nat)"
proof -
  assume c: "c \<in> set (dec_byte b)"
  have "unat b div 100 < 10" using unat_byte_less [of b] by simp
  moreover have "unat b < 100 \<Longrightarrow> unat b div 10 < 10" by simp
  moreover have "unat b div 10 mod 10 < 10" "unat b mod 10 < 10" by simp_all
  ultimately show ?thesis
    using c by (auto simp only: dec_byte_def Let_def list.set insert_iff empty_iff split: if_splits)
qed

lemma digit_not_space:
  assumes "k < 10"
  shows "\<not> is_space (char_of (48 + k :: nat))" and "char_of (48 + k :: nat) \<noteq> CHR 0x00"
    and "char_of (48 + k :: nat) \<noteq> CHR 0x0A"
proof -
  have o: "of_char (char_of (48 + k) :: char) = 48 + k" using assms by simp
  show "\<not> is_space (char_of (48 + k))"
    unfolding is_space_def using o by (auto dest!: arg_cong [where f = "of_char :: char \<Rightarrow> nat"])
  show "char_of (48 + k) \<noteq> CHR 0x00" "char_of (48 + k) \<noteq> CHR 0x0A"
    using o by (auto dest!: arg_cong [where f = "of_char :: char \<Rightarrow> nat"])
qed

lemma dec_byte_no_space: "c \<in> set (dec_byte b) \<Longrightarrow> \<not> is_space c \<and> c \<noteq> CHR 0x00"
proof -
  assume "c \<in> set (dec_byte b)"
  then obtain k where "k < 10" "c = char_of (48 + k :: nat)" using dec_byte_chars by blast
  then show ?thesis using digit_not_space [of k] by simp
qed

lemma NUL_notin_dec_byte [simp]: "CHR 0x00 \<notin> set (dec_byte b)"
  using dec_byte_no_space by blast

lemma length_dec_byte_le: "length (dec_byte b) \<le> 3"
  by (simp add: dec_byte_def Let_def)

lemma is_word_ipToString: "is_word (ipToString ip)"
  by (auto simp: is_word_def ipToString_def Let_def dec_byte_no_space is_space_def [of "CHR ''.''"])

lemma length_ipToString: "length (ipToString ip) \<le> 15"
  using length_dec_byte_le [of "u32_bytes ip ! 0"] length_dec_byte_le [of "u32_bytes ip ! 1"]
    length_dec_byte_le [of "u32_bytes ip ! 2"] length_dec_byte_le [of "u32_bytes ip ! 3"]
  by (simp add: ipToString_def Let_def)

lemma next_word_append:
  "is_word w \<Longrightarrow> is_space c \<Longrightarrow> next_word (w @ c # cs) = (w, c # cs)"
proof -
  have "\<forall>x \<in> set w. \<not> is_space x \<Longrightarrow> is_space c \<Longrightarrow> next_word (w @ c # cs) = (w, c # cs)"
    by (induction w) auto
  then show "is_word w \<Longrightarrow> is_space c \<Longrightarrow> ?thesis" by (simp add: is_word_def)
qed

lemma dropWhile_word: "is_word w \<Longrightarrow> dropWhile is_space (w @ cs) = w @ cs"
  by (cases w) (auto simp: is_word_def)

lemma sscanf_words_word:
  assumes "is_word w" and "is_space c"
  shows "sscanf_words (Suc n) (w @ c # cs) = w # sscanf_words n (c # cs)"
proof -
  have e: "next_word (dropWhile is_space (w @ c # cs)) = (w, c # cs)"
    by (simp only: dropWhile_word [OF assms(1)] next_word_append [OF assms])
  show ?thesis
    unfolding sscanf_words.simps e using assms(1) by (cases w) (auto simp: is_word_def)
qed

lemma sscanf_words_space: "is_space c \<Longrightarrow> sscanf_words n (c # cs) = sscanf_words n cs"
  by (cases n) simp_all

lemma is_space_simps [simp]: "is_space CHR 0x09" "is_space CHR 0x0A"
  by (simp_all add: is_space_def)

lemma is_space_blank [simp]: "is_space (CHR '' '')"
  unfolding is_space_def by (rule insertI1)

lemma sscanf4_entry:
  assumes "is_word (rt_ifName e)"
  shows "sscanf4 (show_entry e @ [CHR 0x0A]) =
    [ipToString (rt_dest e), ipToString (rt_gw e), ipToString (rt_mask e), rt_ifName e]"
proof -
  note w = is_word_ipToString
  have nul: "CHR 0x00 \<notin> set (show_entry e @ [CHR 0x0A])"
    using assms w unfolding show_entry_def is_word_def by auto
  then have "takeWhile (\<lambda>c. c \<noteq> CHR 0x00) (show_entry e @ [CHR 0x0A]) = show_entry e @ [CHR 0x0A]"
    by (auto simp: takeWhile_eq_all_conv)
  then show ?thesis
    using assms
    by (simp only: sscanf4_def show_entry_def append_assoc append_Cons append_Nil numeral_eq_Suc
        pred_numeral_simps BitM.simps arith_simps sscanf_words_word w sscanf_words_space is_space_simps sscanf_words.simps(1))
qed

lemma fgets_line_newline:
  "CHR 0x0A \<notin> set l \<Longrightarrow> length l < n \<Longrightarrow>
   fgets_line n (l @ CHR 0x0A # rest) = (l @ [CHR 0x0A], rest)"
proof (induction l arbitrary: n)
  case Nil
  then show ?case by (cases n) simp_all
next
  case (Cons c l)
  then show ?case by (cases n) auto
qed

lemma fgets_lines_newline:
  assumes "CHR 0x0A \<notin> set l" and "length l < 8191"
  shows "fgets_lines ((l @ [CHR 0x0A]) @ rest) = (l @ [CHR 0x0A]) # fgets_lines rest"
proof -
  obtain c cs where c: "l @ CHR 0x0A # rest = c # cs" by (cases "l @ CHR 0x0A # rest") auto
  have "fgets_lines (c # cs) = (let (x, r) = fgets_line 8191 (c # cs) in x # fgets_lines r)"
    by (rule fgets_lines.simps)
  then have "fgets_lines (l @ CHR 0x0A # rest) =
      (let (x, r) = fgets_line 8191 (l @ CHR 0x0A # rest) in x # fgets_lines r)"
    by (simp only: c)
  then show ?thesis by (simp add: fgets_line_newline [OF assms])
qed

text \<open>An entry whose text \<open>load\<close> can read: its name is a word that fits its array.\<close>

definition loadable :: "(string \<Rightarrow> u32 option) \<Rightarrow> RoutingTableEntry \<Rightarrow> bool" where
  "loadable inet_aton e \<longleftrightarrow>
     is_word (rt_ifName e) \<and> length (rt_ifName e) < 32 \<and>
     inet_aton (ipToString (rt_dest e)) = Some (rt_dest e) \<and>
     inet_aton (ipToString (rt_gw e)) = Some (rt_gw e) \<and>
     inet_aton (ipToString (rt_mask e)) = Some (rt_mask e)"

lemma newline_notin_word: "is_word w \<Longrightarrow> CHR 0x0A \<notin> set w"
  using is_space_simps(2) unfolding is_word_def by blast

lemma fgets_lines_entry:
  assumes "loadable aton e"
  shows "fgets_lines ((show_entry e @ [CHR 0x0A]) @ rest) =
    (show_entry e @ [CHR 0x0A]) # fgets_lines rest"
proof (rule fgets_lines_newline)
  show "CHR 0x0A \<notin> set (show_entry e)"
    using assms newline_notin_word is_word_ipToString by (auto simp: show_entry_def loadable_def)
  show "length (show_entry e) < 8191"
    using assms length_ipToString [of "rt_dest e"] length_ipToString [of "rt_gw e"]
      length_ipToString [of "rt_mask e"]
    by (simp add: show_entry_def loadable_def)
qed

lemma fgets_lines_entries:
  "\<forall>e \<in> set es. loadable aton e \<Longrightarrow>
   fgets_lines (concat (map (\<lambda>e. show_entry e @ [CHR 0x0A]) es)) =
     map (\<lambda>e. show_entry e @ [CHR 0x0A]) es"
proof (induction es)
  case Nil
  then show ?case by (simp add: fgets_lines.simps)
next
  case (Cons e es)
  then have e: "loadable aton e"
    and es: "fgets_lines (concat (map (\<lambda>e. show_entry e @ [CHR 0x0A]) es)) =
      map (\<lambda>e. show_entry e @ [CHR 0x0A]) es"
    by simp_all
  show ?case by (simp only: list.map concat.simps fgets_lines_entry [OF e] es)
qed

lemma assign_words_full:
  "length bufs = 4 \<Longrightarrow> assign_words bufs [a, b, c, d] = [Some a, Some b, Some c, Some d]"
  by (auto simp: list_of_4)

lemma load_lines_entry:
  assumes "loadable aton e" and "length bufs = 4"
  shows "load_lines aton bufs ((show_entry e @ [CHR 0x0A]) # ls) t =
    load_lines aton [Some (ipToString (rt_dest e)), Some (ipToString (rt_gw e)),
      Some (ipToString (rt_mask e)), Some (rt_ifName e)] ls (t @ [e])"
proof -
  have len: "\<not> 32 \<le> length (ipToString ip)" for ip using length_ipToString [of ip] by simp
  have e: "\<lparr>rt_dest = rt_dest e, rt_gw = rt_gw e, rt_mask = rt_mask e, rt_ifName = rt_ifName e\<rparr> = e"
    by simp
  show ?thesis
    using assms by (simp add: loadable_def sscanf4_entry assign_words_full load_address_def
        addEntry_def Let_def len e)
qed

lemma load_lines_entries:
  "\<forall>e \<in> set es. loadable aton e \<Longrightarrow> length bufs = 4 \<Longrightarrow>
   load_lines aton bufs (map (\<lambda>e. show_entry e @ [CHR 0x0A]) es) t = Done True (t @ es)"
proof (induction es arbitrary: bufs t)
  case (Cons e es)
  then have "loadable aton e" by simp
  then show ?case
    using Cons by (simp del: load_lines.simps add: load_lines_entry)
qed simp

text \<open>A line without words assigns nothing: the entry of the line before is added again.\<close>

lemma load_lines_blank:
  assumes "sscanf4 line = []"
    and "length d < 32" "length g < 32" "length m < 32" "length i < 32"
    and "aton d = Some d'" "aton g = Some g'" "aton m = Some m'"
  shows "load_lines aton [Some d, Some g, Some m, Some i] (line # ls) t =
    load_lines aton [Some d, Some g, Some m, Some i] ls
      (t @ [\<lparr>rt_dest = d', rt_gw = g', rt_mask = m', rt_ifName = i\<rparr>])"
  using assms by (simp add: load_address_def addEntry_def)

lemma sscanf4_blank: "sscanf4 [CHR 0x0A] = []"
  by (simp add: sscanf4_def numeral_eq_Suc)

section \<open>Properties\<close>

text \<open>C35: With netmasks made of leading ones, a lookup returns a route whose prefix the address has, and
  no route of the table whose prefix the address has is longer: comparing the masks as host
  integers, although they hold bytes in network order, does not disturb longest-prefix match.\<close>

theorem longest_prefix_match:
  assumes "\<forall>x \<in> set t. plen x \<le> 32 \<and> rt_mask x = prefix_mask (plen x)" and "rt_lookup t ip = Inr e"
  shows "e \<in> set t \<and> take (plen e) (addr_bits ip) = take (plen e) (addr_bits (rt_dest e)) \<and>
    (\<forall>x \<in> set t. take (plen x) (addr_bits ip) = take (plen x) (addr_bits (rt_dest x)) \<longrightarrow> plen x \<le> plen e)"
proof -
  have m: "rt_matches ip x \<longleftrightarrow> take (plen x) (addr_bits ip) = take (plen x) (addr_bits (rt_dest x))"
    if "x \<in> set t" for x
    using assms(1) that by (simp add: rt_matches_def and_prefix_mask_eq)
  have e: "e \<in> set t" "rt_matches ip e" using rt.sound [OF assms(2)] by simp_all
  moreover have "plen x \<le> plen e" if "x \<in> set t" "rt_matches ip x" for x
    using rt.maximal [OF assms(2) that] assms(1) that e
      prefix_mask_less_iff [of "plen e" "plen x"] by (auto simp: not_less)
  ultimately show ?thesis using m by blast
qed

theorem longest_prefix_match_witness:
  "\<exists>e. rt_lookup [\<lparr>rt_dest = 0, rt_gw = 0, rt_mask = prefix_mask 0, rt_ifName = ''a''\<rparr>] 7 = Inr e \<and>
     take 0 (addr_bits 7) = take 0 (addr_bits (rt_dest e))"
proof -
  let ?e = "\<lparr>rt_dest = 0, rt_gw = 0, rt_mask = prefix_mask 0, rt_ifName = ''a''\<rparr>"
  have l: "rt_lookup [?e] 7 = Inr ?e" by (simp add: rt_lookup_def rt_matches_def)
  have "\<forall>x \<in> set [?e]. (\<lambda>_. 0) x \<le> (32 :: nat) \<and> rt_mask x = prefix_mask ((\<lambda>_. 0) x)" by simp
  from longest_prefix_match [OF this l] l show ?thesis by blast
qed

text \<open>A lookup returns an entry exactly when that entry is the last, in table order, of those with the
  greatest mask among the matching ones, and throws exactly when no entry matches.\<close>

theorem lookup_selects:
  "(rt_lookup t ip = Inr e \<longleftrightarrow> best_match ip t e) \<and>
   ((\<exists>m. rt_lookup t ip = Inl m) \<longleftrightarrow> \<not> (\<exists>x \<in> set t. rt_matches ip x))"
  by (simp add: rt_lookup_iff rt_lookup_Inl)

text \<open>Loading a file of lines as the table prints its entries appends exactly those entries, in
  order, to the table, provided \<^verbatim>\<open>inet_aton\<close> reads the dotted addresses back and interface names
  are words that fit their array.\<close>

theorem load_printed_entries:
  assumes "\<forall>e \<in> set es. loadable aton e"
  shows "rt_load aton (Some (concat (map (\<lambda>e. show_entry e @ [CHR 0x0A]) es))) t = Done True (t @ es)"
  using assms by (simp add: rt_load_def fgets_lines_entries load_lines_entries)

theorem load_printed_entries_witness:
  "rt_load (\<lambda>s. if s = ''0.0.0.0'' then Some 0 else None)
     (Some (concat (map (\<lambda>e. show_entry e @ [CHR 0x0A])
       [\<lparr>rt_dest = 0, rt_gw = 0, rt_mask = 0, rt_ifName = ''e''\<rparr>]))) [] =
   Done True ([] @ [\<lparr>rt_dest = 0, rt_gw = 0, rt_mask = 0, rt_ifName = ''e''\<rparr>])"
  by (rule load_printed_entries) (simp add: loadable_def is_word_def is_space_def ipToString_0 [THEN iffD2])

text \<open>An empty line after an entry makes the loader add that entry a second time: \<^verbatim>\<open>sscanf\<close> assigns
  nothing and its result is not looked at.\<close>

theorem blank_line_duplicates:
  assumes "loadable aton e"
  shows "rt_load aton (Some (show_entry e @ [CHR 0x0A] @ [CHR 0x0A])) t = Done True (t @ [e, e])"
proof -
  have f: "fgets_lines ((show_entry e @ [CHR 0x0A]) @ [CHR 0x0A]) = [show_entry e @ [CHR 0x0A], [CHR 0x0A]]"
    using fgets_lines_entry [OF assms, of "[CHR 0x0A]"] fgets_lines_newline [of "[]" "[]"]
    by (simp add: fgets_lines.simps(1))
  have len: "length (ipToString ip) < 32" for ip using length_ipToString [of ip] by simp
  have "load_lines aton [None, None, None, None] [show_entry e @ [CHR 0x0A], [CHR 0x0A]] t = Done True (t @ [e, e])"
    using assms len
    by (simp add: load_lines_entry [OF assms] load_lines_blank [OF sscanf4_blank] loadable_def del: load_lines.simps(2))
  with f show ?thesis by (simp add: rt_load_def)
qed

theorem blank_line_duplicates_witness:
  "rt_load (\<lambda>s. if s = ''0.0.0.0'' then Some 0 else None)
     (Some (show_entry \<lparr>rt_dest = 0, rt_gw = 0, rt_mask = 0, rt_ifName = ''e''\<rparr> @ [CHR 0x0A] @ [CHR 0x0A])) [] =
   Done True ([] @ [\<lparr>rt_dest = 0, rt_gw = 0, rt_mask = 0, rt_ifName = ''e''\<rparr>,
     \<lparr>rt_dest = 0, rt_gw = 0, rt_mask = 0, rt_ifName = ''e''\<rparr>])"
  by (rule blank_line_duplicates) (simp add: loadable_def is_word_def is_space_def ipToString_0 [THEN iffD2])

end
