(* ===== verification/Interfaces.thy ===== *)
theory Interfaces
  imports
    Printers
    "HOL-Library.List_Lexorder"
    "HOL-Library.Char_ord"
begin

text \<open>
  \<^verbatim>\<open>core/interface.hpp\<close> and the uses the router makes of \<^verbatim>\<open>std::set<Interface>\<close>. The set is
  ordered by \<^verbatim>\<open>Interface::operator<\<close>, which compares names: the model is the list of its
  elements in iteration order, and the type class \<open>preorder\<close> of the library is instantiated
  with that operator. \<open>findIfaceByIp\<close>, \<open>findIfaceByMac\<close> and \<open>findIfaceByName\<close> are the
  \<^verbatim>\<open>std::find_if\<close> calls of \<^verbatim>\<open>simple-router.cpp\<close>; a null pointer is \<open>None\<close>.
\<close>

record Interface =
  if_name :: string
  if_addr :: buffer
  if_ip :: u32

section \<open>The order on interfaces\<close>

text \<open>\<^verbatim>\<open>std::string\<close> compares unsigned bytes lexicographically, as the order on \<open>string\<close> does.\<close>

definition iface_less :: "'a Interface_scheme \<Rightarrow> 'a Interface_scheme \<Rightarrow> bool" where
  "iface_less i rh \<longleftrightarrow> if_name i < if_name rh"

instantiation Interface_ext :: (type) preorder
begin

definition less_Interface_ext :: "'a Interface_ext \<Rightarrow> 'a Interface_ext \<Rightarrow> bool" where
  "less_Interface_ext = iface_less"

definition less_eq_Interface_ext :: "'a Interface_ext \<Rightarrow> 'a Interface_ext \<Rightarrow> bool" where
  "less_eq_Interface_ext i rh \<longleftrightarrow> if_name i \<le> if_name rh"

instance
  by standard (auto simp: less_Interface_ext_def iface_less_def less_eq_Interface_ext_def)

end

text \<open>\<^verbatim>\<open>m_ifaces.insert(x)\<close>: an element equivalent to one of the set is not inserted.\<close>

fun iface_insert :: "Interface \<Rightarrow> Interface list \<Rightarrow> Interface list" where
  "iface_insert x [] = [x]"
| "iface_insert x (y # ys) =
     (if x < y then x # y # ys
      else if y < x then y # iface_insert x ys
      else y # ys)"

definition findIfaceByIp :: "Interface list \<Rightarrow> u32 \<Rightarrow> Interface option" where
  "findIfaceByIp m_ifaces ip = find (\<lambda>iface. if_ip iface = ip) m_ifaces"

definition findIfaceByMac :: "Interface list \<Rightarrow> buffer \<Rightarrow> Interface option" where
  "findIfaceByMac m_ifaces mac = find (\<lambda>iface. if_addr iface = mac) m_ifaces"

definition findIfaceByName :: "Interface list \<Rightarrow> string \<Rightarrow> Interface option" where
  "findIfaceByName m_ifaces name = find (\<lambda>iface. if_name iface = name) m_ifaces"

text \<open>\<^verbatim>\<open>operator<<\<close> and \<open>printIfaces\<close>: \<open>None\<close> when \<open>macToString\<close> throws.\<close>

definition show_iface :: "Interface \<Rightarrow> string option" where
  "show_iface iface = do {
     m \<leftarrow> macToString (if_addr iface);
     Some (if_name iface @ '' ('' @ ipToString (if_ip iface) @ '', '' @ m @ '')'')
   }"

fun show_ifaces :: "Interface list \<Rightarrow> string option" where
  "show_ifaces [] = Some []"
| "show_ifaces (iface # rest) = do {
     s \<leftarrow> show_iface iface;
     r \<leftarrow> show_ifaces rest;
     Some (s @ [CHR 0x0A] @ r)
   }"

definition printIfaces :: "Interface list \<Rightarrow> string option" where
  "printIfaces m_ifaces =
     (if m_ifaces = [] then Some '' Interface list empty '' else show_ifaces m_ifaces)"

section \<open>The set invariant\<close>

definition iface_set_inv :: "Interface list \<Rightarrow> bool" where
  "iface_set_inv s \<longleftrightarrow> sorted_wrt (<) s"

lemma set_iface_insert: "set (iface_insert x s) \<subseteq> insert x (set s)"
  by (induction s) auto

lemma iface_insert_inv: "iface_set_inv s \<Longrightarrow> iface_set_inv (iface_insert x s)"
proof (induction s)
  case (Cons y ys)
  then show ?case
    using set_iface_insert [of x ys]
    by (auto simp: iface_set_inv_def intro: less_trans)
qed (simp add: iface_set_inv_def)

lemma find_iface_insert:
  "iface_set_inv s \<Longrightarrow> findIfaceByName (iface_insert x s) n =
     (case findIfaceByName s n of
        Some y \<Rightarrow> Some y
      | None \<Rightarrow> if if_name x = n then Some x else None)"
proof (induction s)
  case (Cons y ys)
  have "False" if "find (\<lambda>i. if_name i = if_name x) ys = Some z" "if_name x < if_name y" for z
  proof -
    from that have "z \<in> set ys" "if_name z = if_name x" by (auto dest: find_in_set)
    with Cons.prems that(2) show False
      by (auto simp: iface_set_inv_def less_Interface_ext_def iface_less_def)
  qed
  with Cons show ?case
    by (auto simp: findIfaceByName_def iface_set_inv_def less_Interface_ext_def iface_less_def
        split: option.splits)
qed (simp add: findIfaceByName_def)

lemma find_iface_set:
  assumes "iface_set_inv s"
  shows "findIfaceByName s n = Some i \<longleftrightarrow> i \<in> set s \<and> if_name i = n"
  using assms
proof (induction s)
  case (Cons y ys)
  then show ?case
    by (auto simp: findIfaceByName_def iface_set_inv_def less_Interface_ext_def iface_less_def)
qed (simp add: findIfaceByName_def)

lemma findIfaceByIp_in: "findIfaceByIp s ip = Some i \<Longrightarrow> i \<in> set s \<and> if_ip i = ip"
  unfolding findIfaceByIp_def by (rule find_in_set)

lemma findIfaceByMac_in: "findIfaceByMac s mac = Some i \<Longrightarrow> i \<in> set s \<and> if_addr i = mac"
  unfolding findIfaceByMac_def by (rule find_in_set)

lemma findIfaceByName_in: "findIfaceByName s n = Some i \<Longrightarrow> i \<in> set s \<and> if_name i = n"
  unfolding findIfaceByName_def by (rule find_in_set)

lemma show_ifaces_Some: "(\<exists>out. show_ifaces s = Some out) \<longleftrightarrow> (\<forall>i \<in> set s. 6 \<le> length (if_addr i))"
proof (induction s)
  case (Cons i s)
  then show ?case
    by (cases "show_ifaces s") (auto simp: show_iface_def macToString_def)
qed simp

lemma printIfaces_None: "printIfaces s = None \<longleftrightarrow> (\<exists>i \<in> set s. length (if_addr i) < 6)"
proof -
  have "show_ifaces s = None \<longleftrightarrow> \<not> (\<exists>out. show_ifaces s = Some out)" by auto
  then show ?thesis
    unfolding show_ifaces_Some printIfaces_def by (auto simp: not_le)
qed

section \<open>The contract of a set of named elements\<close>

locale named_set =
  fixes insert_elem :: "'e \<Rightarrow> 's \<Rightarrow> 's"
    and find_elem :: "'s \<Rightarrow> 'n \<Rightarrow> 'e option"
    and name :: "'e \<Rightarrow> 'n"
    and inv_set :: "'s \<Rightarrow> bool"
  assumes inv_insert: "inv_set s \<Longrightarrow> inv_set (insert_elem e s)"
    and find_insert: "inv_set s \<Longrightarrow> find_elem (insert_elem e s) n =
      (case find_elem s n of Some y \<Rightarrow> Some y | None \<Rightarrow> if name e = n then Some e else None)"
begin

lemma inv_fold: "inv_set s \<Longrightarrow> inv_set (fold insert_elem es s)"
  by (induction es arbitrary: s) (auto intro: inv_insert)

text \<open>Of several elements of one name the first wins.\<close>

lemma find_fold:
  "inv_set s \<Longrightarrow> find_elem (fold insert_elem es s) n =
     (case find_elem s n of Some y \<Rightarrow> Some y | None \<Rightarrow> find (\<lambda>e. name e = n) es)"
proof (induction es arbitrary: s)
  case Nil
  then show ?case by (simp split: option.splits)
next
  case (Cons e es)
  from Cons.IH [OF inv_insert [OF Cons.prems, of e]] show ?case
    by (simp add: find_insert [OF Cons.prems] split: option.splits)
qed

end

interpretation ifs: named_set iface_insert findIfaceByName if_name iface_set_inv
  by unfold_locales (rule iface_insert_inv find_iface_insert, assumption)+

end
