(* ===== verification/ArpCache.thy ===== *)
theory ArpCache
  imports Printers
begin

unbundle bit_operations_syntax

text \<open>
  The state of \<^verbatim>\<open>ArpCache\<close> (\<^verbatim>\<open>arp-cache.hpp\<close>) and the member functions of \<^verbatim>\<open>arp-cache.cpp\<close>
  that touch nothing else. Entries and requests are shared objects in the code, and
  \<^verbatim>\<open>std::list::remove\<close> on a list of \<^verbatim>\<open>shared_ptr\<close> removes by address: each object carries its
  address (\<open>ae_ptr\<close>, \<open>ar_ptr\<close>), handed out by \<open>next_ptr\<close>, and a write through a pointer is
  \<open>update_request\<close> or \<open>update_entry\<close>. The lock makes each of these functions one step.
\<close>

section \<open>State\<close>

record PendingPacket =
  pp_packet :: buffer
  pp_iface :: string

record ArpRequest =
  ar_ptr :: nat
  ar_ip :: u32
  timeSent :: time_point
  nTimesSent :: u32
  packets :: "PendingPacket list"

record ArpEntry =
  ae_ptr :: nat
  ae_mac :: buffer
  ae_ip :: u32
  timeAdded :: time_point
  isValid :: bool

record ArpCache =
  m_cacheEntries :: "ArpEntry list"
  m_arpRequests :: "ArpRequest list"
  next_ptr :: nat

definition SR_ARPCACHE_TO :: time_point where
  "SR_ARPCACHE_TO = seconds 30"

definition MAX_SENT_TIME :: u32 where
  "MAX_SENT_TIME = 5"

section \<open>Operations\<close>

definition arp_lookup :: "ArpCache \<Rightarrow> u32 \<Rightarrow> ArpEntry option" where
  "arp_lookup c ip = find (\<lambda>entry. isValid entry \<and> ae_ip entry = ip) (m_cacheEntries c)"

definition find_request :: "ArpCache \<Rightarrow> u32 \<Rightarrow> ArpRequest option" where
  "find_request c ip = find (\<lambda>request. ar_ip request = ip) (m_arpRequests c)"

definition deref_request :: "ArpCache \<Rightarrow> nat \<Rightarrow> ArpRequest option" where
  "deref_request c p = find (\<lambda>request. ar_ptr request = p) (m_arpRequests c)"

definition update_request :: "nat \<Rightarrow> (ArpRequest \<Rightarrow> ArpRequest) \<Rightarrow> ArpCache \<Rightarrow> ArpCache" where
  "update_request p f c =
     c\<lparr>m_arpRequests := map (\<lambda>r. if ar_ptr r = p then f r else r) (m_arpRequests c)\<rparr>"

text \<open>\<^verbatim>\<open>ArpRequest(ip)\<close>: the default time point and no transmission yet.\<close>

definition new_request :: "nat \<Rightarrow> u32 \<Rightarrow> ArpRequest" where
  "new_request p ip = \<lparr>ar_ptr = p, ar_ip = ip, timeSent = 0, nTimesSent = 0, packets = []\<rparr>"

definition queueRequest :: "u32 \<Rightarrow> buffer \<Rightarrow> string \<Rightarrow> ArpCache \<Rightarrow> nat \<times> ArpCache" where
  "queueRequest ip packet iface c =
     (let (p, c) =
        (case find_request c ip of
           Some request \<Rightarrow> (ar_ptr request, c)
         | None \<Rightarrow>
             (next_ptr c,
              c\<lparr>m_arpRequests := m_arpRequests c @ [new_request (next_ptr c) ip],
                next_ptr := Suc (next_ptr c)\<rparr>))
      in (p, update_request p
            (\<lambda>r. r\<lparr>packets := packets r @ [\<lparr>pp_packet = packet, pp_iface = iface\<rparr>]\<rparr>) c))"

text \<open>\<^verbatim>\<open>m_arpRequests.remove(entry)\<close>\<close>

definition removeRequest :: "nat \<Rightarrow> ArpCache \<Rightarrow> ArpCache" where
  "removeRequest p c = c\<lparr>m_arpRequests := filter (\<lambda>r. ar_ptr r \<noteq> p) (m_arpRequests c)\<rparr>"

definition insertArpEntry :: "time_point \<Rightarrow> buffer \<Rightarrow> u32 \<Rightarrow> ArpCache \<Rightarrow> nat option \<times> ArpCache" where
  "insertArpEntry now mac ip c =
     (let entry = \<lparr>ae_ptr = next_ptr c, ae_mac = mac, ae_ip = ip, timeAdded = now, isValid = True\<rparr>;
          c = c\<lparr>m_cacheEntries := m_cacheEntries c @ [entry], next_ptr := Suc (next_ptr c)\<rparr>
      in (map_option ar_ptr (find_request c ip), c))"

definition arp_clear :: "ArpCache \<Rightarrow> ArpCache" where
  "arp_clear c = c\<lparr>m_cacheEntries := [], m_arpRequests := []\<rparr>"

text \<open>The loop of \<^verbatim>\<open>ticker\<close> that marks the entries that are too old.\<close>

definition expire_entries :: "time_point \<Rightarrow> ArpCache \<Rightarrow> ArpCache" where
  "expire_entries now c =
     c\<lparr>m_cacheEntries :=
         map (\<lambda>entry. if isValid entry \<and> now - timeAdded entry > SR_ARPCACHE_TO
                      then entry\<lparr>isValid := False\<rparr> else entry) (m_cacheEntries c)\<rparr>"

text \<open>The second half of \<^verbatim>\<open>periodicCheckArpRequestsAndCacheEntries\<close>: the entries are recorded
  first, then each recorded pointer is removed from the list.\<close>

definition recordForRemoval :: "ArpCache \<Rightarrow> nat list" where
  "recordForRemoval c = map ae_ptr (filter (\<lambda>entry. \<not> isValid entry) (m_cacheEntries c))"

fun remove_entries :: "nat list \<Rightarrow> ArpEntry list \<Rightarrow> ArpEntry list" where
  "remove_entries [] es = es"
| "remove_entries (p # ps) es = remove_entries ps (filter (\<lambda>e. ae_ptr e \<noteq> p) es)"

definition remove_invalid :: "ArpCache \<Rightarrow> ArpCache" where
  "remove_invalid c =
     c\<lparr>m_cacheEntries := remove_entries (recordForRemoval c) (m_cacheEntries c)\<rparr>"

lemmas arp_op_defs =
  queueRequest_def removeRequest_def insertArpEntry_def arp_clear_def expire_entries_def
  remove_invalid_def update_request_def new_request_def

section \<open>Invariant\<close>

text \<open>
  Addresses of objects are pairwise different and below \<open>next_ptr\<close>; no two requests ask for
  the same IP address; a request has been sent at most five times and has packets waiting,
  each long enough to hold an Ethernet and an IP header; an entry maps to a six-byte address; and no
  two valid entries are for the same IP address.
\<close>

definition request_ok :: "ArpRequest \<Rightarrow> bool" where
  "request_ok r \<longleftrightarrow> nTimesSent r \<le> MAX_SENT_TIME \<and> packets r \<noteq> [] \<and>
     (\<forall>p \<in> set (packets r). 34 \<le> length (pp_packet p))"

definition arp_inv :: "ArpCache \<Rightarrow> bool" where
  "arp_inv c \<longleftrightarrow>
     distinct (map ar_ptr (m_arpRequests c)) \<and>
     distinct (map ar_ip (m_arpRequests c)) \<and>
     distinct (map ae_ptr (m_cacheEntries c)) \<and>
     distinct (map ae_ip (filter isValid (m_cacheEntries c))) \<and>
     (\<forall>r \<in> set (m_arpRequests c). ar_ptr r < next_ptr c \<and> request_ok r) \<and>
     (\<forall>e \<in> set (m_cacheEntries c). ae_ptr e < next_ptr c \<and> length (ae_mac e) = 6)"

definition arp_init :: ArpCache where
  "arp_init = \<lparr>m_cacheEntries = [], m_arpRequests = [], next_ptr = 0\<rparr>"

lemma arp_inv_init: "arp_inv arp_init"
  by (simp add: arp_inv_def arp_init_def)

lemma arp_inv_clear: "arp_inv c \<Longrightarrow> arp_inv (arp_clear c)"
  by (simp add: arp_inv_def arp_clear_def)

lemma map_ar_ptr_update:
  "(\<And>r. ar_ptr (f r) = ar_ptr r) \<Longrightarrow>
   map ar_ptr (m_arpRequests (update_request p f c)) = map ar_ptr (m_arpRequests c)"
  by (simp add: update_request_def comp_def if_distrib cong: if_cong)

lemma map_ar_ip_update:
  "(\<And>r. ar_ip (f r) = ar_ip r) \<Longrightarrow>
   map ar_ip (m_arpRequests (update_request p f c)) = map ar_ip (m_arpRequests c)"
  by (simp add: update_request_def comp_def if_distrib cong: if_cong)

lemma update_request_frame [simp]:
  "m_cacheEntries (update_request p f c) = m_cacheEntries c"
  "next_ptr (update_request p f c) = next_ptr c"
  by (simp_all add: update_request_def)

lemma arp_inv_update:
  assumes "arp_inv c" and "\<And>r. ar_ptr (f r) = ar_ptr r" and "\<And>r. ar_ip (f r) = ar_ip r"
    and "\<And>r. r \<in> set (m_arpRequests c) \<Longrightarrow> ar_ptr r = p \<Longrightarrow> request_ok (f r)"
  shows "arp_inv (update_request p f c)"
  using assms unfolding arp_inv_def map_ar_ptr_update [OF assms(2)] map_ar_ip_update [OF assms(3)]
  by (auto simp: update_request_def)

lemma find_request_None: "find_request c ip = None \<longleftrightarrow> ip \<notin> ar_ip ` set (m_arpRequests c)"
  by (auto simp: find_request_def find_None_iff)

lemma find_request_in: "find_request c ip = Some r \<Longrightarrow> r \<in> set (m_arpRequests c) \<and> ar_ip r = ip"
  unfolding find_request_def by (rule find_in_set)

lemma arp_lookup_in:
  "arp_lookup c ip = Some e \<Longrightarrow> e \<in> set (m_cacheEntries c) \<and> isValid e \<and> ae_ip e = ip"
  unfolding arp_lookup_def by (drule find_in_set) simp

lemma arp_lookup_None:
  "arp_lookup c ip = None \<longleftrightarrow> (\<forall>e \<in> set (m_cacheEntries c). isValid e \<longrightarrow> ae_ip e \<noteq> ip)"
  by (auto simp: arp_lookup_def find_None_iff)

lemma arp_inv_mac: "arp_inv c \<Longrightarrow> arp_lookup c ip = Some e \<Longrightarrow> length (ae_mac e) = 6"
  by (auto simp: arp_inv_def dest: arp_lookup_in)


section \<open>Every operation keeps the invariant\<close>

lemma distinct_map_filter: "distinct (map f xs) \<Longrightarrow> distinct (map f (filter P xs))"
  by (induction xs) auto

lemma arp_inv_remove: "arp_inv c \<Longrightarrow> arp_inv (removeRequest p c)"
  by (auto simp: arp_inv_def removeRequest_def distinct_map_filter)

lemma queueRequest_old:
  "find_request c ip = Some r \<Longrightarrow> queueRequest ip pkt ifc c =
     (ar_ptr r, update_request (ar_ptr r)
       (\<lambda>r. r\<lparr>packets := packets r @ [\<lparr>pp_packet = pkt, pp_iface = ifc\<rparr>]\<rparr>) c)"
  by (simp add: queueRequest_def)

lemma queueRequest_new:
  assumes "arp_inv c" and "find_request c ip = None"
  shows "queueRequest ip pkt ifc c =
    (next_ptr c, c\<lparr>m_arpRequests := m_arpRequests c @
        [(new_request (next_ptr c) ip)\<lparr>packets := [\<lparr>pp_packet = pkt, pp_iface = ifc\<rparr>]\<rparr>],
      next_ptr := Suc (next_ptr c)\<rparr>)"
proof -
  have "map (\<lambda>r. if ar_ptr r = next_ptr c then f r else r) (m_arpRequests c) = m_arpRequests c" for f
    using assms(1) by (intro map_idI) (auto simp: arp_inv_def)
  then show ?thesis
    using assms(2) by (simp add: queueRequest_def update_request_def new_request_def)
qed

lemma arp_inv_queue:
  assumes "arp_inv c" and "34 \<le> length pkt"
  shows "arp_inv (snd (queueRequest ip pkt ifc c))"
proof (cases "find_request c ip")
  case None
  with assms show ?thesis
    by (auto simp: queueRequest_new arp_inv_def new_request_def find_request_None
        request_ok_def MAX_SENT_TIME_def)
next
  case (Some r)
  have "arp_inv (update_request (ar_ptr r)
      (\<lambda>r. r\<lparr>packets := packets r @ [\<lparr>pp_packet = pkt, pp_iface = ifc\<rparr>]\<rparr>) c)"
    using assms by (intro arp_inv_update) (auto simp: arp_inv_def request_ok_def)
  with Some show ?thesis by (simp add: queueRequest_old)
qed

lemma arp_inv_insert:
  assumes "arp_inv c" and "arp_lookup c ip = None" and "length mac = 6"
  shows "arp_inv (snd (insertArpEntry now mac ip c))"
  using assms by (auto simp: arp_inv_def insertArpEntry_def arp_lookup_None Let_def less_SucI)

lemma map_ae_ptr_expire: "map ae_ptr (m_cacheEntries (expire_entries now c)) = map ae_ptr (m_cacheEntries c)"
  by (simp add: expire_entries_def comp_def if_distrib cong: if_cong)

lemma filter_valid_expire:
  "filter isValid (m_cacheEntries (expire_entries now c)) =
   filter (\<lambda>e. isValid e \<and> now - timeAdded e \<le> SR_ARPCACHE_TO) (m_cacheEntries c)"
proof -
  have "filter isValid (map (\<lambda>entry. if isValid entry \<and> now - timeAdded entry > SR_ARPCACHE_TO
        then entry\<lparr>isValid := False\<rparr> else entry) es) =
      filter (\<lambda>e. isValid e \<and> now - timeAdded e \<le> SR_ARPCACHE_TO) es" for es
    by (induction es) auto
  then show ?thesis by (simp add: expire_entries_def)
qed

lemma arp_inv_expire:
  assumes "arp_inv c"
  shows "arp_inv (expire_entries now c)"
proof -
  have "distinct (map ae_ip (filter isValid (m_cacheEntries (expire_entries now c))))"
    using assms distinct_map_filter [of ae_ip "filter isValid (m_cacheEntries c)"
        "\<lambda>e. now - timeAdded e \<le> SR_ARPCACHE_TO"]
    by (simp add: filter_valid_expire arp_inv_def conj_commute)
  moreover have "m_arpRequests (expire_entries now c) = m_arpRequests c"
    "next_ptr (expire_entries now c) = next_ptr c"
    by (simp_all add: expire_entries_def)
  moreover have "\<forall>e \<in> set (m_cacheEntries (expire_entries now c)).
      ae_ptr e < next_ptr c \<and> length (ae_mac e) = 6"
    using assms by (auto simp: arp_inv_def expire_entries_def)
  ultimately show ?thesis
    using assms unfolding arp_inv_def map_ae_ptr_expire by simp
qed

lemma remove_entries_eq: "remove_entries ps es = filter (\<lambda>e. ae_ptr e \<notin> set ps) es"
  by (induction ps arbitrary: es) (auto simp: conj_commute)

lemma remove_invalid_eq:
  assumes "distinct (map ae_ptr (m_cacheEntries c))"
  shows "m_cacheEntries (remove_invalid c) = filter isValid (m_cacheEntries c)"
proof -
  have "ae_ptr e \<notin> set (recordForRemoval c) \<longleftrightarrow> isValid e" if "e \<in> set (m_cacheEntries c)" for e
    using assms that by (auto simp: recordForRemoval_def distinct_map inj_on_def)
  then show ?thesis
    by (simp add: remove_invalid_def remove_entries_eq cong: filter_cong)
qed

lemma arp_inv_remove_invalid: "arp_inv c \<Longrightarrow> arp_inv (remove_invalid c)"
proof -
  assume inv: "arp_inv c"
  then have "m_cacheEntries (remove_invalid c) = filter isValid (m_cacheEntries c)"
    by (simp add: remove_invalid_eq arp_inv_def)
  moreover have "m_arpRequests (remove_invalid c) = m_arpRequests c"
    "next_ptr (remove_invalid c) = next_ptr c"
    by (simp_all add: remove_invalid_def)
  ultimately show ?thesis
    using inv by (simp add: arp_inv_def distinct_map_filter)
qed

section \<open>Printing the table\<close>

text \<open>
  \<^verbatim>\<open>operator<<\<close> on the cache. \<open>None\<close> is the exception of \<open>macToString\<close>; the age is in whole
  seconds.
\<close>

definition show_arp_entry :: "time_point \<Rightarrow> ArpEntry \<Rightarrow> string option" where
  "show_arp_entry now entry = do {
     mac \<leftarrow> macToString (ae_mac entry);
     Some (mac @ ''   '' @ ipToString (ae_ip entry) @ ''   '' @
       show_int (duration_seconds (now - timeAdded entry)) @ '' seconds   '' @
       (if isValid entry then ''1'' else ''0'') @ [CHR 0x0A])
   }"

fun show_arp_entries :: "time_point \<Rightarrow> ArpEntry list \<Rightarrow> string option" where
  "show_arp_entries now [] = Some [CHR 0x0A]"
| "show_arp_entries now (entry # rest) = do {
     s \<leftarrow> show_arp_entry now entry;
     r \<leftarrow> show_arp_entries now rest;
     Some (s @ r)
   }"

definition show_arp :: "time_point \<Rightarrow> ArpCache \<Rightarrow> string option" where
  "show_arp now cache = do {
     r \<leftarrow> show_arp_entries now (m_cacheEntries cache);
     Some ([CHR 0x0A] @ ''MAC            IP         AGE                       VALID'' @ [CHR 0x0A] @
       ''-----------------------------------------------------------'' @ [CHR 0x0A] @ r)
   }"

lemma show_arp_entries_Some:
  "\<forall>e \<in> set es. length (ae_mac e) = 6 \<Longrightarrow> \<exists>out. show_arp_entries now es = Some out"
proof (induction es)
  case (Cons e es)
  then obtain out where "show_arp_entries now es = Some out" by auto
  with Cons.prems show ?case by (simp add: show_arp_entry_def macToString_def)
qed simp

lemma show_arp_Some: "arp_inv c \<Longrightarrow> \<exists>out. show_arp now c = Some out"
  using show_arp_entries_Some [of "m_cacheEntries c" now] by (auto simp: show_arp_def arp_inv_def)

section \<open>Abstract view\<close>

text \<open>The cache as a map from IP addresses to hardware addresses, the queue as the packets
  waiting for each IP address.\<close>

definition arp_mac :: "ArpCache \<Rightarrow> u32 \<rightharpoonup> buffer" where
  "arp_mac c ip = map_option ae_mac (arp_lookup c ip)"

definition pending :: "ArpCache \<Rightarrow> u32 \<Rightarrow> PendingPacket list" where
  "pending c ip = (case find_request c ip of None \<Rightarrow> [] | Some r \<Rightarrow> packets r)"

lemma arp_lookup_insert:
  "arp_lookup (snd (insertArpEntry now mac ip c)) ip' =
     (case arp_lookup c ip' of
        Some e \<Rightarrow> Some e
      | None \<Rightarrow> if ip = ip'
          then Some \<lparr>ae_ptr = next_ptr c, ae_mac = mac, ae_ip = ip, timeAdded = now, isValid = True\<rparr>
          else None)"
  by (simp add: arp_lookup_def insertArpEntry_def Let_def find_append split: option.splits)

lemma insert_requests [simp]: "m_arpRequests (snd (insertArpEntry now mac ip c)) = m_arpRequests c"
  by (simp add: insertArpEntry_def Let_def)

lemma pending_insert [simp]: "pending (snd (insertArpEntry now mac ip c)) = pending c"
  by (simp add: pending_def insertArpEntry_def Let_def find_request_def fun_eq_iff)

lemma arp_mac_queue [simp]: "arp_mac (snd (queueRequest ip pkt ifc c)) = arp_mac c"
  by (auto simp: arp_mac_def arp_lookup_def queueRequest_def Let_def fun_eq_iff split: option.splits)

lemma find_map_update:
  assumes "\<And>r. ar_ip (f r) = ar_ip r"
  shows "find (\<lambda>r. ar_ip r = ip) (map (\<lambda>r. if ar_ptr r = p then f r else r) rs) =
    map_option (\<lambda>r. if ar_ptr r = p then f r else r) (find (\<lambda>r. ar_ip r = ip) rs)"
  by (induction rs) (auto simp: assms)

lemma pending_queue:
  assumes "arp_inv c"
  shows "pending (snd (queueRequest ip pkt ifc c)) =
    (pending c)(ip := pending c ip @ [\<lparr>pp_packet = pkt, pp_iface = ifc\<rparr>])"
proof (cases "find_request c ip")
  case None
  with assms show ?thesis
    by (auto simp: pending_def find_request_def queueRequest_new new_request_def find_append
        fun_eq_iff split: option.splits)
next
  case (Some r)
  then have r: "r \<in> set (m_arpRequests c)" "ar_ip r = ip" by (auto dest: find_request_in)
  have "ar_ptr r' = ar_ptr r \<longleftrightarrow> ip' = ip" if "find_request c ip' = Some r'" for ip' r'
    using that r assms find_request_in [OF that] by (auto simp: arp_inv_def distinct_map inj_on_def)
  with Some show ?thesis
    by (auto simp: pending_def queueRequest_old find_request_def update_request_def
        find_map_update fun_eq_iff split: option.splits)
qed

lemma pending_remove:
  assumes "arp_inv c" and "find_request c ip = Some r"
  shows "pending (removeRequest (ar_ptr r) c) = (pending c)(ip := [])"
proof
  fix ip'
  have r: "r \<in> set (m_arpRequests c)" "ar_ip r = ip" using assms(2) by (auto dest: find_request_in)
  have eq: "ar_ptr x = ar_ptr r \<longleftrightarrow> ar_ip x = ip" if "x \<in> set (m_arpRequests c)" for x
    using that r assms(1) by (auto simp: arp_inv_def distinct_map inj_on_def)
  then have "filter (\<lambda>x. ar_ptr x \<noteq> ar_ptr r) (m_arpRequests c) =
      filter (\<lambda>x. ar_ip x \<noteq> ip) (m_arpRequests c)"
    by (intro filter_cong) auto
  moreover have "find (\<lambda>x. ar_ip x = ip') (filter (\<lambda>x. ar_ip x \<noteq> ip) rs) =
      (if ip' = ip then None else find (\<lambda>x. ar_ip x = ip') rs)" for rs :: "ArpRequest list"
    by (induction rs) auto
  ultimately show "pending (removeRequest (ar_ptr r) c) ip' = ((pending c)(ip := [])) ip'"
    by (simp add: pending_def find_request_def removeRequest_def)
qed

section \<open>The contracts of the cache and of the queue\<close>

text \<open>A cache that learns: inserting an address it does not know binds it and nothing else.\<close>

locale learning_cache =
  fixes lookup_addr :: "'c \<Rightarrow> 'ip \<rightharpoonup> 'mac"
    and insert_addr :: "'mac \<Rightarrow> 'ip \<Rightarrow> 'c \<Rightarrow> 'c"
  assumes lookup_insert_new:
    "lookup_addr c ip = None \<Longrightarrow> lookup_addr (insert_addr mac ip c) = (lookup_addr c)(ip \<mapsto> mac)"
begin

definition learn :: "'mac \<Rightarrow> 'ip \<Rightarrow> 'c \<Rightarrow> 'c" where
  "learn mac ip c = (if lookup_addr c ip = None then insert_addr mac ip c else c)"

lemma learn_known: "\<exists>m. lookup_addr (learn mac ip c) ip = Some m"
  by (auto simp: learn_def lookup_insert_new)

lemma learn_keeps: "lookup_addr c ip' = Some m \<Longrightarrow> lookup_addr (learn mac ip c) ip' = Some m"
  by (auto simp: learn_def lookup_insert_new)

lemma learn_dom: "dom (lookup_addr (learn mac ip c)) = insert ip (dom (lookup_addr c))"
  by (auto simp: learn_def lookup_insert_new)

lemma learn_idem: "learn mac' ip (learn mac ip c) = learn mac ip c"
  by (auto simp: learn_def lookup_insert_new)

end

interpretation arp: learning_cache arp_mac "\<lambda>mac ip c. snd (insertArpEntry now mac ip c)" for now
  by unfold_locales (auto simp: arp_mac_def arp_lookup_insert fun_eq_iff split: option.splits)

text \<open>A queue of packets per address.\<close>

locale packet_queue =
  fixes waiting :: "'c \<Rightarrow> 'ip \<Rightarrow> 'p list"
    and enqueue :: "'ip \<Rightarrow> 'p \<Rightarrow> 'c \<Rightarrow> 'c"
    and inv_queue :: "'c \<Rightarrow> bool"
    and admissible :: "'p \<Rightarrow> bool"
  assumes inv_enqueue: "inv_queue c \<Longrightarrow> admissible p \<Longrightarrow> inv_queue (enqueue ip p c)"
    and waiting_enqueue: "inv_queue c \<Longrightarrow> waiting (enqueue ip p c) = (waiting c)(ip := waiting c ip @ [p])"
begin

lemma enqueue_all:
  "inv_queue c \<Longrightarrow> \<forall>p \<in> set ps. admissible p \<Longrightarrow>
   inv_queue (fold (enqueue ip) ps c) \<and>
   waiting (fold (enqueue ip) ps c) = (waiting c)(ip := waiting c ip @ ps)"
proof (induction ps arbitrary: c)
  case (Cons p ps)
  from Cons.IH [of "enqueue ip p c"] Cons.prems show ?case
    by (auto simp: inv_enqueue waiting_enqueue fun_eq_iff)
qed simp

end

interpretation queue: packet_queue pending
  "\<lambda>ip p c. snd (queueRequest ip (pp_packet p) (pp_iface p) c)" arp_inv
  "\<lambda>p. 34 \<le> length (pp_packet p)"
  by unfold_locales (auto intro: arp_inv_queue simp: pending_queue)

section \<open>Properties\<close>

text \<open>Seen as a map from IP to hardware addresses, inserting an entry binds its address if it was
  unknown and changes nothing if a valid entry for it was there: the first valid entry wins.\<close>

theorem insert_first_wins:
  "arp_mac (snd (insertArpEntry now mac ip c)) =
     (case arp_mac c ip of None \<Rightarrow> (arp_mac c)(ip \<mapsto> mac) | Some _ \<Rightarrow> arp_mac c)"
  by (auto simp: arp_mac_def arp_lookup_insert fun_eq_iff split: option.splits)

end
