(* ===== verification/RouterState.thy ===== *)
theory RouterState
  imports RoutingTable Interfaces ArpCache
begin

text \<open>
  The state of \<^verbatim>\<open>SimpleRouter\<close> (\<^verbatim>\<open>simple-router.hpp\<close>), sending, and the operations on its
  interfaces: \<open>loadIfconfig\<close> and \<open>reset\<close>. The proxy \<^verbatim>\<open>m_pox\<close> is an Ice stub: what it is asked to
  send, and on which interface, is recorded in \<open>sent\<close>.
\<close>

section \<open>State\<close>

record SimpleRouter =
  m_arp :: ArpCache
  m_routingTable :: RoutingTable
  m_ifaces :: "Interface list"
  m_ifNameToIpMap :: "string \<rightharpoonup> u32"
  temp_iface :: string
  sent :: "(buffer \<times> string) list"

text \<open>\<^verbatim>\<open>pox::Iface\<close>\<close>

record PoxIface =
  port_name :: string
  port_mac :: buffer
  port_no :: int

definition router_init :: SimpleRouter where
  "router_init = \<lparr>m_arp = arp_init, m_routingTable = [], m_ifaces = [], m_ifNameToIpMap = Map.empty,
     temp_iface = [], sent = []\<rparr>"

definition sendPacket :: "buffer \<Rightarrow> string \<Rightarrow> SimpleRouter \<Rightarrow> SimpleRouter" where
  "sendPacket packet outIface s = s\<lparr>sent := sent s @ [(packet, outIface)]\<rparr>"

definition loadRoutingTable ::
  "(string \<Rightarrow> u32 option) \<Rightarrow> string option \<Rightarrow> SimpleRouter \<Rightarrow> (SimpleRouter, bool) outcome" where
  "loadRoutingTable inet_aton rtConfig s =
     (case rt_load inet_aton rtConfig (m_routingTable s) of
        Done ok t \<Rightarrow> Done ok (s\<lparr>m_routingTable := t\<rparr>)
      | Raised e t \<Rightarrow> Raised e (s\<lparr>m_routingTable := t\<rparr>)
      | Undef u \<Rightarrow> Undef u)"

section \<open>loadIfconfig\<close>

text \<open>The lines \<^verbatim>\<open>std::getline\<close> delivers.\<close>

function getlines :: "string \<Rightarrow> string list" where
  "getlines [] = []"
| "getlines (c # cs) =
     takeWhile (\<lambda>x. x \<noteq> CHR 0x0A) (c # cs) #
     getlines (tl (dropWhile (\<lambda>x. x \<noteq> CHR 0x0A) (c # cs)))"
  by pat_completeness auto
termination
  by (relation "measure length") (auto simp: less_Suc_eq_le intro!: le_trans [OF diff_le_self length_dropWhile_le])

declare getlines.simps(2) [simp del]

text \<open>
  \<^verbatim>\<open>ifLine >> iface >> ip\<close>: a string that finds no word stays empty. \<^verbatim>\<open>c_str()\<close> ends at the first
  NUL. \<^verbatim>\<open>inet_aton\<close> is a parameter, as in \<open>rt_load\<close>.
\<close>

definition invalid_ip :: "string \<Rightarrow> string \<Rightarrow> string" where
  "invalid_ip ip iface = ''Invalid IP address `'' @ ip @ ''` for interface `'' @ iface @ ''`''"

fun load_ifconfig_lines ::
  "(string \<Rightarrow> u32 option) \<Rightarrow> string list \<Rightarrow> SimpleRouter \<Rightarrow> (SimpleRouter, unit) outcome" where
  "load_ifconfig_lines inet_aton [] s = Done () s"
| "load_ifconfig_lines inet_aton (line # rest) s =
     (let ws = sscanf_words 2 line;
          iface = (case ws of [] \<Rightarrow> [] | w # _ \<Rightarrow> w);
          ip = (case ws of _ # w # _ \<Rightarrow> w | _ \<Rightarrow> [])
      in case inet_aton (takeWhile (\<lambda>c. c \<noteq> CHR 0x00) ip) of
           None \<Rightarrow> Raised (invalid_ip ip iface) s
         | Some s_addr \<Rightarrow> load_ifconfig_lines inet_aton rest
             (s\<lparr>m_ifNameToIpMap := (m_ifNameToIpMap s)(iface \<mapsto> s_addr)\<rparr>))"

text \<open>A file that does not open delivers no line.\<close>

definition loadIfconfig ::
  "(string \<Rightarrow> u32 option) \<Rightarrow> string option \<Rightarrow> SimpleRouter \<Rightarrow> (SimpleRouter, unit) outcome" where
  "loadIfconfig inet_aton ifconfig s =
     load_ifconfig_lines inet_aton (case ifconfig of None \<Rightarrow> [] | Some cs \<Rightarrow> getlines cs) s"

section \<open>reset\<close>

fun reset_ports :: "(string \<rightharpoonup> u32) \<Rightarrow> PoxIface list \<Rightarrow> Interface list \<Rightarrow> Interface list" where
  "reset_ports ifNameToIp [] ifaces = ifaces"
| "reset_ports ifNameToIp (iface # rest) ifaces =
     (case ifNameToIp (port_name iface) of
        None \<Rightarrow> reset_ports ifNameToIp rest ifaces
      | Some ip \<Rightarrow> reset_ports ifNameToIp rest
          (iface_insert \<lparr>if_name = port_name iface, if_addr = port_mac iface, if_ip = ip\<rparr> ifaces))"

text \<open>\<^verbatim>\<open>printIfaces\<close> throws \<^verbatim>\<open>std::out_of_range\<close> on a hardware address that is too short.\<close>

definition reset :: "PoxIface list \<Rightarrow> SimpleRouter \<Rightarrow> (SimpleRouter, unit) outcome" where
  "reset ports s =
     (let s = s\<lparr>m_arp := arp_clear (m_arp s), m_ifaces := []\<rparr>;
          s = s\<lparr>m_ifaces := reset_ports (m_ifNameToIpMap s) ports (m_ifaces s)\<rparr>
      in case printIfaces (m_ifaces s) of
           None \<Rightarrow> Raised ''out_of_range'' s
         | Some _ \<Rightarrow> Done () s)"

section \<open>What reset leaves behind\<close>

text \<open>The interfaces inserted, in the order of the ports.\<close>

definition configured :: "(string \<rightharpoonup> u32) \<Rightarrow> PoxIface list \<Rightarrow> Interface list" where
  "configured ifNameToIp ports =
     concat (map (\<lambda>p. case ifNameToIp (port_name p) of
        None \<Rightarrow> []
      | Some ip \<Rightarrow> [\<lparr>if_name = port_name p, if_addr = port_mac p, if_ip = ip\<rparr>]) ports)"

lemma reset_ports_fold:
  "reset_ports m ports ifs = fold iface_insert (configured m ports) ifs"
  by (induction m ports ifs rule: reset_ports.induct) (auto simp: configured_def split: option.splits)

lemma find_configured:
  "find (\<lambda>i. if_name i = n) (configured m ports) =
     (case m n of
        None \<Rightarrow> None
      | Some ip \<Rightarrow> map_option (\<lambda>p. \<lparr>if_name = n, if_addr = port_mac p, if_ip = ip\<rparr>)
          (find (\<lambda>p. port_name p = n) ports))"
  by (induction ports) (auto simp: configured_def split: option.splits)

lemma find_reset_ports:
  "findIfaceByName (reset_ports m ports []) n =
     (case m n of
        None \<Rightarrow> None
      | Some ip \<Rightarrow> map_option (\<lambda>p. \<lparr>if_name = n, if_addr = port_mac p, if_ip = ip\<rparr>)
          (find (\<lambda>p. port_name p = n) ports))"
proof -
  have inv: "iface_set_inv []" by (simp add: iface_set_inv_def)
  have "findIfaceByName [] n = None" by (simp add: findIfaceByName_def)
  then show ?thesis
    unfolding reset_ports_fold ifs.find_fold [OF inv] by (simp only: option.case find_configured)
qed

text \<open>The set is ordered, and every interface has the address configured for its name.\<close>

definition ifaces_inv :: "SimpleRouter \<Rightarrow> bool" where
  "ifaces_inv s \<longleftrightarrow> iface_set_inv (m_ifaces s) \<and>
     (\<forall>i \<in> set (m_ifaces s). m_ifNameToIpMap s (if_name i) = Some (if_ip i))"

lemma reset_ports_inv:
  "iface_set_inv (reset_ports m ports []) \<and>
   (\<forall>i \<in> set (reset_ports m ports []). m (if_name i) = Some (if_ip i))"
proof
  show inv: "iface_set_inv (reset_ports m ports [])"
    unfolding reset_ports_fold by (rule ifs.inv_fold) (simp add: iface_set_inv_def)
  show "\<forall>i \<in> set (reset_ports m ports []). m (if_name i) = Some (if_ip i)"
  proof
    fix i assume "i \<in> set (reset_ports m ports [])"
    then have "findIfaceByName (reset_ports m ports []) (if_name i) = Some i"
      by (simp add: find_iface_set [OF inv])
    then show "m (if_name i) = Some (if_ip i)"
      unfolding find_reset_ports by (cases i) (auto split: option.splits)
  qed
qed

lemma reset_outcome:
  "reset ports s =
     (let s' = s\<lparr>m_arp := arp_clear (m_arp s), m_ifaces := reset_ports (m_ifNameToIpMap s) ports []\<rparr>
      in if \<exists>i \<in> set (m_ifaces s'). length (if_addr i) < 6
         then Raised ''out_of_range'' s' else Done () s')"
  by (auto simp: reset_def Let_def printIfaces_None split: option.splits)
     (metis option.distinct(1) printIfaces_None)

section \<open>What loadIfconfig reads\<close>

definition show_ifconfig :: "string \<times> string \<Rightarrow> string" where
  "show_ifconfig l = fst l @ '' '' @ snd l"

lemma getlines_line: "CHR 0x0A \<notin> set l \<Longrightarrow> getlines (l @ CHR 0x0A # cs) = l # getlines cs"
proof -
  assume a: "CHR 0x0A \<notin> set l"
  obtain x xs where x: "l @ CHR 0x0A # cs = x # xs" by (cases l) auto
  have "takeWhile (\<lambda>x. x \<noteq> CHR 0x0A) (l @ CHR 0x0A # cs) = l"
    "dropWhile (\<lambda>x. x \<noteq> CHR 0x0A) (l @ CHR 0x0A # cs) = CHR 0x0A # cs"
    using a by (auto simp: takeWhile_append dropWhile_append)
  then show ?thesis using getlines.simps(2) [of x xs] by (simp add: x [symmetric])
qed

lemma next_word_all: "is_word w \<Longrightarrow> next_word w = (w, [])"
proof -
  have "\<forall>c \<in> set w. \<not> is_space c \<Longrightarrow> next_word w = (w, [])" by (induction w) auto
  then show "is_word w \<Longrightarrow> ?thesis" by (simp add: is_word_def)
qed

lemma sscanf_words_last: "is_word w \<Longrightarrow> sscanf_words (Suc 0) w = [w]"
proof -
  assume w: "is_word w"
  have e: "next_word (dropWhile is_space w) = (w, [])"
    using dropWhile_word [OF w, of "[]"] by (simp only: append_Nil2 next_word_all [OF w])
  show ?thesis
    unfolding sscanf_words.simps e using w by (cases w) (auto simp only: is_word_def list.case prod.case)
qed

lemma sscanf_ifconfig:
  assumes "is_word n" and "is_word a"
  shows "sscanf_words 2 (show_ifconfig (n, a)) = [n, a]"
proof -
  have "sscanf_words (Suc (Suc 0)) (n @ CHR '' '' # a) = [n, a]"
    unfolding sscanf_words_word [OF assms(1) is_space_blank] sscanf_words_space [OF is_space_blank]
      sscanf_words_last [OF assms(2)] by (rule refl)
  then show ?thesis by (simp only: show_ifconfig_def fst_conv snd_conv append_Cons append_Nil numeral_2_eq_2)
qed

lemma takeWhile_word: "is_word w \<Longrightarrow> takeWhile (\<lambda>c. c \<noteq> CHR 0x00) w = w"
  by (auto simp: is_word_def takeWhile_eq_all_conv)

lemma load_ifconfig_entries:
  assumes "\<forall>(n, a) \<in> set ls. is_word n \<and> is_word a \<and> aton a \<noteq> None"
  shows "load_ifconfig_lines aton (map show_ifconfig ls) s =
    Done () (s\<lparr>m_ifNameToIpMap :=
      fold (\<lambda>(n, a) m. m(n := aton a)) ls (m_ifNameToIpMap s)\<rparr>)"
  using assms
proof (induction ls arbitrary: s)
  case (Cons l ls)
  obtain n a where l: "l = (n, a)" by (cases l)
  with Cons.prems obtain v where "is_word n" "is_word a" and "aton a = Some v" by auto
  moreover from Cons.prems have "\<forall>(n, a) \<in> set ls. is_word n \<and> is_word a \<and> aton a \<noteq> None" by auto
  note Cons.IH [OF this]
  ultimately show ?case
    by (simp add: l sscanf_ifconfig takeWhile_word del: sscanf_words.simps cong: if_cong)
qed simp

lemma getlines_ifconfig:
  assumes "\<forall>(n, a) \<in> set ls. is_word n \<and> is_word a"
  shows "getlines (concat (map (\<lambda>l. show_ifconfig l @ [CHR 0x0A]) ls)) = map show_ifconfig ls"
  using assms
proof (induction ls)
  case (Cons l ls)
  obtain n a where l: "l = (n, a)" by (cases l)
  with Cons.prems have "CHR 0x0A \<notin> set (show_ifconfig l)"
    by (auto simp: show_ifconfig_def newline_notin_word)
  with Cons show ?case by (simp add: getlines_line)
qed simp

section \<open>The router invariant\<close>

text \<open>
  Every frame handed to the proxy is an IPv4 frame that holds the whole IP header or a 42-byte
  ARP frame.
\<close>

definition frame_ok :: "buffer \<Rightarrow> bool" where
  "frame_ok b \<longleftrightarrow>
     chunk 12 2 b = [0x08, 0x00] \<and> 34 \<le> length b \<or>
     chunk 12 2 b = [0x08, 0x06] \<and> length b = 42"

definition router_inv :: "SimpleRouter \<Rightarrow> bool" where
  "router_inv s \<longleftrightarrow> arp_inv (m_arp s) \<and> ifaces_inv s \<and> (\<forall>f \<in> set (sent s). frame_ok (fst f))"

lemma router_inv_init: "router_inv router_init"
  by (simp add: router_inv_def router_init_def arp_inv_init ifaces_inv_def iface_set_inv_def)

lemma router_inv_cache [dest]: "router_inv s \<Longrightarrow> arp_inv (m_arp s)"
  by (simp add: router_inv_def)

lemma router_inv_arp:
  "router_inv s \<Longrightarrow> arp_inv c \<Longrightarrow> router_inv (s\<lparr>m_arp := c\<rparr>)"
  by (simp add: router_inv_def ifaces_inv_def)

lemma router_inv_send: "router_inv s \<Longrightarrow> frame_ok b \<Longrightarrow> router_inv (sendPacket b i s)"
  by (auto simp: router_inv_def ifaces_inv_def sendPacket_def)

lemma router_inv_temp: "router_inv s \<Longrightarrow> router_inv (s\<lparr>temp_iface := n\<rparr>)"
  by (simp add: router_inv_def ifaces_inv_def)

lemma router_inv_reset: "router_inv s \<Longrightarrow> oc_all router_inv (reset ports s)"
  using reset_ports_inv [of "m_ifNameToIpMap s" ports]
  by (simp add: reset_outcome Let_def router_inv_def ifaces_inv_def arp_inv_clear)

text \<open>What a frame handler leaves alone: the configuration of the router.\<close>

definition same_config :: "SimpleRouter \<Rightarrow> SimpleRouter \<Rightarrow> bool" where
  "same_config s s' \<longleftrightarrow> m_routingTable s' = m_routingTable s \<and> m_ifaces s' = m_ifaces s \<and>
     m_ifNameToIpMap s' = m_ifNameToIpMap s \<and> (\<exists>out. sent s' = sent s @ out)"

lemma same_config_refl [simp]: "same_config s s"
  by (simp add: same_config_def)

lemma same_config_trans: "same_config s s' \<Longrightarrow> same_config s' s'' \<Longrightarrow> same_config s s''"
  by (auto simp: same_config_def)

lemma same_config_arp [simp]: "same_config s (s'\<lparr>m_arp := c\<rparr>) = same_config s s'"
  by (simp add: same_config_def)

lemma same_config_temp [simp]: "same_config s (s'\<lparr>temp_iface := n\<rparr>) = same_config s s'"
  by (simp add: same_config_def)

lemma same_config_send [intro]: "same_config s s' \<Longrightarrow> same_config s (sendPacket b i s')"
  by (auto simp: same_config_def sendPacket_def)

lemma sendPacket_fields [simp]:
  "m_arp (sendPacket b i s) = m_arp s" "m_routingTable (sendPacket b i s) = m_routingTable s"
  "m_ifaces (sendPacket b i s) = m_ifaces s" "temp_iface (sendPacket b i s) = temp_iface s"
  "m_ifNameToIpMap (sendPacket b i s) = m_ifNameToIpMap s"
  "sent (sendPacket b i s) = sent s @ [(b, i)]"
  by (simp_all add: sendPacket_def)

text \<open>The routes lead to interfaces that can send: what the operator configures.\<close>

definition routes_ok :: "SimpleRouter \<Rightarrow> bool" where
  "routes_ok s \<longleftrightarrow> (\<forall>e \<in> set (m_routingTable s). \<exists>i. findIfaceByName (m_ifaces s) (rt_ifName e) = Some i)
     \<and> (\<forall>i \<in> set (m_ifaces s). length (if_addr i) = 6)"

lemma routes_ok_same: "same_config s s' \<Longrightarrow> routes_ok s' = routes_ok s"
  by (simp add: routes_ok_def same_config_def)

lemma routes_ok_route:
  assumes "routes_ok s" and "rt_lookup (m_routingTable s) ip = Inr e"
  obtains i where "findIfaceByName (m_ifaces s) (rt_ifName e) = Some i" and "if_name i = rt_ifName e"
    and "length (if_addr i) = 6"
proof -
  obtain i where i: "findIfaceByName (m_ifaces s) (rt_ifName e) = Some i"
    using assms rt.sound [of "m_routingTable s" ip e] by (auto simp: routes_ok_def)
  moreover have "i \<in> set (m_ifaces s)" "if_name i = rt_ifName e" using findIfaceByName_in [OF i] by auto
  ultimately show ?thesis using assms(1) that by (auto simp: routes_ok_def)
qed

section \<open>Properties\<close>

text \<open>After a reset the cache and its queue are empty, and the router has, under each configured
  name, the first port of that name with the configured address, and no other interface.\<close>

theorem reset_interfaces:
  assumes "reset ports s = Done () s'"
  shows "m_cacheEntries (m_arp s') = [] \<and> m_arpRequests (m_arp s') = [] \<and>
    findIfaceByName (m_ifaces s') n =
     (case m_ifNameToIpMap s n of
        None \<Rightarrow> None
      | Some ip \<Rightarrow> map_option (\<lambda>p. \<lparr>if_name = n, if_addr = port_mac p, if_ip = ip\<rparr>)
          (find (\<lambda>p. port_name p = n) ports))"
  using assms find_reset_ports [of "m_ifNameToIpMap s" ports n]
  by (auto simp: reset_outcome Let_def arp_clear_def split: if_splits)

theorem reset_interfaces_witness:
  "\<exists>s'. reset [\<lparr>port_name = ''a'', port_mac = [1, 2, 3, 4, 5, 6], port_no = 1\<rparr>]
      (router_init\<lparr>m_ifNameToIpMap := [''a'' \<mapsto> 9]\<rparr>) = Done () s' \<and>
    findIfaceByName (m_ifaces s') ''a'' = Some \<lparr>if_name = ''a'', if_addr = [1, 2, 3, 4, 5, 6], if_ip = 9\<rparr>"
proof -
  let ?p = "[\<lparr>port_name = ''a'', port_mac = [1, 2, 3, 4, 5, 6], port_no = 1\<rparr>]"
  let ?s = "router_init\<lparr>m_ifNameToIpMap := [''a'' \<mapsto> 9]\<rparr>"
  obtain s' where s': "reset ?p ?s = Done () s'"
    by (simp add: reset_def printIfaces_def show_iface_def macToString_def)
  from reset_interfaces [OF this, of "''a''"] s' show ?thesis by auto
qed

text \<open>Loading an interface file of lines with a name and an address makes the map of addresses send
  each name to the address of the last line with that name, and leaves other names alone.\<close>

theorem ifconfig_last_wins:
  assumes "\<forall>(n, a) \<in> set ls. is_word n \<and> is_word a \<and> aton a \<noteq> None"
  shows "loadIfconfig aton (Some (concat (map (\<lambda>l. show_ifconfig l @ [CHR 0x0A]) ls))) s =
    Done () (s\<lparr>m_ifNameToIpMap := (\<lambda>n. case map_of (rev ls) n of None \<Rightarrow> m_ifNameToIpMap s n | Some a \<Rightarrow> aton a)\<rparr>)"
proof -
  have "fold (\<lambda>(n, a) m. m(n := aton a)) ls m =
      (\<lambda>n. case map_of (rev ls) n of None \<Rightarrow> m n | Some a \<Rightarrow> aton a)" for m
    by (induction ls arbitrary: m) (auto simp: map_add_def fun_eq_iff split: option.splits)
  moreover have "\<forall>(n, a) \<in> set ls. is_word n \<and> is_word a" using assms by auto
  note getlines_ifconfig [OF this] load_ifconfig_entries [OF assms]
  ultimately show ?thesis by (simp add: loadIfconfig_def)
qed

theorem ifconfig_last_wins_witness:
  "loadIfconfig (\<lambda>_. Some 5) (Some (concat (map (\<lambda>l. show_ifconfig l @ [CHR 0x0A]) [(''a'', ''b'')]))) router_init =
    Done () (router_init\<lparr>m_ifNameToIpMap := (\<lambda>n. case map_of (rev [(''a'', ''b'')]) n of
      None \<Rightarrow> m_ifNameToIpMap router_init n | Some a \<Rightarrow> Some 5)\<rparr>)"
  by (rule ifconfig_last_wins) (simp add: is_word_def is_space_def)

end
