(* ===== verification/ArpTimer.thy ===== *)
theory ArpTimer
  imports RouterState
begin

text \<open>
  The member functions of \<^verbatim>\<open>arp-cache.cpp\<close> that send through the router:
  \<open>sendPendingPackets\<close>, \<open>handleArpRequest\<close>, \<open>periodicCheckArpRequestsAndCacheEntries\<close> and the body
  of the loop of \<open>ticker\<close>. They work on the state of the router that owns the cache. A clock
  reading is numbered by the place in the call it belongs to; readings on a path that is not
  taken are skipped.
\<close>

section \<open>sendPendingPackets\<close>

text \<open>The frame built from a pending packet: a new Ethernet header, then the bytes from 14 on.\<close>

definition pending_frame :: "arp_hdr \<Rightarrow> buffer \<Rightarrow> buffer option" where
  "pending_frame reply_arp_hdr packet = do {
     let sendpacket = replicate (length packet) 0;
     let eth_hdr = \<lparr>ether_dhost = arp_sha reply_arp_hdr, ether_shost = arp_tha reply_arp_hdr,
       ether_type = htons 0x0800\<rparr>;
     sendpacket \<leftarrow> mem_write 0 (ethernet_hdr_bytes eth_hdr) sendpacket;
     body \<leftarrow> mem_read 14 (length packet - 14) packet;
     mem_write 14 body sendpacket
   }"

fun send_packets_of ::
  "arp_hdr \<Rightarrow> u32 \<Rightarrow> PendingPacket list \<Rightarrow> SimpleRouter \<Rightarrow> (SimpleRouter, unit) outcome" where
  "send_packets_of reply_arp_hdr dst_ip [] s = Done () s"
| "send_packets_of reply_arp_hdr dst_ip (pendingPacket # rest) s =
     need OutOfBounds (pending_frame reply_arp_hdr (pp_packet pendingPacket)) (\<lambda>sendpacket.
       case rt_lookup (m_routingTable s) dst_ip of
         Inl e \<Rightarrow> Raised e s
       | Inr entry \<Rightarrow>
           need NullDeref (findIfaceByName (m_ifaces s) (rt_ifName entry)) (\<lambda>sendInterface.
             send_packets_of reply_arp_hdr dst_ip rest
               (sendPacket sendpacket (if_name sendInterface) s)))"

definition sendPendingPackets ::
  "arp_hdr \<Rightarrow> u32 \<Rightarrow> SimpleRouter \<Rightarrow> (SimpleRouter, unit) outcome" where
  "sendPendingPackets reply_arp_hdr dst_ip s =
     (case find_request (m_arp s) dst_ip of
        None \<Rightarrow> Done () s
      | Some request \<Rightarrow>
          oc_bind (send_packets_of reply_arp_hdr dst_ip (packets request) s)
            (\<lambda>_ s. Done () (s\<lparr>m_arp := removeRequest (ar_ptr request) (m_arp s)\<rparr>)))"

section \<open>handleArpRequest\<close>

text \<open>The broadcast frame that asks for \<open>ip\<close>, sent from an interface.\<close>

definition arp_request_packet :: "Interface \<Rightarrow> u32 \<Rightarrow> buffer option" where
  "arp_request_packet sendInterface ip = do {
     let request_packet = replicate 42 0;
     addr \<leftarrow> mem_read 0 6 (if_addr sendInterface);
     let eth_header = \<lparr>ether_dhost = replicate 6 0xff, ether_shost = addr,
       ether_type = htons 0x0806\<rparr>;
     let arp_header = \<lparr>arp_hrd = htons 0x0001, arp_pro = htons 0x0800, arp_hln = 6, arp_pln = 4,
       arp_op = htons 0x0001, arp_sha = addr, arp_sip = if_ip sendInterface,
       arp_tha = replicate 6 0xff, arp_tip = ip\<rparr>;
     request_packet \<leftarrow> mem_write 0 (ethernet_hdr_bytes eth_header) request_packet;
     mem_write 14 (arp_hdr_bytes arp_header) request_packet
   }"

text \<open>\<open>p\<close> is the address in the shared pointer \<^verbatim>\<open>req\<close>, the result is the flag \<^verbatim>\<open>isRemoved\<close>.\<close>

definition handleArpRequest ::
  "clock \<Rightarrow> nat \<Rightarrow> nat \<Rightarrow> bool \<Rightarrow> SimpleRouter \<Rightarrow> (SimpleRouter, bool) outcome" where
  "handleArpRequest clk i p isRemoved s =
     need NullDeref (deref_request (m_arp s) p) (\<lambda>req.
       if clk i - timeSent req > seconds 1 then
         if nTimesSent req \<ge> MAX_SENT_TIME then
           Done True (s\<lparr>m_arp := removeRequest p (m_arp s)\<rparr>)
         else
           (case rt_lookup (m_routingTable s) (ar_ip req) of
              Inl e \<Rightarrow> Raised e s
            | Inr entry \<Rightarrow>
                need NullDeref (findIfaceByName (m_ifaces s) (rt_ifName entry)) (\<lambda>sendInterface.
                need OutOfBounds (arp_request_packet sendInterface (ar_ip req)) (\<lambda>request_packet.
                  let s = sendPacket request_packet (if_name sendInterface) s in
                  Done isRemoved (s\<lparr>m_arp := update_request p
                    (\<lambda>req. req\<lparr>timeSent := clk (Suc i), nTimesSent := nTimesSent req + 1\<rparr>)
                    (m_arp s)\<rparr>))))
       else Done isRemoved s)"

section \<open>The timer\<close>

fun check_requests :: "clock \<Rightarrow> nat \<Rightarrow> nat list \<Rightarrow> SimpleRouter \<Rightarrow> (SimpleRouter, unit) outcome" where
  "check_requests clk i [] s = Done () s"
| "check_requests clk i (p # ps) s =
     oc_bind (handleArpRequest clk i p False s) (\<lambda>isRemoved s.
       if isRemoved then Done () s else check_requests clk (i + 2) ps s)"

definition periodicCheckArpRequestsAndCacheEntries ::
  "clock \<Rightarrow> nat \<Rightarrow> SimpleRouter \<Rightarrow> (SimpleRouter, unit) outcome" where
  "periodicCheckArpRequestsAndCacheEntries clk i s =
     oc_bind (check_requests clk i (map ar_ptr (m_arpRequests (m_arp s))) s)
       (\<lambda>_ s. Done () (s\<lparr>m_arp := remove_invalid (m_arp s)\<rparr>))"

definition ticker_body :: "clock \<Rightarrow> SimpleRouter \<Rightarrow> (SimpleRouter, unit) outcome" where
  "ticker_body clk s =
     periodicCheckArpRequestsAndCacheEntries clk 1
       (s\<lparr>m_arp := expire_entries (clk 0) (m_arp s)\<rparr>)"

section \<open>What the frames hold\<close>

lemma pending_frame_eq:
  assumes "arp_wf h" and "14 \<le> length packet"
  shows "pending_frame h packet =
    Some (arp_sha h @ arp_tha h @ [0x08, 0x00] @ drop 14 packet)"
proof -
  let ?eth = "ethernet_hdr_bytes \<lparr>ether_dhost = arp_sha h, ether_shost = arp_tha h,
       ether_type = htons 0x0800\<rparr>"
  have type: "u16_bytes (htons 0x0800) = [0x08, 0x00]"
    by (simp add: u16_bytes_def htons_def)
  have len: "length ?eth = 14"
    using assms(1) by (simp add: ethernet_wf_def arp_wf_def)
  have "put 0 ?eth (replicate (length packet) 0) = ?eth @ replicate (length packet - 14) 0"
    by (simp add: put_def len)
  then have "pending_frame h packet = Some (?eth @ drop 14 packet)"
    using assms(2) len by (simp add: pending_frame_def Let_def mem_write_Some mem_read_Some put_def chunk_def)
  then show ?thesis by (simp add: ethernet_hdr_bytes_def type)
qed

lemma pending_frame_bounds: "pending_frame h packet \<noteq> None \<longleftrightarrow> 14 \<le> length packet" if "arp_wf h"
proof (cases "14 \<le> length packet")
  case True
  with that show ?thesis by (simp add: pending_frame_eq)
next
  case False
  with that show ?thesis
    by (simp add: pending_frame_def Let_def mem_write_def ethernet_wf_def arp_wf_def)
qed

lemma arp_request_packet_Some:
  "arp_request_packet iface ip \<noteq> None \<longleftrightarrow> 6 \<le> length (if_addr iface)"
  by (auto simp: arp_request_packet_def Let_def mem_read_def mem_write_def ethernet_wf_def arp_wf_def)

section \<open>Flushing the packets of a request\<close>

definition pending_bytes :: "arp_hdr \<Rightarrow> buffer \<Rightarrow> buffer" where
  "pending_bytes h packet = arp_sha h @ arp_tha h @ [0x08, 0x00] @ drop 14 packet"

lemma frame_ok_pending:
  assumes "arp_wf h" and "34 \<le> length packet"
  shows "frame_ok (pending_bytes h packet)"
  using assms by (simp add: frame_ok_def pending_bytes_def arp_wf_def chunk_def)

lemma pending_frame_bytes:
  "arp_wf h \<Longrightarrow> 34 \<le> length packet \<Longrightarrow> pending_frame h packet = Some (pending_bytes h packet)"
  by (simp add: pending_frame_eq pending_bytes_def)

lemma send_packets_of_Done:
  assumes "arp_wf h" and "\<forall>p \<in> set ps. 34 \<le> length (pp_packet p)"
    and "rt_lookup (m_routingTable s) ip = Inr e"
    and "findIfaceByName (m_ifaces s) (rt_ifName e) = Some i"
  shows "send_packets_of h ip ps s =
    Done () (s\<lparr>sent := sent s @ map (\<lambda>p. (pending_bytes h (pp_packet p), if_name i)) ps\<rparr>)"
  using assms
proof (induction ps arbitrary: s)
  case (Cons p ps)
  then show ?case by (simp add: pending_frame_bytes sendPacket_def)
qed simp

lemma send_packets_of_frame:
  "arp_wf h \<Longrightarrow> \<forall>p \<in> set ps. 34 \<le> length (pp_packet p) \<Longrightarrow> router_inv s \<Longrightarrow>
   oc_all (\<lambda>s'. router_inv s' \<and> same_config s s' \<and> m_arp s' = m_arp s) (send_packets_of h ip ps s)"
proof (induction ps arbitrary: s)
  case (Cons p ps)
  then have p: "pending_frame h (pp_packet p) = Some (pending_bytes h (pp_packet p))"
    and ok: "frame_ok (pending_bytes h (pp_packet p))"
    by (simp_all add: pending_frame_bytes frame_ok_pending)
  have "oc_all (\<lambda>s'. router_inv s' \<and> same_config s s' \<and> m_arp s' = m_arp s)
      (send_packets_of h ip ps (sendPacket (pending_bytes h (pp_packet p)) n s))" for n
  proof -
    let ?s = "sendPacket (pending_bytes h (pp_packet p)) n s"
    have c: "same_config s ?s" by (rule same_config_send) simp
    have "oc_all (\<lambda>s'. router_inv s' \<and> same_config ?s s' \<and> m_arp s' = m_arp ?s)
        (send_packets_of h ip ps ?s)"
      using Cons.prems ok by (intro Cons.IH router_inv_send) simp_all
    then show ?thesis
      by (rule oc_all_mono) (simp add: same_config_trans [OF c])
  qed
  with Cons.prems show ?case by (auto simp: p split: sum.split)
qed simp

lemma pending_ok: "arp_inv c \<Longrightarrow> find_request c ip = Some r \<Longrightarrow> request_ok r"
  by (auto simp: arp_inv_def dest: find_request_in)

lemma sendPendingPackets_inv:
  assumes "arp_wf h" and "router_inv s"
  shows "oc_all (\<lambda>s'. router_inv s' \<and> same_config s s') (sendPendingPackets h ip s)"
proof (cases "find_request (m_arp s) ip")
  case (Some r)
  then have "\<forall>p \<in> set (packets r). 34 \<le> length (pp_packet p)"
    using assms(2) pending_ok by (auto simp: router_inv_def request_ok_def)
  from send_packets_of_frame [OF assms(1) this assms(2), of ip]
  have "oc_all (\<lambda>s'. router_inv s' \<and> same_config s s') (send_packets_of h ip (packets r) s)"
    by (rule oc_all_mono) simp
  then have "oc_all (\<lambda>s'. router_inv s' \<and> same_config s s')
      (oc_bind (send_packets_of h ip (packets r) s)
        (\<lambda>_ s. Done () (s\<lparr>m_arp := removeRequest (ar_ptr r) (m_arp s)\<rparr>)))"
    by (rule oc_all_bind) (auto intro: router_inv_arp arp_inv_remove)
  with Some show ?thesis by (simp add: sendPendingPackets_def)
qed (use assms in \<open>simp add: sendPendingPackets_def\<close>)

text \<open>The packets waiting for the address leave in order, and nothing waits for it any more.\<close>

lemma sendPendingPackets_Done:
  assumes "arp_wf h" and "router_inv s"
    and "rt_lookup (m_routingTable s) ip = Inr e"
    and "findIfaceByName (m_ifaces s) (rt_ifName e) = Some i"
  obtains s' where "sendPendingPackets h ip s = Done () s'"
    and "sent s' = sent s @ map (\<lambda>p. (pending_bytes h (pp_packet p), if_name i)) (pending (m_arp s) ip)"
    and "pending (m_arp s') = (pending (m_arp s))(ip := [])"
    and "m_cacheEntries (m_arp s') = m_cacheEntries (m_arp s)"
proof (cases "find_request (m_arp s) ip")
  case None
  then have p: "pending (m_arp s) ip = []" by (simp add: pending_def)
  have u: "pending (m_arp s) = (pending (m_arp s))(ip := [])"
    by (rule fun_upd_idem [symmetric]) (rule p)
  have d: "sendPendingPackets h ip s = Done () s" using None by (simp add: sendPendingPackets_def)
  show ?thesis by (rule that [OF d _ u refl]) (simp add: p)
next
  case (Some r)
  have inv: "arp_inv (m_arp s)" using assms(2) by (simp add: router_inv_def)
  have p: "pending (m_arp s) ip = packets r" using Some by (simp add: pending_def)
  have "\<forall>p \<in> set (packets r). 34 \<le> length (pp_packet p)"
    using pending_ok [OF inv Some] by (simp add: request_ok_def)
  note ps = send_packets_of_Done [OF assms(1) this assms(3,4)]
  have d: "sendPendingPackets h ip s = Done ()
      (s\<lparr>sent := sent s @ map (\<lambda>p. (pending_bytes h (pp_packet p), if_name i)) (packets r),
         m_arp := removeRequest (ar_ptr r) (m_arp s)\<rparr>)"
    unfolding sendPendingPackets_def Some by (simp add: ps)
  have m: "m_cacheEntries (removeRequest (ar_ptr r) (m_arp s)) = m_cacheEntries (m_arp s)"
    by (simp add: removeRequest_def)
  show ?thesis
    by (rule that [OF d]) (simp_all add: p m pending_remove [OF inv Some])
qed

section \<open>One request\<close>

text \<open>The bytes of the broadcast, in order.\<close>

definition arp_request_bytes :: "buffer \<Rightarrow> u32 \<Rightarrow> u32 \<Rightarrow> buffer" where
  "arp_request_bytes addr sip tip =
     replicate 6 0xff @ addr @ [0x08, 0x06, 0x00, 0x01, 0x08, 0x00, 6, 4, 0x00, 0x01] @ addr @
     u32_bytes sip @ replicate 6 0xff @ u32_bytes tip"

lemma arp_request_packet_eq:
  assumes "6 \<le> length (if_addr iface)"
  shows "arp_request_packet iface ip =
    Some (arp_request_bytes (chunk 0 6 (if_addr iface)) (if_ip iface) ip)"
proof -
  let ?a = "chunk 0 6 (if_addr iface)"
  let ?e = "\<lparr>ether_dhost = replicate 6 0xff, ether_shost = ?a, ether_type = htons 0x0806\<rparr>"
  let ?h = "\<lparr>arp_hrd = htons 0x0001, arp_pro = htons 0x0800, arp_hln = 6, arp_pln = 4,
       arp_op = htons 0x0001, arp_sha = ?a, arp_sip = if_ip iface,
       arp_tha = replicate 6 0xff, arp_tip = ip\<rparr>"
  have wf: "ethernet_wf ?e" "arp_wf ?h" using assms by (simp_all add: ethernet_wf_def arp_wf_def)
  have "arp_request_packet iface ip =
      Some (put 14 (arp_hdr_bytes ?h) (put 0 (ethernet_hdr_bytes ?e) (replicate 42 0)))"
    using wf assms by (simp add: arp_request_packet_def Let_def mem_read_Some mem_write_Some)
  also have "put 14 (arp_hdr_bytes ?h) (put 0 (ethernet_hdr_bytes ?e) (replicate 42 0)) =
      ethernet_hdr_bytes ?e @ arp_hdr_bytes ?h"
    by (rule put_two) (use wf in simp_all)
  also have "\<dots> = arp_request_bytes ?a (if_ip iface) ip"
    by (simp add: arp_request_bytes_def ethernet_hdr_bytes_def arp_hdr_bytes_def u16_bytes_def htons_def)
  finally show ?thesis .
qed

lemma frame_ok_request: "arp_request_packet iface ip = Some b \<Longrightarrow> frame_ok b"
proof -
  assume b: "arp_request_packet iface ip = Some b"
  then have "6 \<le> length (if_addr iface)" using arp_request_packet_Some [of iface ip] by simp
  with b show ?thesis
    by (auto simp: arp_request_packet_eq frame_ok_def arp_request_bytes_def chunk_def)
qed

lemma deref_request_in:
  "deref_request c p = Some r \<Longrightarrow> r \<in> set (m_arpRequests c) \<and> ar_ptr r = p"
  unfolding deref_request_def by (rule find_in_set)

lemma handleArpRequest_inv:
  assumes inv: "router_inv s"
  shows "oc_all (\<lambda>s'. router_inv s' \<and> same_config s s') (handleArpRequest clk i p isRemoved s)"
proof -
  have upd: "arp_inv (update_request p
      (\<lambda>req. req\<lparr>timeSent := t, nTimesSent := nTimesSent req + 1\<rparr>) (m_arp s))"
    if "deref_request (m_arp s) p = Some req" "\<not> MAX_SENT_TIME \<le> nTimesSent req" for req t
  proof (rule arp_inv_update)
    fix r assume r: "r \<in> set (m_arpRequests (m_arp s))" "ar_ptr r = p"
    with deref_request_in [OF that(1)] have "r = req"
      using router_inv_cache [OF inv] by (auto simp: arp_inv_def distinct_map inj_on_def)
    with r that(2) show "request_ok (r\<lparr>timeSent := t, nTimesSent := nTimesSent r + 1\<rparr>)"
      using router_inv_cache [OF inv]
      by (auto simp: arp_inv_def request_ok_def MAX_SENT_TIME_def not_le inc_le)
  qed (use inv in auto)
  show ?thesis
    unfolding handleArpRequest_def
    by (auto intro!: oc_all_need simp: Let_def inv router_inv_arp arp_inv_remove router_inv_cache
        upd frame_ok_request router_inv_send same_config_send split: sum.split)
qed

lemma check_requests_inv:
  "router_inv s \<Longrightarrow> oc_all (\<lambda>s'. router_inv s' \<and> same_config s s') (check_requests clk i ps s)"
proof (induction ps arbitrary: i s)
  case (Cons p ps)
  show ?case
    unfolding check_requests.simps
  proof (rule oc_all_bind [OF handleArpRequest_inv [OF Cons.prems]])
    fix isRemoved s'
    assume s': "router_inv s' \<and> same_config s s'"
    with Cons.IH [of s' "i + 2"]
    show "oc_all (\<lambda>s'. router_inv s' \<and> same_config s s')
        (if isRemoved then Done () s' else check_requests clk (i + 2) ps s')"
      by (auto elim!: oc_all_mono intro: same_config_trans)
  qed
qed simp

lemma ticker_body_inv:
  assumes "router_inv s"
  shows "oc_all (\<lambda>s'. router_inv s' \<and> same_config s s') (ticker_body clk s)"
proof -
  let ?s = "s\<lparr>m_arp := expire_entries (clk 0) (m_arp s)\<rparr>"
  have inv: "router_inv ?s" using assms by (auto intro: router_inv_arp arp_inv_expire)
  have "oc_all (\<lambda>s'. router_inv s' \<and> same_config s s')
      (check_requests clk 1 (map ar_ptr (m_arpRequests (m_arp ?s))) ?s)"
    by (rule oc_all_mono [OF check_requests_inv [OF inv]]) (simp add: same_config_def)
  then show ?thesis
    unfolding ticker_body_def periodicCheckArpRequestsAndCacheEntries_def
    by (rule oc_all_bind) (auto intro: router_inv_arp arp_inv_remove_invalid)
qed

section \<open>What one tick does to the requests\<close>

text \<open>
  The specification of the timer, on the list of requests alone: a request that is due is sent
  again, or given up after five transmissions; giving one up ends the round.
\<close>

abbreviation due :: "clock \<Rightarrow> nat \<Rightarrow> ArpRequest \<Rightarrow> bool" where
  "due clk i r \<equiv> seconds 1 < clk i - timeSent r"

fun tick_requests :: "clock \<Rightarrow> nat \<Rightarrow> ArpRequest list \<Rightarrow> ArpRequest list" where
  "tick_requests clk i [] = []"
| "tick_requests clk i (r # rs) =
     (if due clk i r then
        (if MAX_SENT_TIME \<le> nTimesSent r then rs
         else r\<lparr>timeSent := clk (Suc i), nTimesSent := nTimesSent r + 1\<rparr> # tick_requests clk (i + 2) rs)
      else r # tick_requests clk (i + 2) rs)"

definition request_frame :: "RoutingTable \<Rightarrow> Interface list \<Rightarrow> u32 \<Rightarrow> (buffer \<times> string) list" where
  "request_frame t ifs ip =
     (case rt_lookup t ip of
        Inl _ \<Rightarrow> []
      | Inr e \<Rightarrow>
          (case findIfaceByName ifs (rt_ifName e) of
             None \<Rightarrow> []
           | Some i \<Rightarrow> [(arp_request_bytes (if_addr i) (if_ip i) ip, if_name i)]))"

fun tick_frames ::
  "RoutingTable \<Rightarrow> Interface list \<Rightarrow> clock \<Rightarrow> nat \<Rightarrow> ArpRequest list \<Rightarrow> (buffer \<times> string) list" where
  "tick_frames t ifs clk i [] = []"
| "tick_frames t ifs clk i (r # rs) =
     (if due clk i r then
        (if MAX_SENT_TIME \<le> nTimesSent r then []
         else request_frame t ifs (ar_ip r) @ tick_frames t ifs clk (i + 2) rs)
      else tick_frames t ifs clk (i + 2) rs)"

text \<open>Every address that is asked for has a route.\<close>

definition routable :: "SimpleRouter \<Rightarrow> ArpRequest list \<Rightarrow> bool" where
  "routable s rs \<longleftrightarrow> (\<forall>r \<in> set rs. \<exists>e. rt_lookup (m_routingTable s) (ar_ip r) = Inr e)"

lemma deref_middle:
  assumes "distinct (map ar_ptr (xs @ r # ys))" and "m_arpRequests c = xs @ r # ys"
  shows "deref_request c (ar_ptr r) = Some r"
proof -
  have "find (\<lambda>x. ar_ptr x = ar_ptr r) xs = None"
    using distinct_middle(1) [OF assms(1)] by (auto simp: find_None_iff)
  with assms(2) show ?thesis by (simp add: deref_request_def find_append)
qed

lemma update_middle:
  assumes "distinct (map ar_ptr (xs @ r # ys))" and "m_arpRequests c = xs @ r # ys"
  shows "update_request (ar_ptr r) f c = c\<lparr>m_arpRequests := xs @ f r # ys\<rparr>"
proof -
  have "map (\<lambda>x. if ar_ptr x = ar_ptr r then f x else x) xs = xs"
    "map (\<lambda>x. if ar_ptr x = ar_ptr r then f x else x) ys = ys"
    using distinct_middle [OF assms(1)] by (auto intro!: map_idI)
  with assms(2) show ?thesis by (simp add: update_request_def)
qed

lemma remove_middle:
  assumes "distinct (map ar_ptr (xs @ r # ys))" and "m_arpRequests c = xs @ r # ys"
  shows "removeRequest (ar_ptr r) c = c\<lparr>m_arpRequests := xs @ ys\<rparr>"
proof -
  have "filter (\<lambda>x. ar_ptr x \<noteq> ar_ptr r) xs = xs" "filter (\<lambda>x. ar_ptr x \<noteq> ar_ptr r) ys = ys"
    using distinct_middle [OF assms(1)] by (auto intro!: filter_True)
  with assms(2) show ?thesis by (simp add: removeRequest_def)
qed

lemma handleArpRequest_send:
  assumes ok: "routes_ok s" "rt_lookup (m_routingTable s) (ar_ip r) = Inr e"
    and r: "distinct (map ar_ptr (xs @ r # ys))" "m_arpRequests (m_arp s) = xs @ r # ys"
    and due: "due clk i r" "\<not> MAX_SENT_TIME \<le> nTimesSent r"
  shows "handleArpRequest clk i (ar_ptr r) b s =
    Done b (s\<lparr>m_arp := (m_arp s)\<lparr>m_arpRequests := xs @
        r\<lparr>timeSent := clk (Suc i), nTimesSent := nTimesSent r + 1\<rparr> # ys\<rparr>,
      sent := sent s @ request_frame (m_routingTable s) (m_ifaces s) (ar_ip r)\<rparr>)"
proof -
  obtain ifc where "findIfaceByName (m_ifaces s) (rt_ifName e) = Some ifc"
    and "length (if_addr ifc) = 6"
    by (rule routes_ok_route [OF ok])
  then show ?thesis
    using ok due
    by (simp add: handleArpRequest_def deref_middle [OF r] update_middle [OF r] request_frame_def
        arp_request_packet_eq chunk_all sendPacket_def)
qed

lemma check_requests_refines:
  assumes "routes_ok s" and "routable s todo"
    and "distinct (map ar_ptr (before @ todo))" and "m_arpRequests (m_arp s) = before @ todo"
  shows "check_requests clk i (map ar_ptr todo) s =
    Done () (s\<lparr>m_arp := (m_arp s)\<lparr>m_arpRequests := before @ tick_requests clk i todo\<rparr>,
      sent := sent s @ tick_frames (m_routingTable s) (m_ifaces s) clk i todo\<rparr>)"
  using assms
proof (induction todo arbitrary: before i s)
  case Nil
  then show ?case by simp
next
  case (Cons r todo)
  note r = Cons.prems(3,4)
  have IH: "check_requests clk (i + 2) (map ar_ptr todo) s' =
    Done () (s'\<lparr>m_arp := (m_arp s')\<lparr>m_arpRequests := (before @ [x]) @ tick_requests clk (i + 2) todo\<rparr>,
      sent := sent s' @ tick_frames (m_routingTable s') (m_ifaces s') clk (i + 2) todo\<rparr>)"
    if "same_config s s'" "m_arpRequests (m_arp s') = (before @ [x]) @ todo" "ar_ptr x = ar_ptr r" for s' x
  proof (rule Cons.IH)
    show "routes_ok s'" using Cons.prems(1) that(1) by (simp add: routes_ok_same)
    show "routable s' todo" using Cons.prems(2) that(1) by (simp add: routable_def same_config_def)
    show "distinct (map ar_ptr ((before @ [x]) @ todo))" using Cons.prems(3) that(3) by simp
  qed (rule that(2))
  show ?case
  proof (cases "due clk i r")
    case False
    then have "handleArpRequest clk i (ar_ptr r) False s = Done False s"
      by (simp add: handleArpRequest_def deref_middle [OF r])
    then show ?thesis using False r IH [of s r] by simp
  next
    case due: True
    show ?thesis
    proof (cases "MAX_SENT_TIME \<le> nTimesSent r")
      case True
      then have "handleArpRequest clk i (ar_ptr r) False s =
          Done True (s\<lparr>m_arp := (m_arp s)\<lparr>m_arpRequests := before @ todo\<rparr>\<rparr>)"
        using due by (simp add: handleArpRequest_def deref_middle [OF r] remove_middle [OF r])
      then show ?thesis using True due by simp
    next
      case False
      obtain e where e: "rt_lookup (m_routingTable s) (ar_ip r) = Inr e"
        using Cons.prems(2) by (auto simp: routable_def)
      let ?x = "r\<lparr>timeSent := clk (Suc i), nTimesSent := nTimesSent r + 1\<rparr>"
      let ?s = "s\<lparr>m_arp := (m_arp s)\<lparr>m_arpRequests := before @ ?x # todo\<rparr>,
        sent := sent s @ request_frame (m_routingTable s) (m_ifaces s) (ar_ip r)\<rparr>"
      have "same_config s ?s" "m_arpRequests (m_arp ?s) = (before @ [?x]) @ todo" "ar_ptr ?x = ar_ptr r"
        by (simp_all add: same_config_def)
      note IH [OF this] handleArpRequest_send [OF Cons.prems(1) e r, of clk i False]
      then show ?thesis using due False by simp
    qed
  qed
qed

lemma expire_requests [simp]: "m_arpRequests (expire_entries now c) = m_arpRequests c"
  by (simp add: expire_entries_def)

text \<open>One tick, on the whole state: the entries of at most 30 seconds stay.\<close>

definition fresh_entries :: "time_point \<Rightarrow> ArpEntry list \<Rightarrow> ArpEntry list" where
  "fresh_entries now = filter (\<lambda>e. isValid e \<and> now - timeAdded e \<le> SR_ARPCACHE_TO)"

lemma ticker_body_refines:
  assumes "router_inv s" and "routes_ok s" and "routable s (m_arpRequests (m_arp s))"
  shows "ticker_body clk s = Done ()
    (s\<lparr>m_arp := (m_arp s)\<lparr>m_cacheEntries := fresh_entries (clk 0) (m_cacheEntries (m_arp s)),
         m_arpRequests := tick_requests clk 1 (m_arpRequests (m_arp s))\<rparr>,
       sent := sent s @
         tick_frames (m_routingTable s) (m_ifaces s) clk 1 (m_arpRequests (m_arp s))\<rparr>)"
proof -
  let ?c = "expire_entries (clk 0) (m_arp s)"
  let ?s = "s\<lparr>m_arp := ?c\<rparr>"
  let ?rs = "m_arpRequests (m_arp s)"
  have inv: "arp_inv ?c" using assms(1) by (auto intro: arp_inv_expire)
  have same: "same_config s ?s" by simp
  have "check_requests clk 1 (map ar_ptr ?rs) ?s = Done ()
      (?s\<lparr>m_arp := (m_arp ?s)\<lparr>m_arpRequests := [] @ tick_requests clk 1 ?rs\<rparr>,
        sent := sent ?s @ tick_frames (m_routingTable ?s) (m_ifaces ?s) clk 1 ?rs\<rparr>)"
  proof (rule check_requests_refines)
    show "routes_ok ?s" using assms(2) routes_ok_same [OF same] by simp
    show "routable ?s ?rs" using assms(3) by (simp add: routable_def)
    show "distinct (map ar_ptr ([] @ ?rs))" using inv by (simp add: arp_inv_def)
  qed simp
  moreover have "m_cacheEntries (remove_invalid (?c\<lparr>m_arpRequests := rs\<rparr>)) =
      fresh_entries (clk 0) (m_cacheEntries (m_arp s))" for rs
    using inv remove_invalid_eq [of "?c\<lparr>m_arpRequests := rs\<rparr>"]
    by (simp add: fresh_entries_def filter_valid_expire arp_inv_def)
  then have "remove_invalid (?c\<lparr>m_arpRequests := rs\<rparr>) = (m_arp s)\<lparr>m_cacheEntries :=
      fresh_entries (clk 0) (m_cacheEntries (m_arp s)), m_arpRequests := rs\<rparr>" for rs
    by (simp add: remove_invalid_def expire_entries_def)
  ultimately show ?thesis
    by (simp add: ticker_body_def periodicCheckArpRequestsAndCacheEntries_def)
qed

section \<open>The queue drains\<close>

fun run_ticks :: "clock list \<Rightarrow> SimpleRouter \<Rightarrow> (SimpleRouter, unit) outcome" where
  "run_ticks [] s = Done () s"
| "run_ticks (c # cs) s = oc_bind (ticker_body c s) (\<lambda>_ s. run_ticks cs s)"

text \<open>\<^verbatim>\<open>sleep_for\<close> keeps the readings of two ticks more than a second apart.\<close>

fun spaced :: "time_point \<Rightarrow> clock list \<Rightarrow> bool" where
  "spaced t [] = True"
| "spaced t (c # cs) = (\<exists>t'. (\<forall>i. t + seconds 1 < c i \<and> c i \<le> t') \<and> spaced t' cs)"

text \<open>The rounds a request can still take part in.\<close>

definition rounds_left :: "ArpRequest list \<Rightarrow> nat" where
  "rounds_left rs = sum_list (map (\<lambda>r. 6 - unat (nTimesSent r)) rs)"

lemma nTimesSent_step:
  assumes "\<not> MAX_SENT_TIME \<le> (n :: u32)"
  shows "unat (n + 1) = Suc (unat n)" and "unat n < 5"
proof -
  show "unat n < 5" using assms by (simp add: MAX_SENT_TIME_def not_le word_less_nat_alt)
  then show "unat (n + 1) = Suc (unat n)" by (simp add: unat_word_ariths)
qed

lemma rounds_left_le: "rounds_left (tick_requests clk i rs) \<le> rounds_left rs"
proof (induction clk i rs rule: tick_requests.induct)
  case (2 clk i r rs)
  then show ?case
    using nTimesSent_step [of "nTimesSent r"] by (auto simp: rounds_left_def)
qed (simp add: rounds_left_def)

lemma rounds_left_less:
  assumes "rs \<noteq> []" and "\<forall>r \<in> set rs. request_ok r" and "\<forall>r \<in> set rs. \<forall>j. due clk j r"
  shows "rounds_left (tick_requests clk i rs) < rounds_left rs"
proof (cases rs)
  case (Cons r rs')
  show ?thesis
  proof (cases "MAX_SENT_TIME \<le> nTimesSent r")
    case True
    have "nTimesSent r \<le> MAX_SENT_TIME" using assms(2) Cons by (simp add: request_ok_def)
    then have "unat (nTimesSent r) \<le> 5" by (simp add: MAX_SENT_TIME_def word_le_nat_alt)
    then show ?thesis using Cons assms(3) True by (simp add: rounds_left_def)
  next
    case False
    then show ?thesis
      using Cons assms(3) nTimesSent_step [of "nTimesSent r"] rounds_left_le [of clk "i + 2" rs']
      by (simp add: rounds_left_def)
  qed
qed (use assms in simp)

lemma tick_requests_ip: "r \<in> set (tick_requests clk i rs) \<Longrightarrow> \<exists>q \<in> set rs. ar_ip r = ar_ip q"
  by (induction clk i rs rule: tick_requests.induct) (auto split: if_splits)

lemma tick_requests_time:
  "r \<in> set (tick_requests clk i rs) \<Longrightarrow> r \<in> set rs \<or> (\<exists>j. timeSent r = clk j)"
  by (induction clk i rs rule: tick_requests.induct) (auto split: if_splits)

lemma ticker_body_next:
  assumes s: "router_inv s" "routes_ok s" "routable s (m_arpRequests (m_arp s))"
    and time: "\<forall>r \<in> set (m_arpRequests (m_arp s)). timeSent r \<le> t"
    and clk: "\<forall>i. t + seconds 1 < clk i \<and> clk i \<le> t'"
  obtains s' where "ticker_body clk s = Done () s'" and "same_config s s'"
    and "router_inv s'" "routes_ok s'" "routable s' (m_arpRequests (m_arp s'))"
    and "m_arpRequests (m_arp s') = tick_requests clk 1 (m_arpRequests (m_arp s))"
    and "sent s' = sent s @ tick_frames (m_routingTable s) (m_ifaces s) clk 1 (m_arpRequests (m_arp s))"
    and "\<forall>r \<in> set (m_arpRequests (m_arp s')). timeSent r \<le> t'"
    and "\<forall>r \<in> set (m_arpRequests (m_arp s)). \<forall>j. due clk j r"
proof -
  note d = ticker_body_refines [OF s, of clk]
  let ?s = "s\<lparr>m_arp := (m_arp s)\<lparr>m_cacheEntries := fresh_entries (clk 0) (m_cacheEntries (m_arp s)),
         m_arpRequests := tick_requests clk 1 (m_arpRequests (m_arp s))\<rparr>,
       sent := sent s @
         tick_frames (m_routingTable s) (m_ifaces s) clk 1 (m_arpRequests (m_arp s))\<rparr>"
  have same: "same_config s ?s" by (simp add: same_config_def)
  have tt: "t \<le> t'" using clk [rule_format, of 0] by simp
  show ?thesis
  proof (rule that [OF d same])
    show "router_inv ?s" using ticker_body_inv [OF s(1), of clk] by (simp add: d)
    show "routes_ok ?s" using s(2) routes_ok_same [OF same] by simp
    show "routable ?s (m_arpRequests (m_arp ?s))"
      using s(3) tick_requests_ip by (fastforce simp: routable_def)
    show "\<forall>r \<in> set (m_arpRequests (m_arp ?s)). timeSent r \<le> t'"
      using tick_requests_time time clk tt by fastforce
    show "\<forall>r \<in> set (m_arpRequests (m_arp s)). \<forall>j. due clk j r"
    proof (intro ballI allI)
      fix r j assume "r \<in> set (m_arpRequests (m_arp s))"
      then have "timeSent r \<le> t" "t + seconds 1 < clk j" using time clk by auto
      then show "due clk j r" by linarith
    qed
  qed simp_all
qed

text \<open>
  The thread: before each turn it looks whether it should stop. \<open>False\<close>: the list of turns ended first.
  The destructor sets the flag, here during turn \<open>k\<close>, and waits for the thread to return.
\<close>

fun ticker :: "(bool \<times> clock) list \<Rightarrow> SimpleRouter \<Rightarrow> (SimpleRouter, bool) outcome" where
  "ticker [] s = Done False s"
| "ticker ((m_shouldStop, clk) # turns) s =
     (if m_shouldStop then Done True s else oc_bind (ticker_body clk s) (\<lambda>_ s. ticker turns s))"

definition destroy_cache :: "nat \<Rightarrow> clock list \<Rightarrow> SimpleRouter \<Rightarrow> (SimpleRouter, bool) outcome" where
  "destroy_cache k clks = ticker (zip (replicate k False @ replicate (length clks - k) True) clks)"

lemma ticker_eq:
  "ticker turns s = oc_bind (run_ticks (map snd (takeWhile (\<lambda>x. \<not> fst x) turns)) s) (\<lambda>_ s. Done (\<exists>x \<in> set turns. fst x) s)"
proof (induction turns arbitrary: s)
  case (Cons x turns)
  then show ?case by (cases x; cases "ticker_body (snd x) s") auto
qed simp

text \<open>The destructor returns, after the turn in which the flag was set.\<close>

lemma destroy_cache_eq: "k < length clks \<Longrightarrow> destroy_cache k clks s = oc_bind (run_ticks (take k clks) s) (\<lambda>_ s. Done True s)"
proof (induction k arbitrary: clks s)
  case 0
  then show ?case by (cases clks) (simp_all add: destroy_cache_def)
next
  case (Suc k)
  then obtain c cs where clks: "clks = c # cs" "k < length cs" by (cases clks) auto
  show ?case
    using Suc.IH [OF clks(2)] by (cases "ticker_body c s") (simp_all add: clks(1) destroy_cache_def)
qed

lemma run_ticks_drain:
  assumes "router_inv s" "routes_ok s" "routable s (m_arpRequests (m_arp s))"
    and "\<forall>r \<in> set (m_arpRequests (m_arp s)). timeSent r \<le> t" and "spaced t cs"
    and "rounds_left (m_arpRequests (m_arp s)) \<le> length cs"
  shows "\<exists>s'. run_ticks cs s = Done () s' \<and> m_arpRequests (m_arp s') = []"
  using assms
proof (induction cs arbitrary: s t)
  case Nil
  have "rounds_left (r # rs) \<noteq> 0" if "request_ok r" for r rs
  proof -
    have "unat (nTimesSent r) \<le> 5" using that by (simp add: request_ok_def MAX_SENT_TIME_def word_le_nat_alt)
    then show ?thesis by (simp add: rounds_left_def)
  qed
  with Nil show ?case
    by (cases "m_arpRequests (m_arp s)") (auto simp: router_inv_def arp_inv_def)
next
  case (Cons c cs)
  from Cons.prems(5) obtain t' where t': "\<forall>i. t + seconds 1 < c i \<and> c i \<le> t'" "spaced t' cs" by auto
  obtain s' where s': "ticker_body c s = Done () s'" "router_inv s'" "routes_ok s'"
    "routable s' (m_arpRequests (m_arp s'))"
    "m_arpRequests (m_arp s') = tick_requests c 1 (m_arpRequests (m_arp s))"
    "\<forall>r \<in> set (m_arpRequests (m_arp s')). timeSent r \<le> t'"
    "\<forall>r \<in> set (m_arpRequests (m_arp s)). \<forall>j. due c j r"
    by (rule ticker_body_next [OF Cons.prems(1-4) t'(1)])
  have "\<forall>r \<in> set (m_arpRequests (m_arp s)). request_ok r"
    using Cons.prems(1) by (auto simp: router_inv_def arp_inv_def)
  then have "rounds_left (m_arpRequests (m_arp s')) \<le> length cs"
    using rounds_left_less [of "m_arpRequests (m_arp s)" c 1] s'(5,7) Cons.prems(6)
    by (cases "m_arpRequests (m_arp s) = []") (auto simp: rounds_left_def)
  from Cons.IH [OF s'(2-4,6) t'(2) this] show ?case by (simp add: s'(1))
qed

text \<open>A request alone in the queue is sent until its count is five, then given up.\<close>

lemma run_ticks_single:
  assumes "router_inv s" "routes_ok s" "routable s [r]" "m_arpRequests (m_arp s) = [r]"
    and "timeSent r \<le> t" and "spaced t cs" and "length cs = 6 - unat (nTimesSent r)"
  shows "\<exists>s'. run_ticks cs s = Done () s' \<and> m_arpRequests (m_arp s') = [] \<and>
    sent s' = sent s @ concat (replicate (5 - unat (nTimesSent r))
      (request_frame (m_routingTable s) (m_ifaces s) (ar_ip r)))"
  using assms
proof (induction cs arbitrary: s t r)
  case Nil
  have "unat (nTimesSent r) \<le> 5"
    using Nil(1,4) by (simp add: router_inv_def arp_inv_def request_ok_def MAX_SENT_TIME_def word_le_nat_alt)
  with Nil show ?case by simp
next
  case (Cons c cs)
  from Cons.prems(6) obtain t' where t': "\<forall>i. t + seconds 1 < c i \<and> c i \<le> t'" "spaced t' cs" by auto
  have rs: "routable s (m_arpRequests (m_arp s))" "\<forall>r \<in> set (m_arpRequests (m_arp s)). timeSent r \<le> t"
    using Cons.prems(3-5) by simp_all
  obtain s' where s': "ticker_body c s = Done () s'" "same_config s s'" "router_inv s'" "routes_ok s'"
    "routable s' (m_arpRequests (m_arp s'))"
    "m_arpRequests (m_arp s') = tick_requests c 1 (m_arpRequests (m_arp s))"
    "sent s' = sent s @ tick_frames (m_routingTable s) (m_ifaces s) c 1 (m_arpRequests (m_arp s))"
    "\<forall>r \<in> set (m_arpRequests (m_arp s')). timeSent r \<le> t'"
    "\<forall>r \<in> set (m_arpRequests (m_arp s)). \<forall>j. due c j r"
    by (rule ticker_body_next [OF Cons.prems(1,2) rs t'(1)])
  have due: "due c 1 r" using s'(9) Cons.prems(4) by simp
  show ?case
  proof (cases "MAX_SENT_TIME \<le> nTimesSent r")
    case True
    then have "5 \<le> unat (nTimesSent r)" by (simp add: MAX_SENT_TIME_def word_le_nat_alt)
    moreover from this Cons.prems(7) have "length cs = 0" unfolding list.size by arith
    ultimately have "cs = []" and "5 - unat (nTimesSent r) = 0" by simp_all
    then show ?thesis using s' due True Cons.prems(4) by simp
  next
    case False
    let ?r = "r\<lparr>timeSent := c 2, nTimesSent := nTimesSent r + 1\<rparr>"
    have r: "m_arpRequests (m_arp s') = [?r]"
      using s'(6) due False Cons.prems(4) by (simp add: numeral_2_eq_2)
    note n = nTimesSent_step [OF False]
    have "\<exists>s''. run_ticks cs s' = Done () s'' \<and> m_arpRequests (m_arp s'') = [] \<and>
      sent s'' = sent s' @ concat (replicate (5 - unat (nTimesSent ?r))
        (request_frame (m_routingTable s') (m_ifaces s') (ar_ip ?r)))"
      by (rule Cons.IH [OF s'(3,4) _ r _ t'(2)]) (use s'(5,8) r n Cons.prems(7) in simp_all)
    moreover have "5 - unat (nTimesSent r) = Suc (5 - unat (nTimesSent ?r))" using n by simp
    ultimately show ?thesis
      using s'(1,2,7) due False Cons.prems(4) by (simp add: same_config_def)
  qed
qed

section \<open>No undefined behaviour\<close>

lemma send_packets_of_safe:
  "arp_wf h \<Longrightarrow> \<forall>p \<in> set ps. 34 \<le> length (pp_packet p) \<Longrightarrow> routes_ok s \<Longrightarrow>
   \<not> is_undef (send_packets_of h ip ps s)"
proof (cases "rt_lookup (m_routingTable s) ip")
  case (Inl m)
  assume "arp_wf h" "\<forall>p \<in> set ps. 34 \<le> length (pp_packet p)"
  with Inl show ?thesis by (cases ps) (simp_all add: pending_frame_bytes)
next
  case (Inr e)
  assume a: "arp_wf h" "\<forall>p \<in> set ps. 34 \<le> length (pp_packet p)" "routes_ok s"
  obtain i where "findIfaceByName (m_ifaces s) (rt_ifName e) = Some i"
    by (rule routes_ok_route [OF a(3) Inr])
  from send_packets_of_Done [OF a(1,2) Inr this] show ?thesis by simp
qed

lemma sendPendingPackets_safe:
  assumes "arp_wf h" and "router_inv s" and "routes_ok s"
  shows "\<not> is_undef (sendPendingPackets h ip s)"
proof (cases "find_request (m_arp s) ip")
  case (Some r)
  then have "\<forall>p \<in> set (packets r). 34 \<le> length (pp_packet p)"
    using assms(2) pending_ok by (auto simp: router_inv_def request_ok_def)
  from send_packets_of_safe [OF assms(1) this assms(3)] show ?thesis
    by (simp add: sendPendingPackets_def Some is_undef_bind)
qed (simp add: sendPendingPackets_def)

lemma check_requests_safe:
  assumes "routes_ok s" and "distinct (map ar_ptr (before @ todo))" and "m_arpRequests (m_arp s) = before @ todo"
  shows "\<not> is_undef (check_requests clk i (map ar_ptr todo) s)"
  using assms
proof (induction todo arbitrary: before i s)
  case (Cons r todo)
  note r = Cons.prems(2,3)
  have IH: "\<not> is_undef (check_requests clk (i + 2) (map ar_ptr todo) s')"
    if "same_config s s'" "m_arpRequests (m_arp s') = (before @ [x]) @ todo" "ar_ptr x = ar_ptr r" for s' x
  proof (rule Cons.IH)
    show "routes_ok s'" using Cons.prems(1) that(1) by (simp add: routes_ok_same)
    show "distinct (map ar_ptr ((before @ [x]) @ todo))" using Cons.prems(2) that(3) by simp
  qed (rule that(2))
  consider (early) "\<not> due clk i r" | (last) "due clk i r" "MAX_SENT_TIME \<le> nTimesSent r"
    | (again) "due clk i r" "\<not> MAX_SENT_TIME \<le> nTimesSent r" by blast
  then show ?case
  proof cases
    case early
    then have "handleArpRequest clk i (ar_ptr r) False s = Done False s"
      by (simp add: handleArpRequest_def deref_middle [OF r])
    then show ?thesis using r IH [of s r] by simp
  next
    case last
    then show ?thesis by (simp add: handleArpRequest_def deref_middle [OF r])
  next
    case again
    show ?thesis
    proof (cases "rt_lookup (m_routingTable s) (ar_ip r)")
      case (Inl m)
      then show ?thesis using again by (simp add: handleArpRequest_def deref_middle [OF r])
    next
      case (Inr e)
      let ?x = "r\<lparr>timeSent := clk (Suc i), nTimesSent := nTimesSent r + 1\<rparr>"
      let ?s = "s\<lparr>m_arp := (m_arp s)\<lparr>m_arpRequests := before @ ?x # todo\<rparr>,
        sent := sent s @ request_frame (m_routingTable s) (m_ifaces s) (ar_ip r)\<rparr>"
      have "same_config s ?s" "m_arpRequests (m_arp ?s) = (before @ [?x]) @ todo" "ar_ptr ?x = ar_ptr r"
        by (simp_all add: same_config_def)
      note IH [OF this] handleArpRequest_send [OF Cons.prems(1) Inr r, of clk i False]
      then show ?thesis using again by simp
    qed
  qed
qed simp

lemma ticker_body_safe:
  assumes "router_inv s" and "routes_ok s"
  shows "\<not> is_undef (ticker_body clk s)"
proof -
  let ?s = "s\<lparr>m_arp := expire_entries (clk 0) (m_arp s)\<rparr>"
  have inv: "arp_inv (m_arp s)" using assms(1) by auto
  have same: "same_config s ?s" by simp
  have "\<not> is_undef (check_requests clk 1 (map ar_ptr (m_arpRequests (m_arp s))) ?s)"
    by (rule check_requests_safe [where before = "[]"])
       (use inv assms(2) routes_ok_same [OF same] in \<open>simp_all add: arp_inv_def\<close>)
  then show ?thesis
    by (simp add: ticker_body_def periodicCheckArpRequestsAndCacheEntries_def is_undef_bind)
qed

end
