(* ===== verification/PacketHandling.thy ===== *)
theory PacketHandling
  imports ArpTimer
begin

unbundle bit_operations_syntax

text \<open>
  The frame handlers of \<^verbatim>\<open>simple-router.cpp\<close>: \<open>handlePacket\<close> and what it calls. A handler runs
  alone on the state; it ends in \<open>Done\<close>, in an exception that reaches the Ice run time
  (\<open>Raised\<close>), or in undefined behaviour (\<open>Undef\<close>). Local buffers are functional values and
  \<^verbatim>\<open>memcpy\<close> is \<open>mem_read\<close> followed by \<open>mem_write\<close>; what goes only to \<^verbatim>\<open>stderr\<close> and \<^verbatim>\<open>stdout\<close> is
  left out unless it can throw (\<open>show_arp\<close>, \<open>printIfaces\<close>): \<open>print_hdrs_buffer\<close> neither throws
  nor reads out of range on any buffer.
\<close>

section \<open>Reading the headers\<close>

definition getEthernetHeader :: "buffer \<Rightarrow> ethernet_hdr option" where
  "getEthernetHeader packet = map_option ethernet_hdr_of_bytes (mem_read 0 14 packet)"

definition getArpPacket :: "buffer \<Rightarrow> arp_hdr option" where
  "getArpPacket packet = map_option arp_hdr_of_bytes (mem_read 14 28 packet)"

definition getIpPacket :: "buffer \<Rightarrow> ip_hdr option" where
  "getIpPacket packet = map_option ip_hdr_of_bytes (mem_read 14 20 packet)"

definition getIcmpPacket :: "buffer \<Rightarrow> icmp_hdr option" where
  "getIcmpPacket packet = map_option icmp_hdr_of_bytes (mem_read 34 4 packet)"

section \<open>Learning addresses\<close>

text \<open>
  The lookup of a source address and, when it is not in the cache, the insertion of the
  Ethernet source of the packet. The request \<open>insertArpEntry\<close> returns is dropped.
\<close>

definition learn_source :: "time_point \<Rightarrow> buffer \<Rightarrow> u32 \<Rightarrow> SimpleRouter \<Rightarrow> (SimpleRouter, bool) outcome" where
  "learn_source now packet ip s =
     (case arp_lookup (m_arp s) ip of
        Some _ \<Rightarrow> Done False s
      | None \<Rightarrow>
          need OutOfBounds (mem_read 6 6 packet) (\<lambda>source.
            Done True (s\<lparr>m_arp := snd (insertArpEntry now source ip (m_arp s))\<rparr>)))"

section \<open>ARP\<close>

definition assembleArpInterfaceReplyPacket :: "Interface \<Rightarrow> ethernet_hdr \<Rightarrow> arp_hdr \<Rightarrow> buffer option" where
  "assembleArpInterfaceReplyPacket myInterface e_hdr arp_header = do {
     addr \<leftarrow> mem_read 0 6 (if_addr myInterface);
     let e_hdr = e_hdr\<lparr>ether_dhost := ether_shost e_hdr\<rparr>;
     let e_hdr = e_hdr\<lparr>ether_shost := addr\<rparr>;
     let arp_header = arp_header\<lparr>arp_op := htons 0x0002\<rparr>;
     let arp_header = arp_header\<lparr>arp_tip := arp_sip arp_header\<rparr>;
     let arp_header = arp_header\<lparr>arp_tha := arp_sha arp_header\<rparr>;
     let arp_header = arp_header\<lparr>arp_sip := if_ip myInterface\<rparr>;
     let arp_header = arp_header\<lparr>arp_sha := addr\<rparr>;
     let replyPacket = replicate 42 0;
     replyPacket \<leftarrow> mem_write 0 (ethernet_hdr_bytes e_hdr) replyPacket;
     mem_write 14 (arp_hdr_bytes arp_header) replyPacket
   }"

definition handleArpPacket ::
  "clock \<Rightarrow> buffer \<Rightarrow> ethernet_hdr \<Rightarrow> SimpleRouter \<Rightarrow> (SimpleRouter, unit) outcome" where
  "handleArpPacket clk packet e_hdr s =
     need OutOfBounds (getArpPacket packet) (\<lambda>arp_packet.
       if arp_op arp_packet = ntohs 0x0001 then
         oc_bind (learn_source (clk 1) packet (arp_sip arp_packet) s) (\<lambda>_ s.
           case findIfaceByIp (m_ifaces s) (arp_tip arp_packet) of
             None \<Rightarrow> Done () s
           | Some myInterface \<Rightarrow>
               need OutOfBounds (assembleArpInterfaceReplyPacket myInterface e_hdr arp_packet)
                 (\<lambda>replyPacket. Done () (sendPacket replyPacket (if_name myInterface) s)))
       else if arp_op arp_packet = htons 0x0002 then
         oc_bind (learn_source (clk 1) packet (arp_sip arp_packet) s) (\<lambda>learnt s.
           if learnt then sendPendingPackets arp_packet (arp_sip arp_packet) s else Done () s)
       else Done () s)"

section \<open>ICMP\<close>

text \<open>\<^verbatim>\<open>sizeof\<close> of a \<^verbatim>\<open>std::vector\<close>, which the code takes for the size of its contents.\<close>

definition sizeof_vector :: int where
  "sizeof_vector = 24"

text \<open>The echo reply, from the copy of the request on: the ICMP layer, the IP layer (whose
  checksum is computed into a \<^verbatim>\<open>uint8_t\<close>), the Ethernet layer.\<close>

definition icmp_echo_reply :: "int \<Rightarrow> Interface \<Rightarrow> buffer \<Rightarrow> buffer option" where
  "icmp_echo_reply time_exceed myInterface temp_packet = do {
     let icmp_type = (if time_exceed = 0 then 0x00 else 0x0b);
     icmp_sum \<leftarrow> cksum (drop 34 temp_packet) (sizeof_vector - 34);
     temp_packet \<leftarrow> mem_write 34 [icmp_type] temp_packet;
     temp_packet \<leftarrow> mem_write 36 (u16_bytes icmp_sum) temp_packet;
     temp_packet \<leftarrow> mem_write 24 [0x00] temp_packet;
     sm \<leftarrow> cksum (drop 14 temp_packet) 20;
     temp_packet \<leftarrow> mem_write 24 [ucast sm] temp_packet;
     temp_src_ip \<leftarrow> mem_read 30 4 temp_packet;
     src \<leftarrow> mem_read 26 4 temp_packet;
     temp_packet \<leftarrow> mem_write 30 src temp_packet;
     temp_packet \<leftarrow> mem_write 26 temp_src_ip temp_packet;
     shost \<leftarrow> mem_read 6 6 temp_packet;
     temp_packet \<leftarrow> mem_write 0 shost temp_packet;
     addr \<leftarrow> mem_read 0 6 (if_addr myInterface);
     mem_write 6 addr temp_packet
   }"

text \<open>The time-exceeded or port-unreachable message.\<close>

definition icmp_error_packet :: "Interface list \<Rightarrow> Interface \<Rightarrow> buffer \<Rightarrow> buffer option" where
  "icmp_error_packet ifaces myInterface packet = do {
     let temp_packet = replicate 70 0;
     headers \<leftarrow> mem_read 0 34 packet;
     temp_packet \<leftarrow> mem_write 0 headers temp_packet;
     original \<leftarrow> mem_read 14 28 packet;
     temp_packet \<leftarrow> mem_write 42 original temp_packet;
     dest \<leftarrow> mem_read 30 4 packet;
     let temp_dest_ip = u32_at 0 dest;
     let (icmp_type, icmp_code) =
       (if findIfaceByIp ifaces temp_dest_ip \<noteq> None then (0x03, 0x03) else (0x0b, 0x00));
     temp_packet \<leftarrow> mem_write 34 [icmp_type] temp_packet;
     temp_packet \<leftarrow> mem_write 35 [icmp_code] temp_packet;
     icmp_sum \<leftarrow> cksum (drop 34 temp_packet) (int (length temp_packet) - 34);
     temp_packet \<leftarrow> mem_write 36 (u16_bytes icmp_sum) temp_packet;
     l \<leftarrow> mem_read 16 2 temp_packet;
     let len = ntohs (u16_at 0 l) - 0x04;
     let len = htons len;
     temp_packet \<leftarrow> mem_write 24 (u16_bytes 0x00) temp_packet;
     temp_packet \<leftarrow> mem_write 23 [0x01] temp_packet;
     temp_packet \<leftarrow> mem_write 22 [0x40] temp_packet;
     temp_packet \<leftarrow> mem_write 16 (u16_bytes len) temp_packet;
     let temp_src_ip =
       (if findIfaceByIp ifaces temp_dest_ip \<noteq> None then temp_dest_ip else if_ip myInterface);
     src \<leftarrow> mem_read 26 4 temp_packet;
     temp_packet \<leftarrow> mem_write 30 src temp_packet;
     temp_packet \<leftarrow> mem_write 26 (u32_bytes temp_src_ip) temp_packet;
     sm \<leftarrow> cksum (drop 14 temp_packet) 20;
     temp_packet \<leftarrow> mem_write 24 (u16_bytes sm) temp_packet;
     shost \<leftarrow> mem_read 6 6 temp_packet;
     temp_packet \<leftarrow> mem_write 0 shost temp_packet;
     addr \<leftarrow> mem_read 0 6 (if_addr myInterface);
     mem_write 6 addr temp_packet
   }"

definition handleIcmpPacket ::
  "buffer \<Rightarrow> ethernet_hdr \<Rightarrow> int \<Rightarrow> SimpleRouter \<Rightarrow> (SimpleRouter, unit) outcome" where
  "handleIcmpPacket packet e_hdr time_exceed s =
     need OutOfBounds (getIcmpPacket packet) (\<lambda>icmp_packet.
       if icmp_type icmp_packet = 8 then
         need OutOfBounds (mem_write 36 (u16_bytes 0x0000) packet) (\<lambda>temp_packet.
         need OutOfBounds (cksum (drop 34 temp_packet) (sizeof_vector - 34)) (\<lambda>sm.
           if sm = 0xffff then
             need NullDeref (findIfaceByName (m_ifaces s) (temp_iface s)) (\<lambda>myInterface.
             need OutOfBounds (icmp_echo_reply time_exceed myInterface temp_packet) (\<lambda>temp_packet.
               Done () (sendPacket temp_packet (if_name myInterface) s)))
           else Done () s))
       else if time_exceed = 1 then
         need NullDeref (findIfaceByName (m_ifaces s) (temp_iface s)) (\<lambda>myInterface.
         need OutOfBounds (icmp_error_packet (m_ifaces s) myInterface packet) (\<lambda>temp_packet.
           Done () (sendPacket temp_packet (if_name myInterface) s)))
       else Done () s)"

section \<open>IP\<close>

definition assembleIPPacket :: "buffer \<Rightarrow> ip_hdr \<Rightarrow> ethernet_hdr \<Rightarrow> buffer option" where
  "assembleIPPacket replyPacket ip_header e_hdr = do {
     replyPacket \<leftarrow> mem_write 0 (ethernet_hdr_bytes e_hdr) replyPacket;
     mem_write 14 (ip_hdr_bytes ip_header) replyPacket
   }"

text \<open>The body of the \<^verbatim>\<open>try\<close>: the exception of the routing table ends in the handler, which
  only prints.\<close>

definition forward_packet ::
  "buffer \<Rightarrow> ip_hdr \<Rightarrow> ethernet_hdr \<Rightarrow> byte \<Rightarrow> SimpleRouter \<Rightarrow> (SimpleRouter, unit) outcome" where
  "forward_packet packet_send ip_packet e_hdr TTL s =
     (let ip_packet = ip_packet\<lparr>ip_ttl := TTL\<rparr> in
      case rt_lookup (m_routingTable s) (ip_dst ip_packet) of
        Inl _ \<Rightarrow> Done () s
      | Inr matched_entry \<Rightarrow>
          let ip_packet = ip_packet\<lparr>ip_sum := 0x0000\<rparr> in
          need OutOfBounds (cksum (ip_hdr_bytes ip_packet) 20) (\<lambda>sm.
          let ip_packet = ip_packet\<lparr>ip_sum := sm\<rparr>;
              dest_mac =
                (if ipToString (rt_dest matched_entry) = ''0.0.0.0''
                 then arp_lookup (m_arp s) (ip_dst ip_packet)
                 else arp_lookup (m_arp s) (rt_dest matched_entry)) in
          need NullDeref (findIfaceByName (m_ifaces s) (rt_ifName matched_entry)) (\<lambda>interToForward.
          need OutOfBounds (mem_read 0 6 (if_addr interToForward)) (\<lambda>addr.
          let e_hdr = e_hdr\<lparr>ether_shost := addr\<rparr> in
          need NullDeref dest_mac (\<lambda>dest_mac.
          need OutOfBounds (mem_read 0 6 (ae_mac dest_mac)) (\<lambda>mac.
          let e_hdr = e_hdr\<lparr>ether_dhost := mac\<rparr> in
          need OutOfBounds (assembleIPPacket packet_send ip_packet e_hdr) (\<lambda>packet_send.
            Done () (sendPacket packet_send (rt_ifName matched_entry) s))))))))"

definition handleIpPacket ::
  "clock \<Rightarrow> buffer \<Rightarrow> ethernet_hdr \<Rightarrow> SimpleRouter \<Rightarrow> (SimpleRouter, unit) outcome" where
  "handleIpPacket clk packet e_hdr s =
     need OutOfBounds (getIpPacket packet) (\<lambda>ip_packet.
     let TTL = ip_ttl ip_packet - 1 in
     need OutOfBounds (cksum (ip_hdr_bytes ip_packet) 20) (\<lambda>sm.
       if sm = 0xffff then
         let ip_packet = ip_packet\<lparr>ip_ttl := TTL\<rparr>;
             myInterface = findIfaceByIp (m_ifaces s) (ip_dst ip_packet) in
         oc_bind (learn_source (clk 1) packet (ip_src ip_packet) s) (\<lambda>_ s.
           if myInterface \<noteq> None then
             (if ip_p ip_packet = 0x01 then handleIcmpPacket packet e_hdr 0 s
              else if ip_p ip_packet = 0x11 then handleIcmpPacket packet e_hdr 1 s
              else Done () s)
           else if TTL \<le> 0 then
             oc_bind (learn_source (clk 2) packet (ip_src ip_packet) s) (\<lambda>_ s.
               handleIcmpPacket packet e_hdr 1 s)
           else if arp_lookup (m_arp s) (ip_dst ip_packet) \<noteq> None then
             forward_packet packet ip_packet e_hdr TTL s
           else
             need NullDeref (findIfaceByMac (m_ifaces s) (ether_dhost e_hdr)) (\<lambda>myInter.
               Done () (s\<lparr>m_arp :=
                 snd (queueRequest (ip_dst ip_packet) packet (if_name myInter) (m_arp s))\<rparr>)))
       else Done () s))"

section \<open>handlePacket\<close>

definition handlePacket ::
  "clock \<Rightarrow> buffer \<Rightarrow> string \<Rightarrow> SimpleRouter \<Rightarrow> (SimpleRouter, unit) outcome" where
  "handlePacket clk packet inIface s =
     (let s = s\<lparr>temp_iface := inIface\<rparr> in
      case findIfaceByName (m_ifaces s) inIface of
        None \<Rightarrow> Done () s
      | Some iface \<Rightarrow>
          (case (show_arp (clk 0) (m_arp s), printIfaces (m_ifaces s)) of
             (Some _, Some _) \<Rightarrow>
               need OutOfBounds (getEthernetHeader packet) (\<lambda>ether_hdr.
                 if ether_type ether_hdr = ntohs 0x0806 then handleArpPacket clk packet ether_hdr s
                 else if ether_type ether_hdr = ntohs 0x0800 then handleIpPacket clk packet ether_hdr s
                 else Done () s)
           | _ \<Rightarrow> Raised ''out_of_range'' s))"

section \<open>Reading the fields of a frame\<close>

lemma getEthernetHeader_Some:
  "getEthernetHeader packet = Some e \<longleftrightarrow> 14 \<le> length packet \<and> e = ethernet_hdr_of_bytes (chunk 0 14 packet)"
  by (auto simp: getEthernetHeader_def mem_read_eq_Some)

lemma getArpPacket_Some:
  "getArpPacket packet = Some h \<longleftrightarrow> 42 \<le> length packet \<and> h = arp_hdr_of_bytes (chunk 14 28 packet)"
  by (auto simp: getArpPacket_def mem_read_eq_Some)

lemma getIpPacket_Some:
  "getIpPacket packet = Some h \<longleftrightarrow> 34 \<le> length packet \<and> h = ip_hdr_of_bytes (chunk 14 20 packet)"
  by (auto simp: getIpPacket_def mem_read_eq_Some)

lemma getIcmpPacket_Some:
  "getIcmpPacket packet = Some h \<longleftrightarrow> 38 \<le> length packet \<and> h = icmp_hdr_of_bytes (chunk 34 4 packet)"
  by (auto simp: getIcmpPacket_def mem_read_eq_Some)

lemma u16_at_iff:
  "k + 1 < length b \<Longrightarrow> u16_at k b = le16 x y \<longleftrightarrow> chunk k 2 b = [x, y]"
  by (simp add: u16_at_def chunk_two le16_inject)

lemma u16_at_chunk: "k + 1 < n \<Longrightarrow> off + n \<le> length b \<Longrightarrow> u16_at k (chunk off n b) = u16_at (off + k) b"
  by (simp add: u16_at_def nth_chunk)

lemma u32_at_chunk: "k + 4 \<le> n \<Longrightarrow> off + n \<le> length b \<Longrightarrow> u32_at k (chunk off n b) = u32_at (off + k) b"
  by (simp add: u32_at_def nth_chunk add.assoc)

lemma network_order:
  "ntohs 0x0806 = le16 0x08 0x06" "ntohs 0x0800 = le16 0x08 0x00"
  "ntohs 0x0001 = le16 0x00 0x01" "ntohs 0x0002 = le16 0x00 0x02"
  by (simp_all add: htons_def le16_def)

text \<open>The fields the handlers branch on, at their offsets in the frame.\<close>

lemma ether_type_at:
  "14 \<le> length packet \<Longrightarrow> ether_type (ethernet_hdr_of_bytes (chunk 0 14 packet)) = u16_at 12 packet"
  by (simp add: ethernet_hdr_of_bytes_def u16_at_chunk)

lemma ether_hosts_at:
  "14 \<le> length packet \<Longrightarrow> ether_shost (ethernet_hdr_of_bytes (chunk 0 14 packet)) = chunk 6 6 packet"
  "14 \<le> length packet \<Longrightarrow> ether_dhost (ethernet_hdr_of_bytes (chunk 0 14 packet)) = chunk 0 6 packet"
  by (simp_all add: ethernet_hdr_of_bytes_def chunk_chunk)

section \<open>What the learning step does\<close>

lemma arp_mac_None: "arp_mac c ip = None \<longleftrightarrow> arp_lookup c ip = None"
  by (simp add: arp_mac_def)

lemma learn_source_eq:
  "12 \<le> length packet \<Longrightarrow> learn_source now packet ip s =
     Done (arp_mac (m_arp s) ip = None)
       (s\<lparr>m_arp := arp.learn now (chunk 6 6 packet) ip (m_arp s)\<rparr>)"
  by (auto simp: learn_source_def arp.learn_def arp_mac_None mem_read_Some split: option.splits)

lemma arp_inv_learn:
  "arp_inv c \<Longrightarrow> length mac = 6 \<Longrightarrow> arp_inv (arp.learn now mac ip c)"
  by (simp add: arp.learn_def arp_mac_None arp_inv_insert)

lemma learn_requests [simp]: "m_arpRequests (arp.learn now mac ip c) = m_arpRequests c"
  by (simp add: arp.learn_def)

lemma pending_learn [simp]: "pending (arp.learn now mac ip c) = pending c"
  by (simp add: arp.learn_def)

lemma learn_source_inv:
  assumes "router_inv s"
  shows "oc_all (\<lambda>s'. router_inv s' \<and> same_config s s') (learn_source now packet ip s)"
proof -
  have "router_inv (s\<lparr>m_arp := snd (insertArpEntry now mac ip (m_arp s))\<rparr>)"
    if "arp_lookup (m_arp s) ip = None" "length mac = 6" for mac
    using assms that by (auto intro: router_inv_arp arp_inv_insert)
  then show ?thesis
    using assms by (auto intro!: oc_all_need simp: learn_source_def mem_read_eq_Some split: option.split)
qed

section \<open>The frames the handlers build\<close>

definition arp_reply_bytes :: "Interface \<Rightarrow> ethernet_hdr \<Rightarrow> arp_hdr \<Rightarrow> buffer" where
  "arp_reply_bytes i e h =
     (let addr = chunk 0 6 (if_addr i) in
      ether_shost e @ addr @ u16_bytes (ether_type e) @ u16_bytes (arp_hrd h) @ u16_bytes (arp_pro h) @
      [arp_hln h, arp_pln h, 0x00, 0x02] @ addr @ u32_bytes (if_ip i) @ arp_sha h @
      u32_bytes (arp_sip h))"

lemma arp_reply_packet_eq:
  assumes "6 \<le> length (if_addr i)" and "ethernet_wf e" and "arp_wf h"
  shows "assembleArpInterfaceReplyPacket i e h = Some (arp_reply_bytes i e h)"
proof -
  let ?a = "chunk 0 6 (if_addr i)"
  let ?e = "e\<lparr>ether_dhost := ether_shost e, ether_shost := ?a\<rparr>"
  let ?h = "h\<lparr>arp_op := htons 0x0002, arp_tip := arp_sip h, arp_tha := arp_sha h,
    arp_sip := if_ip i, arp_sha := ?a\<rparr>"
  have wf: "ethernet_wf ?e" "arp_wf ?h" using assms by (simp_all add: ethernet_wf_def arp_wf_def)
  have "assembleArpInterfaceReplyPacket i e h =
      Some (put 14 (arp_hdr_bytes ?h) (put 0 (ethernet_hdr_bytes ?e) (replicate 42 0)))"
    using wf assms by (simp add: assembleArpInterfaceReplyPacket_def Let_def mem_read_Some mem_write_Some)
  also have "put 14 (arp_hdr_bytes ?h) (put 0 (ethernet_hdr_bytes ?e) (replicate 42 0)) =
      ethernet_hdr_bytes ?e @ arp_hdr_bytes ?h"
    by (rule put_two) (use wf in simp_all)
  also have "\<dots> = arp_reply_bytes i e h"
    by (simp add: arp_reply_bytes_def ethernet_hdr_bytes_def arp_hdr_bytes_def network_order
        le16_bytes_u16 Let_def)
  finally show ?thesis .
qed

lemma arp_reply_packet_None:
  "length (if_addr i) < 6 \<Longrightarrow> assembleArpInterfaceReplyPacket i e h = None"
  by (simp add: assembleArpInterfaceReplyPacket_def mem_read_def)

text \<open>A frame of at least 34 bytes, cut where the IP code writes.\<close>

lemma frame_split:
  assumes "34 \<le> length p"
  obtains d s ty vt l w tt pr k1 k2 si di r where
    "p = d @ s @ ty @ vt @ l @ w @ tt @ pr @ k1 @ k2 @ si @ di @ r"
    and "length d = 6" "length s = 6" "length ty = 2" "length vt = 2" "length l = 2" "length w = 4"
      "length tt = 1" "length pr = 1" "length k1 = 1" "length k2 = 1" "length si = 4" "length di = 4"
proof -
  have step: "drop k p = chunk k n p @ drop (k + n) p" if "k + n \<le> 34" for k n
    using assms that by (simp add: chunk_append_drop)
  have "p = chunk 0 6 p @ drop 6 p" using step [of 0 6] by simp
  also have "drop 6 p = chunk 6 6 p @ drop 12 p" using step [of 6 6] by simp
  also have "drop 12 p = chunk 12 2 p @ drop 14 p" using step [of 12 2] by simp
  also have "drop 14 p = chunk 14 2 p @ drop 16 p" using step [of 14 2] by simp
  also have "drop 16 p = chunk 16 2 p @ drop 18 p" using step [of 16 2] by simp
  also have "drop 18 p = chunk 18 4 p @ drop 22 p" using step [of 18 4] by simp
  also have "drop 22 p = chunk 22 1 p @ drop 23 p" using step [of 22 1] by simp
  also have "drop 23 p = chunk 23 1 p @ drop 24 p" using step [of 23 1] by simp
  also have "drop 24 p = chunk 24 1 p @ drop 25 p" using step [of 24 1] by simp
  also have "drop 25 p = chunk 25 1 p @ drop 26 p" using step [of 25 1] by simp
  also have "drop 26 p = chunk 26 4 p @ drop 30 p" using step [of 26 4] by simp
  also have "drop 30 p = chunk 30 4 p @ drop 34 p" using step [of 30 4] by simp
  finally show ?thesis by (rule that) (use assms in simp_all)
qed

lemma cksum_total: "n \<le> length b \<Longrightarrow> n \<le> 65536 \<Longrightarrow> \<exists>c. cksum b (int n) = Some c"
  by (rule ck.total)

lemma cksum_take:
  assumes "n \<le> length b" and "n \<le> 65536"
  shows "cksum (take n b) (int n) = cksum b (int n)"
proof -
  obtain c where c: "cksum b (int n) = Some c" using ck.total [OF assms] by blast
  have n: "n \<le> length (take n b)" using assms by simp
  obtain c' where c': "cksum (take n b) (int n) = Some c'" using ck.total [OF n assms(2)] by blast
  have "unat (htons c') = unat (htons c)"
    using ck.result [OF assms c] ck.result [OF n assms(2) c'] by simp
  then have "htons c' = htons c" by (simp add: word_eq_iff_unsigned [where ?'a = nat])
  then have "c' = c" by (metis htons_htons)
  with c c' show ?thesis by simp
qed

lemma icmp_echo_reply_eq:
  fixes d s ty vt l w tt pr k1 k2 si di t c ck r :: buffer
  assumes "length d = 6" "length s = 6" "length ty = 2" "length vt = 2" "length l = 2" "length w = 4"
      "length tt = 1" "length pr = 1" "length k1 = 1" "length k2 = 1" "length si = 4" "length di = 4"
    and "length t = 1" "length c = 1" "length ck = 2" and "6 \<le> length (if_addr i)"
    and sm: "cksum (vt @ l @ w @ tt @ pr @ [0] @ k2 @ si @ di) 20 = Some sm"
  shows "icmp_echo_reply te i (d @ s @ ty @ vt @ l @ w @ tt @ pr @ k1 @ k2 @ si @ di @ t @ c @ ck @ r) =
    Some (s @ chunk 0 6 (if_addr i) @ ty @ vt @ l @ w @ tt @ pr @ [ucast sm] @ k2 @ di @ si @
      [if te = 0 then 0x00 else 0x0b] @ c @ [0xff, 0xff] @ r)"
proof -
  have ff: "u16_bytes 0xffff = [0xff, 0xff]"
    by (simp add: u16_bytes_def drop_bit_eq_div)
  have k: "cksum (vt @ l @ w @ tt @ pr @ [0] @ k2 @ si @ di @ x) 20 = Some sm" for x
    using cksum_take [of 20 "vt @ l @ w @ tt @ pr @ [0] @ k2 @ si @ di @ x"] sm assms by simp
  show ?thesis
    using assms(1-16)
    by (simp add: icmp_echo_reply_def sizeof_vector_def cksum_nonpositive Let_def mem_read_Some
        mem_write_Some seg_simps k [simplified] ff)
qed

text \<open>The message sent for a frame whose time is exceeded or whose port is closed.\<close>

lemma icmp_error_packet_eq:
  fixes d s ty vt l w tt pr k1 k2 si di r :: buffer and ifs :: "Interface list" and i :: Interface
  defines "lo \<equiv> findIfaceByIp ifs (u32_at 0 di) \<noteq> None"
  defines "ty_code \<equiv> (if lo then [0x03, 0x03] else [0x0b, 0x00])"
    and "len \<equiv> htons (ntohs (u16_at 0 l) - 4)"
    and "src \<equiv> u32_bytes (if lo then u32_at 0 di else if_ip i)"
    and "original \<equiv> vt @ l @ w @ tt @ pr @ k1 @ k2 @ si @ di @ take 8 r"
  assumes len: "length d = 6" "length s = 6" "length ty = 2" "length vt = 2" "length l = 2" "length w = 4"
      "length tt = 1" "length pr = 1" "length k1 = 1" "length k2 = 1" "length si = 4" "length di = 4"
      "8 \<le> length r" "6 \<le> length (if_addr i)"
    and c: "cksum (ty_code @ [0, 0, 0, 0, 0, 0] @ original) 36 = Some c"
    and sm: "cksum (vt @ u16_bytes len @ w @ [0x40, 0x01, 0, 0] @ src @ si) 20 = Some sm"
  shows "icmp_error_packet ifs i (d @ s @ ty @ vt @ l @ w @ tt @ pr @ k1 @ k2 @ si @ di @ r) =
    Some (s @ chunk 0 6 (if_addr i) @ ty @ vt @ u16_bytes len @ w @ [0x40, 0x01] @ u16_bytes sm @
      src @ si @ ty_code @ u16_bytes c @ [0, 0, 0, 0] @ original)"
proof -
  have 0: "u16_bytes 0 = [0, 0]" by (simp add: u16_bytes_def)
  have rep: "replicate 8 (0 :: byte) = [0, 0, 0, 0, 0, 0, 0, 0]" by (simp add: numeral_eq_Suc)
  have r8: "chunk 0 8 r = take 8 r" "min (length r) 8 = 8" using len by (simp_all add: chunk_def)
  have k: "cksum (vt @ u16_bytes len @ w @ [0x40, 0x01, 0, 0] @ src @ si @ x) 20 = Some sm" for x
    using cksum_take [of 20 "vt @ u16_bytes len @ w @ [0x40, 0x01, 0, 0] @ src @ si @ x"] sm len
    by (simp add: src_def)
  show ?thesis
  proof (cases lo)
    case True
    then show ?thesis
      using len c k sm True unfolding lo_def ty_code_def original_def src_def len_def
      by (simp add: icmp_error_packet_def Let_def mem_read_Some mem_write_Some seg_simps 0 r8 rep)
  next
    case False
    then show ?thesis
      using len c k sm False unfolding lo_def ty_code_def original_def src_def len_def
      by (simp add: icmp_error_packet_def Let_def mem_read_Some mem_write_Some seg_simps 0 r8 rep)
  qed
qed

section \<open>Forwarding\<close>

lemma ip_hdr_bytes_upd:
  "length b = 20 \<Longrightarrow> ip_hdr_bytes ((ip_hdr_of_bytes b)\<lparr>ip_ttl := t, ip_sum := c\<rparr>) =
     put 10 (u16_bytes c) (put 8 [t] b)"
  by (auto simp: list_of_20 ip_hdr_bytes_def ip_hdr_of_bytes_def u16_at_def u32_at_def
      le16_bytes_u16 le32_bytes_u32 nibbles_of_byte put_def)

text \<open>The frame that leaves: new hosts, the time to live, the checksum, all else as it was.\<close>

definition forwarded :: "buffer \<Rightarrow> buffer \<Rightarrow> byte \<Rightarrow> u16 \<Rightarrow> buffer \<Rightarrow> buffer" where
  "forwarded mac addr t c p = put 0 (mac @ addr) (put 24 (u16_bytes c) (put 22 [t] p))"

lemma forwarded_segs:
  assumes "34 \<le> length p" and "length mac = 6" "length addr = 6"
  shows "forwarded mac addr t c p =
    (mac @ addr @ chunk 12 2 p) @ put 10 (u16_bytes c) (put 8 [t] (chunk 14 20 p)) @ drop 34 p"
proof -
  obtain d s ty vt l w tt pr k1 k2 si di r where p: "p = d @ s @ ty @ vt @ l @ w @ tt @ pr @ k1 @ k2 @ si @ di @ r"
    and len: "length d = 6" "length s = 6" "length ty = 2" "length vt = 2" "length l = 2" "length w = 4"
      "length tt = 1" "length pr = 1" "length k1 = 1" "length k2 = 1" "length si = 4" "length di = 4"
    using frame_split [OF assms(1)] .
  have two: "length k1 = Suc 0 \<Longrightarrow> length k2 = Suc 0 \<Longrightarrow> put 0 (u16_bytes c) (k1 @ k2 @ x) = u16_bytes c @ x" for x
    by (simp add: put_def)
  have "put 0 (mac @ addr) (d @ s @ x) = mac @ addr @ x" for x
    using len assms by (simp add: put_def)
  then show ?thesis
    unfolding forwarded_def p using len by (simp add: seg_simps two)
qed

text \<open>What relaying a frame over a hop means.\<close>

definition relayed :: "buffer \<Rightarrow> buffer \<Rightarrow> buffer \<Rightarrow> buffer \<Rightarrow> bool" where
  "relayed p mac addr frame \<longleftrightarrow>
     length frame = length p \<and> chunk 0 6 frame = mac \<and> chunk 6 6 frame = addr \<and>
     frame ! 22 = p ! 22 - 1 \<and> cksum (drop 14 frame) 20 = Some 0xffff \<and>
     (\<forall>k \<in> {12..<length p} - {22, 24, 25}. frame ! k = p ! k)"

lemma forwarded_fields:
  assumes "34 \<le> length p" and "length mac = 6" "length addr = 6"
  shows "length (forwarded mac addr t c p) = length p" and "chunk 0 6 (forwarded mac addr t c p) = mac"
    and "chunk 6 6 (forwarded mac addr t c p) = addr" and "forwarded mac addr t c p ! 22 = t"
    and "\<forall>k \<in> {12..<length p} - {22, 24, 25}. forwarded mac addr t c p ! k = p ! k"
proof -
  show "length (forwarded mac addr t c p) = length p" using assms by (simp add: forwarded_def)
  show "chunk 0 6 (forwarded mac addr t c p) = mac" "chunk 6 6 (forwarded mac addr t c p) = addr"
    using assms by (simp_all add: forwarded_segs seg_simps)
  show "forwarded mac addr t c p ! 22 = t" using assms by (simp add: forwarded_def nth_put)
  show "\<forall>k \<in> {12..<length p} - {22, 24, 25}. forwarded mac addr t c p ! k = p ! k"
    using assms by (auto simp: forwarded_def nth_put)
qed

lemma assembleIPPacket_eq:
  assumes "34 \<le> length p" and "ethernet_wf e"
  shows "assembleIPPacket p h e = Some (ethernet_hdr_bytes e @ ip_hdr_bytes h @ drop 34 p)"
  using assms by (simp add: assembleIPPacket_def mem_write_Some put_def)

lemma forwarded_cksum:
  assumes p: "34 \<le> length p" and l: "length mac = 6" "length addr = 6"
    and c: "cksum (put 10 [0, 0] (put 8 [t] (chunk 14 20 p))) 20 = Some c"
  shows "cksum (drop 14 (forwarded mac addr t c p)) 20 = Some 0xffff"
proof -
  let ?b = "put 10 [0, 0] (put 8 [t] (chunk 14 20 p))"
  have "cksum (put 10 (u16_bytes c) ?b) (int 20) = Some 0xffff"
    by (rule ck.seal) (use p c in \<open>simp_all add: nth_put\<close>)
  moreover have "drop 14 (forwarded mac addr t c p) = put 10 (u16_bytes c) (put 8 [t] (chunk 14 20 p)) @ drop 34 p"
    unfolding forwarded_segs [OF p l] using l p by simp
  then have "take 20 (drop 14 (forwarded mac addr t c p)) = put 10 (u16_bytes c) ?b"
    using p by (simp add: put_put_same)
  ultimately show ?thesis
    using cksum_take [of 20 "drop 14 (forwarded mac addr t c p)"] p l
    by (simp add: forwarded_segs)
qed

lemma forwarded_relayed:
  assumes "34 \<le> length p" and "length mac = 6" and "length addr = 6"
    and "cksum (drop 14 (forwarded mac addr (p ! 22 - 1) c p)) 20 = Some 0xffff"
  shows "relayed p mac addr (forwarded mac addr (p ! 22 - 1) c p)"
  using forwarded_fields [OF assms(1-3)] assms(4) by (simp add: relayed_def)

lemma forward_packet_eq:
  assumes p: "34 \<le> length p" and route: "rt_lookup (m_routingTable s) (u32_at 30 p) = Inr e"
    and out: "findIfaceByName (m_ifaces s) (rt_ifName e) = Some i" "length (if_addr i) = 6"
    and hop: "arp_mac (m_arp s) (if rt_dest e = 0 then u32_at 30 p else rt_dest e) = Some mac"
      "length mac = 6"
    and h: "h = (ip_hdr_of_bytes (chunk 14 20 p))\<lparr>ip_ttl := t\<rparr>"
  obtains c where "forward_packet p h (ethernet_hdr_of_bytes (chunk 0 14 p)) t s =
      Done () (sendPacket (forwarded mac (if_addr i) t c p) (rt_ifName e) s)"
    and "cksum (drop 14 (forwarded mac (if_addr i) t c p)) 20 = Some 0xffff"
proof -
  let ?b = "chunk 14 20 p" and ?e = "ethernet_hdr_of_bytes (chunk 0 14 p)"
  have len: "length ?b = 20" using p by simp
  have hdr: "ip_hdr_bytes (h\<lparr>ip_ttl := t, ip_sum := c\<rparr>) = put 10 (u16_bytes c) (put 8 [t] ?b)" for c
    using ip_hdr_bytes_upd [OF len] by (simp add: h)
  have dst: "ip_dst h = u32_at 30 p"
    using p by (simp add: h ip_hdr_of_bytes_def u32_at_def nth_chunk)
  obtain c where c: "cksum (put 10 [0, 0] (put 8 [t] ?b)) 20 = Some c"
    using cksum_total [of 20 "put 10 [0, 0] (put 8 [t] ?b)"] p by auto
  have z: "u16_bytes 0 = [0, 0]" by (simp add: u16_bytes_def)
  have eth: "ethernet_hdr_bytes (?e\<lparr>ether_shost := if_addr i, ether_dhost := mac\<rparr>) =
      mac @ if_addr i @ chunk 12 2 p"
    using p by (simp add: ethernet_hdr_bytes_def ethernet_hdr_of_bytes_def u16_at_def le16_bytes_u16
        nth_chunk chunk_two)
  have wf: "ethernet_wf (?e\<lparr>ether_shost := if_addr i, ether_dhost := mac\<rparr>)"
    using out hop by (simp add: ethernet_wf_def)
  obtain entry where entry: "arp_lookup (m_arp s) (if rt_dest e = 0 then u32_at 30 p else rt_dest e) = Some entry"
      "ae_mac entry = mac"
    using hop(1) by (auto simp: arp_mac_def)
  have "forward_packet p h ?e t s = Done () (sendPacket (forwarded mac (if_addr i) t c p) (rt_ifName e) s)"
  proof (cases "rt_dest e = 0")
    case True
    then show ?thesis
      using c entry route out hop(2) p
      by (simp add: forward_packet_def Let_def dst hdr z ipToString_0 mem_read_Some chunk_all
          assembleIPPacket_eq [OF p wf] eth forwarded_segs [OF p])
  next
    case False
    then show ?thesis
      using c entry route out hop(2) p
      by (simp add: forward_packet_def Let_def dst hdr z ipToString_0 mem_read_Some chunk_all
          assembleIPPacket_eq [OF p wf] eth forwarded_segs [OF p])
  qed
  then show ?thesis
    by (rule that) (rule forwarded_cksum [OF p hop(2) out(2) c])
qed

section \<open>The handlers, branch by branch\<close>

definition router_ready :: "SimpleRouter \<Rightarrow> bool" where
  "router_ready s \<longleftrightarrow> router_inv s \<and> routes_ok s"

definition ip_cksum_ok :: "buffer \<Rightarrow> bool" where
  "ip_cksum_ok p \<longleftrightarrow> cksum (drop 14 p) 20 = Some 0xffff"

text \<open>The source of a frame, learnt under the IP address at an offset of the frame.\<close>

definition learnt :: "time_point \<Rightarrow> buffer \<Rightarrow> nat \<Rightarrow> SimpleRouter \<Rightarrow> SimpleRouter" where
  "learnt now p off s = s\<lparr>m_arp := arp.learn now (chunk 6 6 p) (u32_at off p) (m_arp s)\<rparr>"

lemma learnt_fields [simp]:
  "m_routingTable (learnt now p off s) = m_routingTable s" "m_ifaces (learnt now p off s) = m_ifaces s"
  "temp_iface (learnt now p off s) = temp_iface s" "sent (learnt now p off s) = sent s"
  "m_ifNameToIpMap (learnt now p off s) = m_ifNameToIpMap s"
  "m_arp (learnt now p off s) = arp.learn now (chunk 6 6 p) (u32_at off p) (m_arp s)"
  by (simp_all add: learnt_def)

lemma learnt_known: "\<exists>m. arp_mac (arp.learn now mac ip c) ip = Some m"
  using arp.learn_known by blast

lemma router_ready_learnt:
  assumes "router_ready s" and "12 \<le> length p"
  shows "router_ready (learnt now p off s)"
proof -
  have "router_inv (learnt now p off s)"
    using assms unfolding learnt_def router_ready_def by (auto intro!: router_inv_arp arp_inv_learn)
  moreover have "same_config s (learnt now p off s)" by (simp add: same_config_def)
  ultimately show ?thesis using assms(1) by (simp add: router_ready_def routes_ok_same)
qed

lemma router_ready_temp [simp]: "router_ready (s\<lparr>temp_iface := n\<rparr>) = router_ready s"
  by (simp add: router_ready_def router_inv_def ifaces_inv_def routes_ok_def)

lemma handlePacket_known:
  assumes "router_ready s" and "findIfaceByName (m_ifaces s) inIface = Some i" and "14 \<le> length p"
  shows "handlePacket clk p inIface s =
    (let e = ethernet_hdr_of_bytes (chunk 0 14 p); s = s\<lparr>temp_iface := inIface\<rparr> in
     if chunk 12 2 p = [0x08, 0x06] then handleArpPacket clk p e s
     else if chunk 12 2 p = [0x08, 0x00] then handleIpPacket clk p e s
     else Done () s)"
proof -
  obtain a where a: "show_arp (clk 0) (m_arp s) = Some a"
    using assms(1) show_arp_Some by (auto simp: router_ready_def)
  obtain b where b: "printIfaces (m_ifaces s) = Some b"
    using assms(1) printIfaces_None [of "m_ifaces s"]
    by (cases "printIfaces (m_ifaces s)") (auto simp: router_ready_def routes_ok_def)
  have g: "getEthernetHeader p = Some (ethernet_hdr_of_bytes (chunk 0 14 p))"
    using assms(3) by (simp add: getEthernetHeader_Some)
  show ?thesis
    using assms(2,3)
    by (simp add: handlePacket_def Let_def a b g ether_type_at network_order u16_at_iff)
qed

lemma ip_fields_at:
  assumes "34 \<le> length p"
  shows "ip_src (ip_hdr_of_bytes (chunk 14 20 p)) = u32_at 26 p"
    and "ip_dst (ip_hdr_of_bytes (chunk 14 20 p)) = u32_at 30 p"
    and "ip_ttl (ip_hdr_of_bytes (chunk 14 20 p)) = p ! 22"
    and "ip_p (ip_hdr_of_bytes (chunk 14 20 p)) = p ! 23"
  using assms by (simp_all add: ip_hdr_of_bytes_def u32_at_def nth_chunk)

lemma ttl_exhausted: "(n :: byte) - 1 \<le> 0 \<longleftrightarrow> n = 1"
  by (metis diff_add_cancel diff_self word_le_0_iff add.left_neutral)

definition forward_hdr :: "buffer \<Rightarrow> ip_hdr" where
  "forward_hdr p = (ip_hdr_of_bytes (chunk 14 20 p))\<lparr>ip_ttl := p ! 22 - 1\<rparr>"

text \<open>What the handler does with a frame whose checksum is right.\<close>

definition ip_decision :: "buffer \<Rightarrow> ethernet_hdr \<Rightarrow> SimpleRouter \<Rightarrow> (SimpleRouter, unit) outcome" where
  "ip_decision p e s =
     (if findIfaceByIp (m_ifaces s) (u32_at 30 p) \<noteq> None then
        (if p ! 23 = 0x01 then handleIcmpPacket p e 0 s
         else if p ! 23 = 0x11 then handleIcmpPacket p e 1 s
         else Done () s)
      else if p ! 22 = 1 then handleIcmpPacket p e 1 s
      else if arp_mac (m_arp s) (u32_at 30 p) \<noteq> None then forward_packet p (forward_hdr p) e (p ! 22 - 1) s
      else
        need NullDeref (findIfaceByMac (m_ifaces s) (ether_dhost e)) (\<lambda>myInter.
          Done () (s\<lparr>m_arp := snd (queueRequest (u32_at 30 p) p (if_name myInter) (m_arp s))\<rparr>)))"

lemma handleIpPacket_eq:
  assumes p: "34 \<le> length p"
  shows "handleIpPacket clk p e s =
    (if ip_cksum_ok p then ip_decision p e (learnt (clk 1) p 26 s) else Done () s)"
proof -
  let ?b = "chunk 14 20 p" and ?h = "ip_hdr_of_bytes (chunk 14 20 p)"
  have b: "ip_hdr_bytes ?h = ?b" using p by (simp add: ip_hdr_bytes_of_bytes)
  obtain c where c: "cksum ?b 20 = Some c" using cksum_total [of 20 ?b] p by auto
  have bd: "cksum ?b 20 = cksum (drop 14 p) 20"
    using cksum_take [of 20 "drop 14 p"] p by (simp add: chunk_def)
  have ok: "ip_cksum_ok p \<longleftrightarrow> c = 0xffff"
    unfolding ip_cksum_ok_def bd [symmetric] c by simp
  have known: "arp_mac (m_arp (learnt now p 26 s)) (u32_at 26 p) \<noteq> None" for now
    using arp.learn_known [where now = now and mac = "chunk 6 6 p" and ip = "u32_at 26 p" and c = "m_arp s"]
    by auto
  have again: "learn_source now' p (u32_at 26 p) (learnt now p 26 s) = Done False (learnt now p 26 s)"
    for now now'
  proof -
    obtain e where "arp_lookup (m_arp (learnt now p 26 s)) (u32_at 26 p) = Some e"
      using known [of now] by (auto simp: arp_mac_def)
    then show ?thesis by (simp add: learn_source_def del: learnt_fields)
  qed
  have first: "learn_source now p (u32_at 26 p) s = Done (arp_mac (m_arp s) (u32_at 26 p) = None) (learnt now p 26 s)"
    for now
    using p by (simp add: learn_source_eq learnt_def)
  have hdr: "?h\<lparr>ip_ttl := p ! 22 - 1, ip_ttl := t\<rparr> = ?h\<lparr>ip_ttl := t\<rparr>" for t by simp
  have g: "getIpPacket p = Some ?h" using p by (simp add: getIpPacket_Some)
  show ?thesis
    unfolding handleIpPacket_def g need.simps Let_def b c ok ip_decision_def forward_hdr_def
    by (simp add: ip_fields_at [OF p] first again ttl_exhausted arp_mac_None)
qed

section \<open>Every handler keeps the invariant\<close>

lemma frame_ok_arp_reply:
  assumes "ethernet_wf e" "arp_wf h" "ether_type e = le16 0x08 0x06"
    and "assembleArpInterfaceReplyPacket i e h = Some b"
  shows "frame_ok b"
proof -
  have "6 \<le> length (if_addr i)" using assms(4) arp_reply_packet_None [of i e h] by (cases "6 \<le> length (if_addr i)") auto
  with assms show ?thesis
    by (auto simp: arp_reply_packet_eq frame_ok_def arp_reply_bytes_def Let_def ethernet_wf_def
        arp_wf_def seg_simps le16_bytes_u16)
qed

lemma handleArpPacket_inv:
  assumes inv: "router_inv s" and e: "ethernet_wf e" "ether_type e = le16 0x08 0x06"
  shows "oc_all (\<lambda>s'. router_inv s' \<and> same_config s s') (handleArpPacket clk packet e s)"
proof (cases "getArpPacket packet")
  case (Some h)
  then have h: "arp_wf h" by (auto simp: getArpPacket_Some)
  have pend: "oc_all (\<lambda>s''. router_inv s'' \<and> same_config s s'') (sendPendingPackets h ip s')"
    if "router_inv s'" "same_config s s'" for ip s'
    using sendPendingPackets_inv [OF h that(1), of ip] that(2)
    by (auto elim!: oc_all_mono intro: same_config_trans)
  note reply = frame_ok_arp_reply [OF e(1) h e(2)]
  show ?thesis
    unfolding handleArpPacket_def Some
    by (auto intro!: oc_all_need oc_all_bind [OF learn_source_inv [OF inv]] pend router_inv_send
          same_config_send reply simp: inv split: option.split)
qed (simp add: handleArpPacket_def)

text \<open>The ICMP messages, as equations over the segments, keep the type of the frame.\<close>

lemma u16_bytes_0: "u16_bytes 0 = [0, 0]"
  by (simp add: u16_bytes_def)

lemma icmp_split:
  assumes "4 \<le> length r"
  obtains t c ck r' where "r = t @ c @ ck @ r'" "length t = 1" "length c = 1" "length ck = 2"
proof -
  have step: "drop k r = chunk k n r @ drop (k + n) r" if "k + n \<le> 4" for k n
    using assms that by (simp add: chunk_append_drop)
  have "r = chunk 0 1 r @ drop 1 r" using step [of 0 1] by simp
  also have "drop 1 r = chunk 1 1 r @ drop 2 r" using step [of 1 1] by (simp add: numeral_2_eq_2)
  also have "drop 2 r = chunk 2 2 r @ drop 4 r" using step [of 2 2] by simp
  finally show ?thesis by (rule that) (use assms in simp_all)
qed

definition echo_reply_bytes :: "int \<Rightarrow> buffer \<Rightarrow> byte \<Rightarrow> buffer \<Rightarrow> buffer" where
  "echo_reply_bytes te addr k p =
     chunk 6 6 p @ addr @ chunk 12 12 p @ [k] @ chunk 25 1 p @ chunk 30 4 p @ chunk 26 4 p @
     [if te = 0 then 0x00 else 0x0b] @ chunk 35 1 p @ [0xff, 0xff] @ drop 38 p"

text \<open>The checksum that is computed over the header with only its first byte zeroed.\<close>

definition echo_ip_sum :: "buffer \<Rightarrow> u16" where
  "echo_ip_sum p = the (cksum (drop 14 (put 24 [0] p)) 20)"

lemma icmp_echo_reply_frame:
  assumes p: "38 \<le> length p" and a: "6 \<le> length (if_addr i)"
  shows "icmp_echo_reply te i p =
    Some (echo_reply_bytes te (chunk 0 6 (if_addr i)) (ucast (echo_ip_sum p)) p)"
proof -
  have "34 \<le> length p" using p by simp
  then obtain d s ty vt l w tt pr k1 k2 si di r
    where q: "p = d @ s @ ty @ vt @ l @ w @ tt @ pr @ k1 @ k2 @ si @ di @ r"
    and len: "length d = 6" "length s = 6" "length ty = 2" "length vt = 2" "length l = 2" "length w = 4"
      "length tt = 1" "length pr = 1" "length k1 = 1" "length k2 = 1" "length si = 4" "length di = 4"
    by (rule frame_split)
  have "4 \<le> length r" using p len by (simp add: q)
  then obtain t c ck r' where r: "r = t @ c @ ck @ r'" "length t = 1" "length c = 1" "length ck = 2"
    by (rule icmp_split)
  let ?h = "vt @ l @ w @ tt @ pr @ [0] @ k2 @ si @ di"
  obtain sm where sm: "cksum ?h 20 = Some sm" using cksum_total [of 20 ?h] len by auto
  have "drop 14 (put 24 [0] p) = ?h @ r" using len by (simp add: q seg_simps)
  then have "cksum (drop 14 (put 24 [0] p)) 20 = Some sm"
    using cksum_take [of 20 "?h @ r"] sm len by simp
  then have e: "echo_ip_sum p = sm" by (simp add: echo_ip_sum_def)
  show ?thesis
    unfolding e using icmp_echo_reply_eq [OF len r(2-4) a sm, of te r'] len r
    by (simp add: q echo_reply_bytes_def seg_simps)
qed

definition icmp_error_bytes :: "Interface list \<Rightarrow> Interface \<Rightarrow> u16 \<Rightarrow> u16 \<Rightarrow> buffer \<Rightarrow> buffer" where
  "icmp_error_bytes ifs i sm c p =
     (let lo = findIfaceByIp ifs (u32_at 30 p) \<noteq> None in
      chunk 6 6 p @ chunk 0 6 (if_addr i) @ chunk 12 4 p @
      u16_bytes (htons (ntohs (u16_at 16 p) - 4)) @ chunk 18 4 p @ [0x40, 0x01] @ u16_bytes sm @
      u32_bytes (if lo then u32_at 30 p else if_ip i) @ chunk 26 4 p @
      (if lo then [0x03, 0x03] else [0x0b, 0x00]) @ u16_bytes c @ [0, 0, 0, 0] @ chunk 14 28 p)"

lemma u32_at_seg: "k + 4 \<le> length b \<Longrightarrow> u32_at k b = u32_at 0 (chunk k 4 b)"
  by (simp add: u32_at_def nth_chunk)

lemma u16_at_seg: "k + 2 \<le> length b \<Longrightarrow> u16_at k b = u16_at 0 (chunk k 2 b)"
  by (simp add: u16_at_def nth_chunk)

lemma icmp_error_packet_frame:
  assumes p: "42 \<le> length p" and a: "6 \<le> length (if_addr i)"
  obtains sm c where "icmp_error_packet ifs i p = Some (icmp_error_bytes ifs i sm c p)"
    and "cksum (drop 14 (icmp_error_bytes ifs i sm c p)) 20 = Some 0xffff"
    and "cksum (drop 34 (icmp_error_bytes ifs i sm c p)) 36 = Some 0xffff"
proof -
  have "34 \<le> length p" using p by simp
  then obtain d s ty vt l w tt pr k1 k2 si di r
    where q: "p = d @ s @ ty @ vt @ l @ w @ tt @ pr @ k1 @ k2 @ si @ di @ r"
    and len: "length d = 6" "length s = 6" "length ty = 2" "length vt = 2" "length l = 2" "length w = 4"
      "length tt = 1" "length pr = 1" "length k1 = 1" "length k2 = 1" "length si = 4" "length di = 4"
    by (rule frame_split)
  have r: "8 \<le> length r" using p len by (simp add: q)
  have di: "u32_at 30 p = u32_at 0 di" using u32_at_seg [of 30 p] p len by (simp add: q seg_simps)
  have l: "u16_at 16 p = u16_at 0 l" using u16_at_seg [of 16 p] p len by (simp add: q seg_simps)
  define lo where "lo = (findIfaceByIp ifs (u32_at 0 di) \<noteq> None)"
  let ?tc = "if lo then [0x03, 0x03] else [0x0b, 0x00] :: buffer"
  let ?len = "htons (ntohs (u16_at 0 l) - 4)"
  let ?src = "u32_bytes (if lo then u32_at 0 di else if_ip i)"
  let ?o = "vt @ l @ w @ tt @ pr @ k1 @ k2 @ si @ di @ take 8 r"
  let ?I = "?tc @ [0, 0, 0, 0, 0, 0] @ ?o"
  let ?H = "vt @ u16_bytes ?len @ w @ [0x40, 0x01, 0, 0] @ ?src @ si"
  have tc: "length ?tc = 2" by simp
  have I: "length ?I = 36" using len r by simp
  have H: "length ?H = 20" using len by simp
  obtain c where c: "cksum ?I 36 = Some c" using cksum_total [of 36 ?I] I by auto
  obtain sm where sm: "cksum ?H 20 = Some sm" using cksum_total [of 20 ?H] H by auto
  have eq: "icmp_error_packet ifs i p = Some (s @ chunk 0 6 (if_addr i) @ ty @ vt @ u16_bytes ?len @ w @
      [0x40, 0x01] @ u16_bytes sm @ ?src @ si @ ?tc @ u16_bytes c @ [0, 0, 0, 0] @ ?o)"
    unfolding q lo_def by (rule icmp_error_packet_eq) (use len r a c sm in \<open>simp_all add: lo_def\<close>)
  have b: "icmp_error_bytes ifs i sm c p = s @ chunk 0 6 (if_addr i) @ ty @ vt @ u16_bytes ?len @ w @
      [0x40, 0x01] @ u16_bytes sm @ ?src @ si @ ?tc @ u16_bytes c @ [0, 0, 0, 0] @ ?o"
    using len r unfolding icmp_error_bytes_def di l Let_def lo_def [symmetric]
    by (simp add: q seg_simps chunk_def [of 0 8 r])
  have a6: "length (chunk 0 6 (if_addr i)) = 6" using a by simp
  have "drop 34 (icmp_error_bytes ifs i sm c p) = put 2 (u16_bytes c) ?I"
    unfolding b using len a6 by (simp add: seg_simps)
  moreover have "cksum (put 2 (u16_bytes c) ?I) (int 36) = Some 0xffff"
    by (rule ck.seal) (use I c in \<open>simp_all add: nth_append\<close>)
  moreover have "take 20 (drop 14 (icmp_error_bytes ifs i sm c p)) = put 10 (u16_bytes sm) ?H"
    unfolding b using len a6 by (simp add: seg_simps)
  moreover have "cksum (put 10 (u16_bytes sm) ?H) (int 20) = Some 0xffff"
    by (rule ck.seal) (use H len sm in \<open>simp_all add: nth_append\<close>)
  moreover have "length (icmp_error_bytes ifs i sm c p) = 70"
    unfolding b using len r a6 by simp
  ultimately show ?thesis
    using cksum_take [of 20 "drop 14 (icmp_error_bytes ifs i sm c p)"]
    by (intro that [OF eq [folded b]]) simp_all
qed

lemma echo_reply_fields:
  assumes "38 \<le> length p" and "length a = 6"
  shows "length (echo_reply_bytes te a k p) = length p"
    and "chunk 12 2 (echo_reply_bytes te a k p) = chunk 12 2 p"
proof -
  show "length (echo_reply_bytes te a k p) = length p"
    using assms by (simp add: echo_reply_bytes_def)
  have "chunk 12 12 p = chunk 12 2 p @ chunk 14 10 p"
    using assms by (simp add: chunk_def take_add [of 2 10, simplified] drop_drop)
  then show "chunk 12 2 (echo_reply_bytes te a k p) = chunk 12 2 p"
    using assms by (simp add: echo_reply_bytes_def seg_simps)
qed

lemma icmp_error_fields:
  assumes "42 \<le> length p" and "6 \<le> length (if_addr i)"
  shows "length (icmp_error_bytes ifs i sm c p) = 70"
    and "chunk 12 2 (icmp_error_bytes ifs i sm c p) = chunk 12 2 p"
proof -
  show "length (icmp_error_bytes ifs i sm c p) = 70"
    using assms by (simp add: icmp_error_bytes_def Let_def)
  have "chunk 12 4 p = chunk 12 2 p @ chunk 14 2 p"
    using assms by (simp add: chunk_def take_add [of 2 2, simplified] drop_drop)
  then show "chunk 12 2 (icmp_error_bytes ifs i sm c p) = chunk 12 2 p"
    using assms by (simp add: icmp_error_bytes_def Let_def seg_simps)
qed

lemma icmp_type_at: "38 \<le> length p \<Longrightarrow> icmp_type (icmp_hdr_of_bytes (chunk 34 4 p)) = p ! 34"
  by (simp add: icmp_hdr_of_bytes_def nth_chunk)

lemma handleIcmpPacket_echo:
  assumes p: "38 \<le> length p" "p ! 34 = 8"
    and i: "findIfaceByName (m_ifaces s) (temp_iface s) = Some i" "6 \<le> length (if_addr i)"
  shows "handleIcmpPacket p e te s = Done () (sendPacket
    (echo_reply_bytes te (chunk 0 6 (if_addr i)) (ucast (echo_ip_sum (put 36 [0, 0] p))) (put 36 [0, 0] p))
    (if_name i) s)"
proof -
  have "getIcmpPacket p = Some (icmp_hdr_of_bytes (chunk 34 4 p))" using p by (simp add: getIcmpPacket_Some)
  moreover have "mem_write 36 [0, 0] p = Some (put 36 [0, 0] p)" using p by (simp add: mem_write_Some)
  moreover have "38 \<le> length (put 36 [0, 0] p)" using p by simp
  note icmp_echo_reply_frame [OF this i(2), of te]
  ultimately show ?thesis
    using p i by (simp add: handleIcmpPacket_def icmp_type_at u16_bytes_0 cksum_nonpositive sizeof_vector_def)
qed

lemma handleIcmpPacket_error:
  assumes p: "42 \<le> length p" "p ! 34 \<noteq> 8"
    and i: "findIfaceByName (m_ifaces s) (temp_iface s) = Some i" "6 \<le> length (if_addr i)"
  obtains sm c where "handleIcmpPacket p e 1 s = Done () (sendPacket
      (icmp_error_bytes (m_ifaces s) i sm c p) (if_name i) s)"
    and "cksum (drop 14 (icmp_error_bytes (m_ifaces s) i sm c p)) 20 = Some 0xffff"
    and "cksum (drop 34 (icmp_error_bytes (m_ifaces s) i sm c p)) 36 = Some 0xffff"
proof -
  obtain sm c where f: "icmp_error_packet (m_ifaces s) i p = Some (icmp_error_bytes (m_ifaces s) i sm c p)"
    and ck: "cksum (drop 14 (icmp_error_bytes (m_ifaces s) i sm c p)) 20 = Some 0xffff"
      "cksum (drop 34 (icmp_error_bytes (m_ifaces s) i sm c p)) 36 = Some 0xffff"
    by (rule icmp_error_packet_frame [OF p(1) i(2)])
  have "getIcmpPacket p = Some (icmp_hdr_of_bytes (chunk 34 4 p))" using p by (simp add: getIcmpPacket_Some)
  then have "handleIcmpPacket p e 1 s = Done () (sendPacket (icmp_error_bytes (m_ifaces s) i sm c p) (if_name i) s)"
    using p i f by (simp add: handleIcmpPacket_def icmp_type_at)
  then show ?thesis using ck by (rule that)
qed

lemma handleIcmpPacket_silent:
  "38 \<le> length p \<Longrightarrow> p ! 34 \<noteq> 8 \<Longrightarrow> te \<noteq> 1 \<Longrightarrow> handleIcmpPacket p e te s = Done () s"
  by (simp add: handleIcmpPacket_def getIcmpPacket_Some [THEN iffD2] icmp_type_at)

text \<open>The copies of the interface address come last and fail on a short one.\<close>

lemma icmp_short_address:
  assumes "length (if_addr i) < 6"
  shows "icmp_echo_reply te i p = None" and "icmp_error_packet ifs i p = None"
proof -
  have "mem_read 0 6 (if_addr i) = None" using assms by (simp add: mem_read_def)
  then show "icmp_echo_reply te i p = None" and "icmp_error_packet ifs i p = None"
    by (simp_all add: icmp_echo_reply_def icmp_error_packet_def Let_def split_def)
qed

lemma icmp_short_packet: "length p < 42 \<Longrightarrow> icmp_error_packet ifs i p = None"
proof -
  assume "length p < 42"
  then have "mem_read 14 28 p = None" by (simp add: mem_read_def)
  then show ?thesis by (simp add: icmp_error_packet_def Let_def)
qed

lemma frame_ok_echo:
  assumes "icmp_echo_reply te i p = Some b" and "38 \<le> length p" and "chunk 12 2 p = [0x08, 0x00]"
  shows "frame_ok b"
proof -
  have a: "6 \<le> length (if_addr i)" using assms(1) icmp_short_address(1) [of i te p] by (cases "6 \<le> length (if_addr i)") auto
  show ?thesis
    using assms echo_reply_fields [OF assms(2), of "chunk 0 6 (if_addr i)"] a
    by (auto simp: icmp_echo_reply_frame [OF assms(2) a] frame_ok_def)
qed

lemma frame_ok_error:
  assumes "icmp_error_packet ifs i p = Some b" and "chunk 12 2 p = [0x08, 0x00]"
  shows "frame_ok b"
proof -
  have a: "6 \<le> length (if_addr i)" using assms(1) icmp_short_address(2) [of i ifs p] by (cases "6 \<le> length (if_addr i)") auto
  have p: "42 \<le> length p" using assms(1) icmp_short_packet [of p] by (cases "42 \<le> length p") auto
  obtain sm c where "b = icmp_error_bytes ifs i sm c p"
    using icmp_error_packet_frame [OF p a, of ifs] assms(1) by (metis option.inject)
  then show ?thesis using icmp_error_fields [OF p a] assms(2) by (simp add: frame_ok_def)
qed

lemma handleIcmpPacket_inv:
  assumes inv: "router_inv s" and p: "chunk 12 2 p = [0x08, 0x00]"
  shows "oc_all (\<lambda>s'. router_inv s' \<and> same_config s s') (handleIcmpPacket p e te s)"
proof (cases "getIcmpPacket p")
  case (Some h)
  then have "38 \<le> length p" by (simp add: getIcmpPacket_Some)
  then have "frame_ok b" if "mem_write 36 (u16_bytes 0x0000) p = Some q" "icmp_echo_reply te i q = Some b" for i b q
    using that p by (auto simp: mem_write_eq_Some chunk_put_disjoint elim!: frame_ok_echo)
  then show ?thesis
    unfolding handleIcmpPacket_def Some
    by (auto intro!: oc_all_need router_inv_send same_config_send intro: frame_ok_error [OF _ p] simp: inv)
qed (simp add: handleIcmpPacket_def)

lemma frame_ok_forward:
  assumes "assembleIPPacket p h e = Some b" and "chunk 12 2 p = [0x08, 0x00]" and "ethernet_wf e"
    and "ether_type e = le16 0x08 0x00" and "34 \<le> length p"
  shows "frame_ok b"
  using assms by (auto simp: assembleIPPacket_eq frame_ok_def ethernet_hdr_bytes_def ethernet_wf_def
      seg_simps le16_bytes_u16)

lemma forward_packet_inv:
  assumes inv: "router_inv s" and p: "chunk 12 2 p = [0x08, 0x00]" "34 \<le> length p"
    and e: "ethernet_wf e" "ether_type e = le16 0x08 0x00"
  shows "oc_all (\<lambda>s'. router_inv s' \<and> same_config s s') (forward_packet p h e t s)"
proof -
  have "frame_ok b" if "assembleIPPacket p h' (e\<lparr>ether_shost := a, ether_dhost := m\<rparr>) = Some b"
    "length a = 6" "length m = 6" for h' a m b
    using frame_ok_forward [OF that(1) p(1) _ _ p(2)] e that by (simp add: ethernet_wf_def)
  then show ?thesis
    unfolding forward_packet_def
    by (auto intro!: oc_all_need router_inv_send same_config_send simp: inv Let_def mem_read_eq_Some
        split: sum.split)
qed

lemma ip_decision_inv:
  assumes inv: "router_inv s" and p: "chunk 12 2 p = [0x08, 0x00]" "34 \<le> length p"
    and e: "ethernet_wf e" "ether_type e = le16 0x08 0x00"
  shows "oc_all (\<lambda>s'. router_inv s' \<and> same_config s s') (ip_decision p e s)"
proof -
  have "router_inv (s\<lparr>m_arp := snd (queueRequest ip p n (m_arp s))\<rparr>)" for ip n
    using inv p(2) by (blast intro!: router_inv_arp arp_inv_queue)
  then show ?thesis
    unfolding ip_decision_def
    by (simp add: handleIcmpPacket_inv [OF inv p(1)] forward_packet_inv [OF inv p e] inv oc_all_need)
qed

lemma handleIpPacket_inv:
  assumes inv: "router_inv s" and p: "chunk 12 2 p = [0x08, 0x00]"
    and e: "ethernet_wf e" "ether_type e = le16 0x08 0x00"
  shows "oc_all (\<lambda>s'. router_inv s' \<and> same_config s s') (handleIpPacket clk p e s)"
proof (cases "34 \<le> length p")
  case True
  let ?s = "learnt (clk 1) p 26 s"
  have inv': "router_inv ?s" using inv True unfolding learnt_def by (auto intro!: router_inv_arp arp_inv_learn)
  have same: "same_config s ?s" by (simp add: same_config_def)
  from ip_decision_inv [OF inv' p True e]
  show ?thesis
    unfolding handleIpPacket_eq [OF True] using inv same
    by (auto elim!: oc_all_mono intro: same_config_trans simp del: learnt_fields)
next
  case False
  then have "getIpPacket p = None" using getIpPacket_Some [of p] by (cases "getIpPacket p") auto
  then show ?thesis by (simp add: handleIpPacket_def)
qed

lemma handlePacket_inv:
  assumes inv: "router_inv s"
  shows "oc_all (\<lambda>s'. router_inv s' \<and> same_config s s') (handlePacket clk p inIface s)"
proof -
  let ?s = "s\<lparr>temp_iface := inIface\<rparr>" and ?e = "ethernet_hdr_of_bytes (chunk 0 14 p)"
  have inv': "router_inv ?s" using inv by (rule router_inv_temp)
  have wf: "ethernet_wf ?e" if "14 \<le> length p" using that by simp
  have arp: "oc_all (\<lambda>s'. router_inv s' \<and> same_config s s') (handleArpPacket clk p ?e ?s)"
    if "14 \<le> length p" "ether_type ?e = le16 0x08 0x06"
    using handleArpPacket_inv [OF inv' wf that(2)] that(1) by (auto elim!: oc_all_mono simp: same_config_def)
  have ip: "oc_all (\<lambda>s'. router_inv s' \<and> same_config s s') (handleIpPacket clk p ?e ?s)"
    if "14 \<le> length p" "ether_type ?e = le16 0x08 0x00"
  proof -
    have "chunk 12 2 p = [0x08, 0x00]" using that by (simp add: ether_type_at u16_at_iff)
    from handleIpPacket_inv [OF inv' this wf that(2)] show ?thesis
      using that(1) by (auto elim!: oc_all_mono simp: same_config_def)
  qed
  show ?thesis
    unfolding handlePacket_def
    by (auto intro!: oc_all_need simp: Let_def inv' network_order arp ip getEthernetHeader_Some
        split: option.split)
qed

section \<open>No undefined behaviour\<close>

text \<open>
  The routes for which the next hop is in the cache whenever the destination is: the default
  route and routes to a single host.
\<close>

definition host_routes :: "SimpleRouter \<Rightarrow> bool" where
  "host_routes s \<longleftrightarrow> (\<forall>e \<in> set (m_routingTable s). rt_dest e = 0 \<or> rt_mask e = - 1)"

lemma host_routes_hop:
  assumes "host_routes s" and "rt_lookup (m_routingTable s) ip = Inr e"
  shows "rt_dest e = 0 \<or> rt_dest e = ip"
  using assms rt.sound [of "m_routingTable s" ip e] by (auto simp: host_routes_def rt_matches_def)

lemma arp_mac_length: "router_ready s \<Longrightarrow> arp_mac (m_arp s) ip = Some mac \<Longrightarrow> length mac = 6"
  using arp_inv_mac by (auto simp: router_ready_def router_inv_def arp_mac_def)

lemma router_ready_addr: "router_ready s \<Longrightarrow> i \<in> set (m_ifaces s) \<Longrightarrow> length (if_addr i) = 6"
  by (simp add: router_ready_def routes_ok_def)

lemma handleArpPacket_safe:
  assumes s: "router_ready s" and p: "42 \<le> length p" and e: "ethernet_wf e"
  shows "\<not> is_undef (handleArpPacket clk p e s)"
proof -
  let ?h = "arp_hdr_of_bytes (chunk 14 28 p)"
  have g: "getArpPacket p = Some ?h" using p by (simp add: getArpPacket_Some)
  have h: "arp_wf ?h" using p by simp
  have learn: "learn_source (clk 1) p ip s =
      Done (arp_mac (m_arp s) ip = None) (s\<lparr>m_arp := arp.learn (clk 1) (chunk 6 6 p) ip (m_arp s)\<rparr>)" for ip
    using p by (simp add: learn_source_eq)
  let ?s = "\<lambda>ip. s\<lparr>m_arp := arp.learn (clk 1) (chunk 6 6 p) ip (m_arp s)\<rparr>"
  have ok: "router_inv (?s ip)" "routes_ok (?s ip)" for ip
  proof -
    show "router_inv (?s ip)"
      using s p by (auto simp: router_ready_def intro!: router_inv_arp arp_inv_learn)
    have "same_config s (?s ip)" by simp
    from routes_ok_same [OF this] show "routes_ok (?s ip)" using s by (simp add: router_ready_def)
  qed
  have "assembleArpInterfaceReplyPacket i e ?h \<noteq> None" if "findIfaceByIp (m_ifaces s) ip = Some i" for i ip
    using router_ready_addr [OF s] findIfaceByIp_in [OF that] e h by (simp add: arp_reply_packet_eq)
  then show ?thesis
    unfolding handleArpPacket_def g need.simps learn
    using sendPendingPackets_safe [OF h ok]
    by (auto simp: is_undef_need split: option.split)
qed

lemma handleIcmpPacket_safe:
  assumes "router_ready s" and "42 \<le> length p" and "findIfaceByName (m_ifaces s) (temp_iface s) = Some i"
    and "te = 0 \<or> te = 1"
  shows "\<not> is_undef (handleIcmpPacket p e te s)"
proof -
  have a: "6 \<le> length (if_addr i)"
    using router_ready_addr [OF assms(1)] findIfaceByName_in [OF assms(3)] by simp
  have p: "38 \<le> length p" using assms(2) by simp
  consider "p ! 34 = 8" | "p ! 34 \<noteq> 8" "te = 1" | "p ! 34 \<noteq> 8" "te \<noteq> 1" by blast
  then show ?thesis
  proof cases
    case 1
    show ?thesis unfolding handleIcmpPacket_echo [OF p 1 assms(3) a] by simp
  next
    case 2
    obtain sm c where "handleIcmpPacket p e 1 s =
        Done () (sendPacket (icmp_error_bytes (m_ifaces s) i sm c p) (if_name i) s)"
      by (rule handleIcmpPacket_error [OF assms(2) 2(1) assms(3) a])
    then show ?thesis using 2 by simp
  next
    case 3
    then show ?thesis using p by (simp add: handleIcmpPacket_silent)
  qed
qed

lemma forward_packet_safe:
  assumes s: "router_ready s" "host_routes s" and p: "34 \<le> length p"
    and hop: "arp_mac (m_arp s) (u32_at 30 p) = Some mac"
  shows "\<not> is_undef (forward_packet p (forward_hdr p) (ethernet_hdr_of_bytes (chunk 0 14 p)) (p ! 22 - 1) s)"
proof (cases "rt_lookup (m_routingTable s) (u32_at 30 p)")
  case (Inl m)
  then show ?thesis using p by (simp add: forward_packet_def forward_hdr_def ip_fields_at)
next
  case (Inr e)
  obtain i where i: "findIfaceByName (m_ifaces s) (rt_ifName e) = Some i" "length (if_addr i) = 6"
    using routes_ok_route [OF _ Inr] s(1) by (auto simp: router_ready_def)
  have m: "arp_mac (m_arp s) (if rt_dest e = 0 then u32_at 30 p else rt_dest e) = Some mac"
    using host_routes_hop [OF s(2) Inr] hop by auto
  obtain c where "forward_packet p (forward_hdr p) (ethernet_hdr_of_bytes (chunk 0 14 p)) (p ! 22 - 1) s =
      Done () (sendPacket (forwarded mac (if_addr i) (p ! 22 - 1) c p) (rt_ifName e) s)"
    by (rule forward_packet_eq [OF p Inr i m arp_mac_length [OF s(1) m] forward_hdr_def])
  then show ?thesis by simp
qed

lemma handlePacket_safe:
  assumes s: "router_ready s" "host_routes s" and p: "42 \<le> length p"
    and mac: "chunk 12 2 p = [0x08, 0x00] \<Longrightarrow> chunk 0 6 p \<in> if_addr ` set (m_ifaces s)"
  shows "\<not> is_undef (handlePacket clk p inIface s)"
proof (cases "findIfaceByName (m_ifaces s) inIface")
  case (Some i)
  let ?s = "s\<lparr>temp_iface := inIface\<rparr>" and ?e = "ethernet_hdr_of_bytes (chunk 0 14 p)"
  let ?t = "learnt (clk 1) p 26 ?s"
  have ready: "router_ready ?t" "host_routes ?t" "router_ready ?s"
    using s p by (simp_all add: router_ready_learnt host_routes_def)
  have temp: "findIfaceByName (m_ifaces ?t) (temp_iface ?t) = Some i" using Some by simp
  have me: "findIfaceByMac (m_ifaces s) (chunk 0 6 p) \<noteq> None" if "chunk 12 2 p = [0x08, 0x00]"
    using mac [OF that] by (auto simp: findIfaceByMac_def find_None_iff)
  have p34: "34 \<le> length p" "14 \<le> length p" using p by simp_all
  have "\<not> is_undef (ip_decision p ?e ?t)" if ip: "chunk 12 2 p = [0x08, 0x00]"
  proof (cases "arp_mac (m_arp ?t) (u32_at 30 p)")
    case None
    then show ?thesis
      using handleIcmpPacket_safe [OF ready(1) p temp] me [OF ip] p34
      by (auto simp: ip_decision_def is_undef_need ether_hosts_at)
  next
    case (Some mac)
    then show ?thesis
      using handleIcmpPacket_safe [OF ready(1) p temp] forward_packet_safe [OF ready(1,2) p34(1) Some]
      by (auto simp: ip_decision_def)
  qed
  moreover have "\<not> is_undef (handleArpPacket clk p ?e ?s)"
    by (rule handleArpPacket_safe [OF ready(3) p]) (use p in simp)
  ultimately show ?thesis
    unfolding handlePacket_known [OF s(1) Some p34(2)] Let_def handleIpPacket_eq [OF p34(1)]
    by simp
qed (simp add: handlePacket_def)

section \<open>What the handlers do with a whole frame\<close>

lemma chunk_cut: "k \<le> n \<Longrightarrow> off + n \<le> length b \<Longrightarrow> chunk off n b = chunk off k b @ chunk (off + k) (n - k) b"
  using take_add [of k "n - k" "drop off b"] by (simp add: chunk_def add.commute)

lemma u32_bytes_at: "off + 4 \<le> length b \<Longrightarrow> u32_bytes (u32_at off b) = chunk off 4 b"
proof -
  assume "off + 4 \<le> length b"
  moreover from this have "chunk off 4 b = chunk off 2 b @ chunk (off + 2) 2 b"
    using chunk_cut [of 2 4 off b] by simp
  ultimately show ?thesis by (simp add: u32_at_def le32_bytes_u32 chunk_two numeral_3_eq_3)
qed

lemma u16_bytes_at: "off + 2 \<le> length b \<Longrightarrow> u16_bytes (u16_at off b) = chunk off 2 b"
  by (simp add: u16_at_def le16_bytes_u16 chunk_two)

lemma u32_at_bytes: "u32_at 0 (u32_bytes w) = w"
  by (cases w rule: u32_cases) (simp add: le32_bytes_u32 u32_at_def)

text \<open>An ICMP error about a frame: who it goes to, what it says, what it carries.\<close>

definition icmp_error_for :: "buffer \<Rightarrow> buffer \<Rightarrow> u32 \<Rightarrow> buffer \<Rightarrow> buffer \<Rightarrow> bool" where
  "icmp_error_for p addr src ty_code frame \<longleftrightarrow>
     length frame = 70 \<and> chunk 0 6 frame = chunk 6 6 p \<and> chunk 6 6 frame = addr \<and>
     chunk 12 4 frame = chunk 12 4 p \<and> chunk 22 2 frame = [64, 1] \<and>
     ntohs (u16_at 16 frame) = ntohs (u16_at 16 p) - 4 \<and>
     chunk 26 4 frame = u32_bytes src \<and> chunk 30 4 frame = chunk 26 4 p \<and>
     chunk 34 2 frame = ty_code \<and> chunk 42 28 frame = chunk 14 28 p \<and>
     cksum (drop 14 frame) 20 = Some 0xffff \<and> cksum (drop 34 frame) 36 = Some 0xffff"

lemma icmp_error_bytes_for:
  assumes "42 \<le> length p" and "length (if_addr i) = 6"
    and "cksum (drop 14 (icmp_error_bytes ifs i sm c p)) 20 = Some 0xffff"
      "cksum (drop 34 (icmp_error_bytes ifs i sm c p)) 36 = Some 0xffff"
  shows "icmp_error_for p (if_addr i)
    (if findIfaceByIp ifs (u32_at 30 p) \<noteq> None then u32_at 30 p else if_ip i)
    (if findIfaceByIp ifs (u32_at 30 p) \<noteq> None then [0x03, 0x03] else [0x0b, 0x00])
    (icmp_error_bytes ifs i sm c p)"
proof -
  let ?f = "icmp_error_bytes ifs i sm c p"
  have "u16_bytes (u16_at 16 ?f) = chunk 16 2 ?f"
    by (rule u16_bytes_at) (use icmp_error_fields [of p i] assms(1,2) in simp)
  also have "chunk 16 2 ?f = u16_bytes (htons (ntohs (u16_at 16 p) - 4))"
    using assms(1,2) by (simp add: icmp_error_bytes_def Let_def seg_simps)
  finally have "u16_at 16 ?f = htons (ntohs (u16_at 16 p) - 4)"
    by (metis u16_bytes_inject)
  then show ?thesis
    using assms icmp_error_fields(1) [of p i ifs sm c]
    by (simp add: icmp_error_for_def htons_htons) (simp add: icmp_error_bytes_def Let_def seg_simps chunk_all)
qed

definition echo_answer :: "buffer \<Rightarrow> buffer \<Rightarrow> byte \<Rightarrow> buffer \<Rightarrow> bool" where
  "echo_answer p addr ty frame \<longleftrightarrow>
     length frame = length p \<and> chunk 0 6 frame = chunk 6 6 p \<and> chunk 6 6 frame = addr \<and>
     chunk 12 12 frame = chunk 12 12 p \<and> frame ! 25 = p ! 25 \<and>
     chunk 26 4 frame = chunk 30 4 p \<and> chunk 30 4 frame = chunk 26 4 p \<and>
     frame ! 34 = ty \<and> frame ! 35 = p ! 35 \<and> chunk 36 2 frame = [0xff, 0xff] \<and>
     drop 38 frame = drop 38 p"

lemma chunk_1: "k < length b \<Longrightarrow> chunk k 1 b = [b ! k]"
  by (simp add: chunk_def take_Suc_conv_app_nth Cons_nth_drop_Suc flip: Cons_nth_drop_Suc)

lemma echo_reply_answer:
  assumes "38 \<le> length p" and "length a = 6"
  shows "echo_answer p a (if te = 0 then 0 else 0x0b) (echo_reply_bytes te a k (put 36 [0, 0] p))"
proof -
  let ?q = "put 36 [0, 0] p"
  have q: "length ?q = length p" "chunk 6 6 ?q = chunk 6 6 p" "chunk 12 12 ?q = chunk 12 12 p"
    "chunk 25 1 ?q = [p ! 25]" "chunk 26 4 ?q = chunk 26 4 p" "chunk 30 4 ?q = chunk 30 4 p"
    "chunk 35 1 ?q = [p ! 35]"
    using assms chunk_1 [of 25 p] chunk_1 [of 35 p] by (simp_all add: chunk_put_disjoint)
  have "drop 38 ?q = drop 38 p" using assms by (simp add: put_def)
  with q have eq: "echo_reply_bytes te a k ?q = chunk 6 6 p @ a @ chunk 12 12 p @ [k] @ [p ! 25] @
      chunk 30 4 p @ chunk 26 4 p @ [if te = 0 then 0x00 else 0x0b] @ [p ! 35] @ [0xff, 0xff] @ drop 38 p"
    by (simp add: echo_reply_bytes_def)
  show ?thesis
    unfolding eq echo_answer_def using assms by (simp add: seg_simps nth_append)
qed

section \<open>The IP checksum of an echo reply\<close>

lemma low_byte: "unat (htons c) = 256 * x + y \<Longrightarrow> x < 256 \<Longrightarrow> y < 256 \<Longrightarrow> unat (ucast c :: byte) = x"
proof (cases c rule: u16_cases)
  case (1 a b)
  assume eq: "unat (htons c) = 256 * x + y" and "x < 256" "y < 256"
  have "256 * unat a + unat b = 256 * x + y" using eq by (simp add: 1 unat_htons_le16 be16_def)
  then have "(256 * unat a + unat b) div 256 = (256 * x + y) div 256" by (rule arg_cong)
  then have "unat a = x" using \<open>y < 256\<close> unat_byte_less [of b] by simp
  moreover have "ucast (le16 a b) = a" using le16_bytes_u16 [of a b] by (simp add: u16_bytes_def)
  ultimately show ?thesis by (simp add: 1)
qed

text \<open>The first byte of the checksum of a valid header, put back from the sum without it.\<close>

lemma cksum_first_byte:
  assumes "(256 * k + R) mod 65535 = 0" and "k < 256" and "unat (htons c) = cksum_value R"
  shows "unat (ucast c :: byte) = (if k = 0 then 255 else k)"
proof (cases "k = 0")
  case True
  then have "cksum_value R = 65535" using assms(1) by (simp add: cksum_value_ffff)
  then show ?thesis using True assms(3) low_byte [of c 255 255] by simp
next
  case False
  have "ones_norm R = 65535 - 256 * k"
  proof (rule ones_norm_unique)
    have "\<not> 65535 dvd 256 * k" using False assms(2) by (auto dest: dvd_imp_le)
    then have "R \<noteq> 0" using assms(1) by (metis add_0_right dvd_eq_mod_eq_0)
    moreover have "65535 - 256 * k \<noteq> 0" using assms(2) by linarith
    ultimately show "65535 - 256 * k = 0 \<longleftrightarrow> R = 0" by simp
    have "(65535 - 256 * k + (256 * k + R) mod 65535) mod 65535 = (65535 - 256 * k + (256 * k + R)) mod 65535"
      by (rule mod_add_right_eq)
    moreover have "65535 - 256 * k + (256 * k + R) = 65535 + R" using assms(2) by simp
    ultimately show "(65535 - 256 * k) mod 65535 = R mod 65535" using assms(1) by simp
  qed simp
  then have "cksum_value R = 256 * k + 0" using False assms(2) by (simp add: cksum_value_def)
  then show ?thesis using False assms(2,3) low_byte [of c k 0] by simp
qed

lemma echo_reply_cksum:
  assumes p: "38 \<le> length p" "ip_cksum_ok p" and a: "length a = 6"
  defines "q \<equiv> put 36 [0, 0] p"
  shows "cksum (drop 14 (echo_reply_bytes te a (ucast (echo_ip_sum q)) q)) 20 = Some 0xffff \<longleftrightarrow> p ! 24 \<noteq> 0"
proof -
  let ?k = "ucast (echo_ip_sum q) :: byte" and ?r = "echo_reply_bytes te a (ucast (echo_ip_sum q)) q"
  have "34 \<le> length p" using p by simp
  then obtain d s ty vt l w tt pr k1 k2 si di r
    where e: "p = d @ s @ ty @ vt @ l @ w @ tt @ pr @ k1 @ k2 @ si @ di @ r"
    and len: "length d = 6" "length s = 6" "length ty = 2" "length vt = 2" "length l = 2" "length w = 4"
      "length tt = 1" "length pr = 1" "length k1 = 1" "length k2 = 1" "length si = 4" "length di = 4"
    by (rule frame_split)
  obtain x y z u where b: "k1 = [x]" "k2 = [y]" "tt = [z]" "pr = [u]"
    using len by (auto simp: length_Suc_conv)
  have r: "4 \<le> length r" using p len by (simp add: e)
  have q: "q = d @ s @ ty @ vt @ l @ w @ z # u # x # y # si @ di @ put 2 [0, 0] r"
    using len r by (simp add: q_def e b seg_simps)
  have sums: "sum16 (vt @ l @ w @ z # u # k # y # i @ j) =
      sum16 vt + sum16 l + sum16 w + be16 z u + be16 k y + sum16 i + sum16 j" if "length i = 4" for k i j
    using len that by (simp add: sum16_append)
  let ?R = "sum16 (vt @ l @ w @ z # u # 0 # y # si @ di)"
  have "take 20 (drop 14 p) = vt @ l @ w @ z # u # x # y # si @ di" using len by (simp add: e b)
  then have "(256 * unat x + ?R) mod 65535 = 0"
    using p ck.verify [of 20 "drop 14 p"] len by (simp add: ip_cksum_ok_def sums be16_def add.assoc add.left_commute)
  note valid = this
  have t: "take 20 (drop 14 (put 24 [0] q)) = vt @ l @ w @ z # u # 0 # y # si @ di"
    using len by (simp add: q seg_simps)
  have lq: "20 \<le> length (drop 14 (put 24 [0] q))" using p by (simp add: q_def)
  obtain c where c: "cksum (drop 14 (put 24 [0] q)) 20 = Some c" using cksum_total [OF lq] by auto
  have "unat (htons c) = cksum_value ?R" using ck.result [OF lq, of c] c by (simp add: t)
  from cksum_first_byte [OF valid unat_byte_less this]
  have k: "unat ?k = (if unat x = 0 then 255 else unat x)" using c by (simp add: echo_ip_sum_def)
  have r2: "take 20 (drop 14 ?r) = vt @ l @ w @ z # u # ?k # y # di @ si"
    using len a by (simp add: echo_reply_bytes_def q seg_simps)
  have "20 \<le> length (drop 14 ?r)" using echo_reply_fields [of q a te ?k] p a by (simp add: q_def)
  from ck.verify [OF this]
  have v: "cksum (drop 14 ?r) 20 = Some 0xffff \<longleftrightarrow> (256 * unat ?k + ?R) mod 65535 = 0"
    using len by (simp add: r2 sums be16_def algebra_simps)
  have x: "p ! 24 = x" using len by (simp add: e b nth_append)
  show ?thesis
  proof (cases "x = 0")
    case True
    then have "?R mod 65535 = 0" using valid by simp
    then have "(256 * 255 + ?R) mod 65535 = 65280"
      using mod_add_right_eq [of "256 * 255" ?R 65535, symmetric] by simp
    then show ?thesis using True v k x by simp
  next
    case False
    then have "unat x \<noteq> 0" by (simp add: unat_eq_0)
    then show ?thesis using False v k x valid by simp
  qed
qed

section \<open>Whole frames\<close>

text \<open>An IPv4 frame whose header is complete and verifies.\<close>

definition valid_ip_frame :: "buffer \<Rightarrow> bool" where
  "valid_ip_frame p \<longleftrightarrow> 34 \<le> length p \<and> chunk 12 2 p = [0x08, 0x00] \<and> ip_cksum_ok p"

text \<open>The state in which the decision about an IPv4 frame is taken.\<close>

definition received :: "clock \<Rightarrow> buffer \<Rightarrow> string \<Rightarrow> SimpleRouter \<Rightarrow> SimpleRouter" where
  "received clk p inIface s = learnt (clk 1) p 26 (s\<lparr>temp_iface := inIface\<rparr>)"

lemma received_fields [simp]:
  "m_routingTable (received clk p n s) = m_routingTable s" "m_ifaces (received clk p n s) = m_ifaces s"
  "temp_iface (received clk p n s) = n" "sent (received clk p n s) = sent s"
  "m_arp (received clk p n s) = arp.learn (clk 1) (chunk 6 6 p) (u32_at 26 p) (m_arp s)"
  by (simp_all add: received_def)

lemma router_ready_received: "router_ready s \<Longrightarrow> 34 \<le> length p \<Longrightarrow> router_ready (received clk p n s)"
  by (simp add: received_def router_ready_learnt)

lemma handlePacket_ip:
  assumes "router_ready s" and "findIfaceByName (m_ifaces s) inIface = Some i" and "valid_ip_frame p"
  shows "handlePacket clk p inIface s =
    ip_decision p (ethernet_hdr_of_bytes (chunk 0 14 p)) (received clk p inIface s)"
  using assms(3) by (simp add: handlePacket_known [OF assms(1,2)] valid_ip_frame_def handleIpPacket_eq received_def)

lemma handlePacket_forward:
  assumes s: "router_ready s" and i: "findIfaceByName (m_ifaces s) inIface = Some inI"
    and p: "valid_ip_frame p"
    and transit: "findIfaceByIp (m_ifaces s) (u32_at 30 p) = None" "p ! 22 \<noteq> 1"
    and route: "rt_lookup (m_routingTable s) (u32_at 30 p) = Inr e"
      "findIfaceByName (m_ifaces s) (rt_ifName e) = Some out"
    and known: "arp_mac (m_arp s) (u32_at 30 p) = Some d"
      "arp_mac (m_arp s) (if rt_dest e = 0 then u32_at 30 p else rt_dest e) = Some mac"
  obtains frame where "handlePacket clk p inIface s =
      Done () (sendPacket frame (rt_ifName e) (received clk p inIface s))"
    and "relayed p mac (if_addr out) frame"
proof -
  let ?t = "received clk p inIface s" and ?e = "ethernet_hdr_of_bytes (chunk 0 14 p)"
  have p34: "34 \<le> length p" using p by (simp add: valid_ip_frame_def)
  have hop: "arp_mac (m_arp ?t) (u32_at 30 p) = Some d"
    "arp_mac (m_arp ?t) (if rt_dest e = 0 then u32_at 30 p else rt_dest e) = Some mac"
    using known by (simp_all add: arp.learn_keeps)
  have l: "length (if_addr out) = 6" "length mac = 6"
    using router_ready_addr [OF s] findIfaceByName_in [OF route(2)] arp_mac_length [OF s known(2)] by simp_all
  obtain c where f: "forward_packet p (forward_hdr p) ?e (p ! 22 - 1) ?t =
      Done () (sendPacket (forwarded mac (if_addr out) (p ! 22 - 1) c p) (rt_ifName e) ?t)"
    and ck: "cksum (drop 14 (forwarded mac (if_addr out) (p ! 22 - 1) c p)) 20 = Some 0xffff"
    by (rule forward_packet_eq [of p ?t e out mac, OF p34 _ _ l(1) hop(2) l(2) forward_hdr_def])
       (use route in simp_all)
  have "handlePacket clk p inIface s = Done () (sendPacket (forwarded mac (if_addr out) (p ! 22 - 1) c p) (rt_ifName e) ?t)"
    using transit hop(1) f by (simp add: handlePacket_ip [OF s i p] ip_decision_def)
  then show ?thesis by (rule that) (rule forwarded_relayed [OF p34 l(2,1) ck])
qed

text \<open>A frame in transit to an address that is not in the cache waits.\<close>

lemma handlePacket_queue:
  assumes s: "router_ready s" and i: "findIfaceByName (m_ifaces s) inIface = Some inI"
    and p: "valid_ip_frame p"
    and transit: "findIfaceByIp (m_ifaces s) (u32_at 30 p) = None" "p ! 22 \<noteq> 1"
    and unknown: "arp_mac (m_arp s) (u32_at 30 p) = None" "u32_at 26 p \<noteq> u32_at 30 p"
    and mac: "findIfaceByMac (m_ifaces s) (chunk 0 6 p) = Some j"
  shows "handlePacket clk p inIface s = Done () ((received clk p inIface s)
    \<lparr>m_arp := snd (queueRequest (u32_at 30 p) p (if_name j) (m_arp (received clk p inIface s)))\<rparr>)"
proof -
  have "arp_mac (m_arp (received clk p inIface s)) (u32_at 30 p) = None"
    using unknown by (simp add: arp.learn_def arp.lookup_insert_new)
  then show ?thesis
    using transit mac p
    by (simp add: handlePacket_ip [OF s i p] ip_decision_def ether_hosts_at valid_ip_frame_def del: received_fields(5))
qed

lemma handlePacket_arp:
  fixes clk :: clock
  assumes s: "router_ready s" and i: "findIfaceByName (m_ifaces s) inIface = Some inI"
    and p: "42 \<le> length p" "chunk 12 2 p = [0x08, 0x06]"
  defines "h \<equiv> arp_hdr_of_bytes (chunk 14 28 p)"
    and "t \<equiv> learnt (clk 1) p 28 (s\<lparr>temp_iface := inIface\<rparr>)"
  shows "handlePacket clk p inIface s =
    (if chunk 20 2 p = [0, 1] then
       (case findIfaceByIp (m_ifaces s) (u32_at 38 p) of
          None \<Rightarrow> Done () t
        | Some mine \<Rightarrow> Done () (sendPacket
            (chunk 6 6 p @ if_addr mine @ chunk 12 8 p @ [0, 2] @ if_addr mine @ u32_bytes (if_ip mine) @
             chunk 22 6 p @ chunk 28 4 p) (if_name mine) t))
     else if chunk 20 2 p = [0, 2] then
       (if arp_mac (m_arp s) (u32_at 28 p) = None then sendPendingPackets h (u32_at 28 p) t
        else Done () (s\<lparr>temp_iface := inIface\<rparr>))
     else Done () (s\<lparr>temp_iface := inIface\<rparr>))"
proof -
  let ?e = "ethernet_hdr_of_bytes (chunk 0 14 p)"
  have wf: "ethernet_wf ?e" "arp_wf h" using p by (simp_all add: h_def)
  have f: "arp_op h = u16_at 20 p" "arp_sip h = u32_at 28 p" "arp_tip h = u32_at 38 p"
    using p by (simp_all add: h_def arp_hdr_of_bytes_def u16_at_def u32_at_def nth_chunk)
  have op: "u16_at 20 p = le16 x y \<longleftrightarrow> chunk 20 2 p = [x, y]" for x y
    using p by (simp add: u16_at_iff)
  have g: "getArpPacket p = Some h" using p by (simp add: getArpPacket_Some h_def)
  have learn: "learn_source (clk 1) p (u32_at 28 p) (s\<lparr>temp_iface := inIface\<rparr>) =
      Done (arp_mac (m_arp s) (u32_at 28 p) = None) t"
    using p by (simp add: learn_source_eq t_def learnt_def)
  have known: "t = s\<lparr>temp_iface := inIface\<rparr>" if "arp_mac (m_arp s) (u32_at 28 p) \<noteq> None"
    using that by (auto simp: t_def learnt_def arp.learn_def)
  have reply: "assembleArpInterfaceReplyPacket mine ?e h = Some (chunk 6 6 p @ if_addr mine @ chunk 12 8 p @
      [0, 2] @ if_addr mine @ u32_bytes (if_ip mine) @ chunk 22 6 p @ chunk 28 4 p)"
    if "findIfaceByIp (m_ifaces s) ip = Some mine" for mine ip
  proof -
    have l: "length (if_addr mine) = 6"
      using router_ready_addr [OF s] findIfaceByIp_in [OF that] by simp
    have "chunk 12 8 p = chunk 12 2 p @ chunk 14 2 p @ chunk 16 2 p @ [p ! 18, p ! 19]"
      using p chunk_cut [of 2 8 12 p] chunk_cut [of 2 6 14 p] chunk_cut [of 2 4 16 p]
      by (simp add: chunk_two)
    then have "arp_reply_bytes mine ?e h = chunk 6 6 p @ if_addr mine @ chunk 12 8 p @
      [0, 2] @ if_addr mine @ u32_bytes (if_ip mine) @ chunk 22 6 p @ chunk 28 4 p"
      using p l by (simp add: arp_reply_bytes_def Let_def h_def arp_hdr_of_bytes_def ether_hosts_at
          ether_type_at u16_bytes_at u16_at_chunk u32_at_chunk u32_bytes_at chunk_chunk chunk_all nth_chunk)
    with l wf show ?thesis by (simp add: arp_reply_packet_eq)
  qed
  have "\<not> chunk 20 2 p = [0, 1] \<or> \<not> chunk 20 2 p = [0, 2]" by auto
  then show ?thesis
    using p known
    by (auto simp: handlePacket_known [OF s i] Let_def handleArpPacket_def g f network_order op learn
        reply t_def simp del: One_nat_def split: option.split)
qed

text \<open>The ICMP answers, sent back on the interface of the frame.\<close>

lemma received_iface:
  assumes "router_ready s" and "findIfaceByName (m_ifaces s) inIface = Some inI"
  shows "findIfaceByName (m_ifaces (received clk p inIface s)) (temp_iface (received clk p inIface s)) = Some inI"
    and "length (if_addr inI) = 6" and "if_name inI = inIface"
  using assms router_ready_addr findIfaceByName_in [OF assms(2)] by auto

lemma received_error:
  assumes "router_ready s" and "findIfaceByName (m_ifaces s) inIface = Some inI"
    and "42 \<le> length p" and "p ! 34 \<noteq> 8"
  shows "\<exists>frame. handleIcmpPacket p e 1 (received clk p inIface s) =
      Done () (sendPacket frame inIface (received clk p inIface s)) \<and>
    icmp_error_for p (if_addr inI)
      (if findIfaceByIp (m_ifaces s) (u32_at 30 p) \<noteq> None then u32_at 30 p else if_ip inI)
      (if findIfaceByIp (m_ifaces s) (u32_at 30 p) \<noteq> None then [0x03, 0x03] else [0x0b, 0x00]) frame"
proof -
  let ?t = "received clk p inIface s"
  note i = received_iface [OF assms(1,2)]
  have a: "6 \<le> length (if_addr inI)" using i by simp
  obtain sm c where "handleIcmpPacket p e 1 ?t =
      Done () (sendPacket (icmp_error_bytes (m_ifaces ?t) inI sm c p) (if_name inI) ?t)"
    and ck: "cksum (drop 14 (icmp_error_bytes (m_ifaces ?t) inI sm c p)) 20 = Some 0xffff"
      "cksum (drop 34 (icmp_error_bytes (m_ifaces ?t) inI sm c p)) 36 = Some 0xffff"
    by (rule handleIcmpPacket_error [OF assms(3,4) i(1) a])
  with icmp_error_bytes_for [OF assms(3) i(2) ck] i(3) show ?thesis
    by (intro exI [of _ "icmp_error_bytes (m_ifaces s) inI sm c p"]) (simp split del: if_split)
qed

lemma received_echo:
  assumes "router_ready s" and "findIfaceByName (m_ifaces s) inIface = Some inI"
    and "38 \<le> length p" and "p ! 34 = 8" and "ip_cksum_ok p"
  shows "\<exists>frame. handleIcmpPacket p e te (received clk p inIface s) =
      Done () (sendPacket frame inIface (received clk p inIface s)) \<and>
    echo_answer p (if_addr inI) (if te = 0 then 0 else 0x0b) frame \<and>
    (ip_cksum_ok frame \<longleftrightarrow> p ! 24 \<noteq> 0)"
proof -
  note i = received_iface [OF assms(1,2)]
  have a: "6 \<le> length (if_addr inI)" using i by simp
  from handleIcmpPacket_echo [OF assms(3,4) i(1) a, of e te] echo_reply_answer [OF assms(3) i(2), of te]
    echo_reply_cksum [OF assms(3,5) i(2), of te]
  show ?thesis
    by (intro exI [of _ "echo_reply_bytes te (if_addr inI) (ucast (echo_ip_sum (put 36 [0, 0] p))) (put 36 [0, 0] p)"])
       (simp add: i chunk_all ip_cksum_ok_def split del: if_split)
qed

text \<open>The branches that follow a null pointer.\<close>

lemma forward_packet_no_hop:
  assumes "34 \<le> length p" and "rt_lookup (m_routingTable s) (u32_at 30 p) = Inr e"
    and "findIfaceByName (m_ifaces s) (rt_ifName e) = Some i" and "6 \<le> length (if_addr i)"
    and "rt_dest e \<noteq> 0" and "arp_mac (m_arp s) (rt_dest e) = None"
  shows "forward_packet p (forward_hdr p) e_hdr t s = Undef NullDeref"
proof -
  obtain c where "cksum (ip_hdr_bytes ((forward_hdr p)\<lparr>ip_ttl := t, ip_sum := 0\<rparr>)) 20 = Some c"
    using cksum_total [of 20 "ip_hdr_bytes ((forward_hdr p)\<lparr>ip_ttl := t, ip_sum := 0\<rparr>)"] by auto
  moreover have "ip_dst (forward_hdr p) = u32_at 30 p"
    using assms(1) by (simp add: forward_hdr_def ip_fields_at)
  ultimately show ?thesis
    using assms by (simp add: forward_packet_def Let_def ipToString_0 arp_mac_None mem_read_Some)
qed

section \<open>A configuration without gaps\<close>

text \<open>What the operator configures: routes to single hosts and a default route, each over an
  interface the router has.\<close>

definition config_ok :: "SimpleRouter \<Rightarrow> bool" where
  "config_ok s \<longleftrightarrow> host_routes s \<and> (\<exists>d \<in> set (m_routingTable s). rt_mask d = 0) \<and> routes_ok s"

lemma config_ok_same: "same_config s s' \<Longrightarrow> config_ok s' = config_ok s"
  using routes_ok_same [of s s'] by (simp add: config_ok_def host_routes_def same_config_def)

lemma config_ok_routable: "config_ok s \<Longrightarrow> routable s rs"
  using rt.default_route_total by (auto simp: config_ok_def routable_def)

end
