(* ===== verification/RouterThreads.thy ===== *)
theory RouterThreads
  imports PacketHandling
begin

text \<open>
  The two threads of the router on the queue of requests, in small steps: \<^verbatim>\<open>ArpCache::ticker\<close>, which
  walks the list with the mutex held, and the thread that handles an ARP reply in
  \<^verbatim>\<open>ArpCache::sendPendingPackets\<close>, which finds, sends and removes without it. The iterator of the loop in
  \<^verbatim>\<open>periodicCheckArpRequestsAndCacheEntries\<close> points at a node of the list, named by the request in it; a
  node that is removed is freed. With \<open>locked\<close> the sender takes the mutex too. The steps are atomic: a
  data race is not counted as undefined behaviour by itself.

  The lemmas: each thread alone does what its atomic step does; with the mutex no order of the
  steps goes wrong; without it the iterator can be left on a freed node, and that is the only
  thing that goes wrong (\<open>careful\<close>). Every order keeps the invariant of the router.
\<close>

section \<open>Steps\<close>

text \<open>The loop stands before a node, or after the request in it has been handled.\<close>

datatype timer_pc = Asleep | At nat nat | Past nat nat | Sweeping | Over

datatype sender_pc = Entered | Sending nat "PendingPacket list" | Gone

datatype threads =
    Threads SimpleRouter timer_pc sender_pc
  | Died string
  | Broken undefined_behaviour

datatype thread = Timer | Sender

definition request_ptrs :: "SimpleRouter \<Rightarrow> nat list" where
  "request_ptrs s = map ar_ptr (m_arpRequests (m_arp s))"

fun at_node :: "nat \<Rightarrow> nat list \<Rightarrow> timer_pc" where
  "at_node i [] = Sweeping"
| "at_node i (p # ps) = At i p"

fun timer_step :: "clock \<Rightarrow> SimpleRouter \<Rightarrow> timer_pc \<Rightarrow> sender_pc \<Rightarrow> threads" where
  "timer_step clk s Asleep q =
     (let s = s\<lparr>m_arp := expire_entries (clk 0) (m_arp s)\<rparr> in Threads s (at_node 1 (request_ptrs s)) q)"
| "timer_step clk s (At i p) q =
     (if p \<notin> set (request_ptrs s) then Broken UseAfterFree
      else case handleArpRequest clk i p False s of
        Done isRemoved s \<Rightarrow> Threads s (if isRemoved then Sweeping else Past i p) q
      | Raised e s \<Rightarrow> Died e
      | Undef u \<Rightarrow> Broken u)"
| "timer_step clk s (Past i p) q =
     (if p \<notin> set (request_ptrs s) then Broken UseAfterFree
      else Threads s (at_node (i + 2) (tl (dropWhile (\<lambda>r. r \<noteq> p) (request_ptrs s)))) q)"
| "timer_step clk s Sweeping q = Threads (s\<lparr>m_arp := remove_invalid (m_arp s)\<rparr>) Over q"
| "timer_step clk s Over q = Threads s Over q"

text \<open>An exception of the sender goes to Ice and ends only its call.\<close>

fun sender_step :: "arp_hdr \<Rightarrow> u32 \<Rightarrow> SimpleRouter \<Rightarrow> timer_pc \<Rightarrow> sender_pc \<Rightarrow> threads" where
  "sender_step h dst_ip s t Entered =
     (case find_request (m_arp s) dst_ip of
        None \<Rightarrow> Threads s t Gone
      | Some request \<Rightarrow> Threads s t (Sending (ar_ptr request) (packets request)))"
| "sender_step h dst_ip s t (Sending p []) = Threads (s\<lparr>m_arp := removeRequest p (m_arp s)\<rparr>) t Gone"
| "sender_step h dst_ip s t (Sending p (pendingPacket # rest)) =
     (case send_packets_of h dst_ip [pendingPacket] s of
        Done _ s \<Rightarrow> Threads s t (Sending p rest)
      | Raised e s \<Rightarrow> Threads s t Gone
      | Undef u \<Rightarrow> Broken u)"
| "sender_step h dst_ip s t Gone = Threads s t Gone"

fun sending :: "sender_pc \<Rightarrow> bool" where
  "sending (Sending p ps) \<longleftrightarrow> True"
| "sending q \<longleftrightarrow> False"

fun walking :: "timer_pc \<Rightarrow> bool" where
  "walking Asleep \<longleftrightarrow> False"
| "walking Over \<longleftrightarrow> False"
| "walking t \<longleftrightarrow> True"

fun thread_step :: "bool \<Rightarrow> clock \<Rightarrow> arp_hdr \<Rightarrow> u32 \<Rightarrow> thread \<Rightarrow> threads \<Rightarrow> threads" where
  "thread_step locked clk h dst_ip Timer (Threads s t q) =
     (if locked \<and> sending q then Threads s t q else timer_step clk s t q)"
| "thread_step locked clk h dst_ip Sender (Threads s t q) =
     (if locked \<and> walking t then Threads s t q else sender_step h dst_ip s t q)"
| "thread_step locked clk h dst_ip th x = x"

text \<open>Whether the next step of the sender frees the node on which the iterator of the timer stands.\<close>

fun frees_node :: "timer_pc \<Rightarrow> sender_pc \<Rightarrow> bool" where
  "frees_node (At i p) (Sending r []) \<longleftrightarrow> p = r"
| "frees_node (Past i p) (Sending r []) \<longleftrightarrow> p = r"
| "frees_node _ _ \<longleftrightarrow> False"

text \<open>The steps of the threads in some order.\<close>

definition schedule :: "bool \<Rightarrow> clock \<Rightarrow> arp_hdr \<Rightarrow> u32 \<Rightarrow> thread list \<Rightarrow> threads \<Rightarrow> threads" where
  "schedule locked clk h dst_ip ths x = foldl (\<lambda>x th. thread_step locked clk h dst_ip th x) x ths"

lemma schedule_simps [simp]:
  "schedule locked clk h dst_ip [] x = x"
  "schedule locked clk h dst_ip (th # ths) x = schedule locked clk h dst_ip ths (thread_step locked clk h dst_ip th x)"
  by (simp_all add: schedule_def)

lemma schedule_append:
  "schedule locked clk h dst_ip (ths @ ths') x = schedule locked clk h dst_ip ths' (schedule locked clk h dst_ip ths x)"
  by (simp add: schedule_def)

text \<open>An order of the steps, without the mutex, in which that never happens.\<close>

fun spares :: "threads \<Rightarrow> thread \<Rightarrow> bool" where
  "spares (Threads s t q) Sender \<longleftrightarrow> \<not> frees_node t q"
| "spares _ _ \<longleftrightarrow> True"

fun careful :: "clock \<Rightarrow> arp_hdr \<Rightarrow> u32 \<Rightarrow> thread list \<Rightarrow> threads \<Rightarrow> bool" where
  "careful clk h ip [] x \<longleftrightarrow> True"
| "careful clk h ip (th # ths) x \<longleftrightarrow> spares x th \<and> careful clk h ip ths (thread_step False clk h ip th x)"

text \<open>What is left of a tick that has begun, and of the work of the sender.\<close>

definition walk_on :: "clock \<Rightarrow> nat \<Rightarrow> nat list \<Rightarrow> SimpleRouter \<Rightarrow> (SimpleRouter, unit) outcome" where
  "walk_on clk i todo s = oc_bind (check_requests clk i todo s) (\<lambda>_ s. Done () (s\<lparr>m_arp := remove_invalid (m_arp s)\<rparr>))"

fun timer_rest :: "clock \<Rightarrow> SimpleRouter \<Rightarrow> timer_pc \<Rightarrow> (SimpleRouter, unit) outcome" where
  "timer_rest clk s (At i p) =
     (if p \<notin> set (request_ptrs s) then Undef UseAfterFree
      else walk_on clk i (dropWhile (\<lambda>r. r \<noteq> p) (request_ptrs s)) s)"
| "timer_rest clk s (Past i p) =
     (if p \<notin> set (request_ptrs s) then Undef UseAfterFree
      else walk_on clk (i + 2) (tl (dropWhile (\<lambda>r. r \<noteq> p) (request_ptrs s))) s)"
| "timer_rest clk s Sweeping = walk_on clk 0 [] s"
| "timer_rest clk s _ = Done () s"

fun sender_rest :: "arp_hdr \<Rightarrow> u32 \<Rightarrow> SimpleRouter \<Rightarrow> sender_pc \<Rightarrow> (SimpleRouter, unit) outcome" where
  "sender_rest h dst_ip s Entered = sendPendingPackets h dst_ip s"
| "sender_rest h dst_ip s (Sending p ps) =
     oc_bind (send_packets_of h dst_ip ps s) (\<lambda>_ s. Done () (s\<lparr>m_arp := removeRequest p (m_arp s)\<rparr>))"
| "sender_rest h dst_ip s Gone = Done () s"

section \<open>One thread alone\<close>

lemma request_ptrs_simps [simp]:
  "request_ptrs (s\<lparr>sent := x\<rparr>) = request_ptrs s"
  "request_ptrs (s\<lparr>m_arp := expire_entries now (m_arp s)\<rparr>) = request_ptrs s"
  by (simp_all add: request_ptrs_def)

lemma handleArpRequest_ptrs:
  "handleArpRequest clk i p False s = Done False s' \<Longrightarrow> request_ptrs s' = request_ptrs s"
  by (auto simp: handleArpRequest_def need_eq_Done Let_def request_ptrs_def map_ar_ptr_update
      split: if_splits sum.splits)

lemma distinct_ptrs: "router_inv s \<Longrightarrow> distinct (request_ptrs s)"
  by (auto simp: request_ptrs_def router_inv_def arp_inv_def)

lemma after_node:
  "distinct (before @ p # todo) \<Longrightarrow> tl (dropWhile (\<lambda>r. r \<noteq> p) (before @ p # todo)) = todo"
  by (induction before) auto

fun timer_result :: "sender_pc \<Rightarrow> timer_pc \<Rightarrow> (SimpleRouter, unit) outcome \<Rightarrow> threads" where
  "timer_result q t (Done _ s) = Threads s t q"
| "timer_result q t (Raised e s) = Died e"
| "timer_result q t (Undef u) = Broken u"

lemma check_requests_steps:
  assumes "router_inv s" and "request_ptrs s = before @ todo" and "\<not> (locked \<and> sending q)"
  shows "\<exists>n. schedule locked clk h ip (replicate n Timer) (Threads s (at_node i todo) q) =
    timer_result q Sweeping (check_requests clk i todo s)"
  using assms
proof (induction todo arbitrary: before i s)
  case Nil
  show ?case by (rule exI [of _ 0]) simp
next
  case (Cons p todo)
  have p: "p \<in> set (request_ptrs s)" using Cons.prems(2) by simp
  have one: "thread_step locked clk h ip Timer (Threads s (At i p) q) =
      (case handleArpRequest clk i p False s of
        Done isRemoved s \<Rightarrow> Threads s (if isRemoved then Sweeping else Past i p) q
      | Raised e s \<Rightarrow> Died e | Undef u \<Rightarrow> Broken u)"
    using p Cons.prems(3) by auto
  show ?case
  proof (cases "\<exists>s'. handleArpRequest clk i p False s = Done False s'")
    case True
    then obtain s' where s': "handleArpRequest clk i p False s = Done False s'" by blast
    have inv: "router_inv s'" using handleArpRequest_inv [OF Cons.prems(1), of clk i p False] s' by simp
    have ptrs: "request_ptrs s' = (before @ [p]) @ todo"
      using handleArpRequest_ptrs [OF s'] Cons.prems(2) by simp
    then have "tl (dropWhile (\<lambda>r. r \<noteq> p) (request_ptrs s')) = todo"
      using distinct_ptrs [OF inv] after_node [of before p todo] by simp
    then have two: "thread_step locked clk h ip Timer (Threads s' (Past i p) q) = Threads s' (at_node (i + 2) todo) q"
      using ptrs Cons.prems(3) by auto
    obtain n where "schedule locked clk h ip (replicate n Timer) (Threads s' (at_node (i + 2) todo) q) =
        timer_result q Sweeping (check_requests clk (i + 2) todo s')"
      using Cons.IH [OF inv ptrs Cons.prems(3)] by blast
    then show ?thesis using one two s' by (intro exI [of _ "Suc (Suc n)"]) simp
  next
    case False
    then show ?thesis
      using one by (intro exI [of _ 1]) (cases "handleArpRequest clk i p False s"; auto)
  qed
qed

lemma timer_alone:
  assumes "router_inv s" and "\<not> sending q"
  shows "\<exists>n. schedule locked clk h ip (replicate n Timer) (Threads s Asleep q) = timer_result q Over (ticker_body clk s)"
proof -
  let ?s = "s\<lparr>m_arp := expire_entries (clk 0) (m_arp s)\<rparr>"
  have inv: "router_inv ?s" using assms(1) by (auto intro: router_inv_arp arp_inv_expire)
  obtain n where n: "schedule locked clk h ip (replicate n Timer) (Threads ?s (at_node 1 (request_ptrs ?s)) q) =
      timer_result q Sweeping (check_requests clk 1 (request_ptrs ?s) ?s)"
    using check_requests_steps [OF inv, of "[]" "request_ptrs ?s" locked q clk h ip 1] assms(2) by auto
  have first: "thread_step locked clk h ip Timer (Threads s Asleep q) = Threads ?s (at_node 1 (request_ptrs ?s)) q"
    using assms(2) by (simp add: Let_def)
  have body: "ticker_body clk s = oc_bind (check_requests clk 1 (request_ptrs ?s) ?s)
      (\<lambda>_ s. Done () (s\<lparr>m_arp := remove_invalid (m_arp s)\<rparr>))"
    by (simp add: ticker_body_def periodicCheckArpRequestsAndCacheEntries_def request_ptrs_def)
  have "schedule locked clk h ip (replicate (Suc n) Timer @ [Timer]) (Threads s Asleep q) = timer_result q Over (ticker_body clk s)"
    using n first assms(2) unfolding schedule_append body replicate_Suc schedule_simps
    by (cases "check_requests clk 1 (request_ptrs ?s) ?s") simp_all
  then show ?thesis by (metis replicate_append_same replicate_Suc)
qed

lemma send_packets_step:
  "send_packets_of h ip (p # ps) s = oc_bind (send_packets_of h ip [p] s) (\<lambda>_ s. send_packets_of h ip ps s)"
proof (cases "rt_lookup (m_routingTable s) ip")
  case (Inr e)
  then show ?thesis
    by (cases "pending_frame h (pp_packet p)"; cases "findIfaceByName (m_ifaces s) (rt_ifName e)") simp_all
qed (cases "pending_frame h (pp_packet p)"; simp)

fun sender_result :: "timer_pc \<Rightarrow> sender_pc \<Rightarrow> (SimpleRouter, unit) outcome \<Rightarrow> threads" where
  "sender_result t q (Done _ s) = Threads s t q"
| "sender_result t q (Raised e s) = Threads s t Gone"
| "sender_result t q (Undef u) = Broken u"

lemma send_packets_steps:
  assumes "\<not> walking t"
  shows "\<exists>n. schedule locked clk h ip (replicate n Sender) (Threads s t (Sending p ps)) =
    sender_result t (Sending p []) (send_packets_of h ip ps s)"
proof (induction ps arbitrary: s)
  case Nil
  show ?case by (rule exI [of _ 0]) simp
next
  case (Cons x ps)
  have one: "thread_step locked clk h ip Sender (Threads s t (Sending p (x # ps))) =
      (case send_packets_of h ip [x] s of
        Done _ s \<Rightarrow> Threads s t (Sending p ps) | Raised e s \<Rightarrow> Threads s t Gone | Undef u \<Rightarrow> Broken u)"
    using assms by simp
  show ?case
  proof (cases "send_packets_of h ip [x] s")
    case (Done u s')
    obtain n where "schedule locked clk h ip (replicate n Sender) (Threads s' t (Sending p ps)) =
        sender_result t (Sending p []) (send_packets_of h ip ps s')" using Cons.IH by blast
    then show ?thesis using one Done by (intro exI [of _ "Suc n"]) (simp add: send_packets_step [of h ip x ps] del: send_packets_of.simps)
  next
    case (Raised e s')
    then show ?thesis
      using one by (intro exI [of _ 1]) (simp add: send_packets_step [of h ip x ps] del: send_packets_of.simps)
  next
    case (Undef u)
    then show ?thesis
      using one by (intro exI [of _ 1]) (simp add: send_packets_step [of h ip x ps] del: send_packets_of.simps)
  qed
qed

lemma broken_stays: "schedule locked clk h ip ths (Broken u) = Broken u" "schedule locked clk h ip ths (Died e) = Died e"
  by (induction ths) simp_all

lemma sender_alone:
  assumes "\<not> walking t"
  shows "\<exists>n. schedule locked clk h ip (replicate n Sender) (Threads s t Entered) =
    sender_result t Gone (sendPendingPackets h ip s)"
proof (cases "find_request (m_arp s) ip")
  case None
  then show ?thesis using assms by (intro exI [of _ 1]) (simp add: sendPendingPackets_def)
next
  case (Some r)
  obtain n where n: "schedule locked clk h ip (replicate n Sender) (Threads s t (Sending (ar_ptr r) (packets r))) =
      sender_result t (Sending (ar_ptr r) []) (send_packets_of h ip (packets r) s)"
    using send_packets_steps [OF assms] by blast
  have "schedule locked clk h ip (replicate (Suc n) Sender @ [Sender]) (Threads s t Entered) =
      sender_result t Gone (sendPendingPackets h ip s)"
    using n Some assms unfolding schedule_append replicate_Suc schedule_simps sendPendingPackets_def
    by (cases "send_packets_of h ip (packets r) s") simp_all
  then show ?thesis by (metis replicate_append_same replicate_Suc)
qed

section \<open>With the mutex\<close>

fun threads_ok :: "threads \<Rightarrow> bool" where
  "threads_ok (Threads s t q) \<longleftrightarrow>
     router_inv s \<and> config_ok s \<and>
     (case t of At i p \<Rightarrow> p \<in> set (request_ptrs s) | Past i p \<Rightarrow> p \<in> set (request_ptrs s) | _ \<Rightarrow> True) \<and>
     (case q of Sending p ps \<Rightarrow> \<forall>x \<in> set ps. 34 \<le> length (pp_packet x) | _ \<Rightarrow> True)"
| "threads_ok _ \<longleftrightarrow> False"

lemma threads_ok_idle:
  "\<not> walking t \<Longrightarrow> threads_ok (Threads s t q) \<longleftrightarrow> router_inv s \<and> config_ok s \<and>
    (case q of Sending p ps \<Rightarrow> \<forall>x \<in> set ps. 34 \<le> length (pp_packet x) | _ \<Rightarrow> True)"
  by (cases t) simp_all

lemma config_ok_routes: "config_ok s \<Longrightarrow> routes_ok s"
  by (simp add: config_ok_def)

lemma handleArpRequest_step:
  assumes "router_inv s" and "config_ok s" and "p \<in> set (request_ptrs s)"
  obtains b s' where "handleArpRequest clk i p False s = Done b s'" and "router_inv s'" and "config_ok s'"
    and "\<not> b \<Longrightarrow> request_ptrs s' = request_ptrs s"
proof -
  obtain r where r: "r \<in> set (m_arpRequests (m_arp s))" "ar_ptr r = p" using assms(3) by (auto simp: request_ptrs_def)
  obtain xs ys where split: "m_arpRequests (m_arp s) = xs @ r # ys" using split_list [OF r(1)] by blast
  have d: "distinct (map ar_ptr (xs @ r # ys))" using distinct_ptrs [OF assms(1)] by (simp add: request_ptrs_def split)
  obtain e where e: "rt_lookup (m_routingTable s) (ar_ip r) = Inr e"
    using config_ok_routable [OF assms(2), of "[r]"] by (auto simp: routable_def)
  have "\<exists>b s'. handleArpRequest clk i p False s = Done b s'"
  proof (cases "due clk i r \<and> \<not> MAX_SENT_TIME \<le> nTimesSent r")
    case True
    then show ?thesis
      using handleArpRequest_send [OF config_ok_routes [OF assms(2)] e d split, of clk i False] unfolding r(2) by blast
  next
    case False
    have "deref_request (m_arp s) p = Some r" using deref_middle [OF d split] r(2) by simp
    with False show ?thesis by (auto simp: handleArpRequest_def)
  qed
  then obtain b s' where s': "handleArpRequest clk i p False s = Done b s'" by blast
  then have "router_inv s'" "same_config s s'" using handleArpRequest_inv [OF assms(1), of clk i p False] by simp_all
  with s' show ?thesis
    using that [of b s'] config_ok_same assms(2) handleArpRequest_ptrs [of clk i p s s'] by (cases b) simp_all
qed

lemma at_node_ok:
  "set ps \<subseteq> set (request_ptrs s) \<Longrightarrow>
   case at_node i ps of At i p \<Rightarrow> p \<in> set (request_ptrs s) | Past i p \<Rightarrow> p \<in> set (request_ptrs s) | _ \<Rightarrow> True"
  by (cases ps) simp_all

lemma timer_step_ok:
  assumes "threads_ok (Threads s t q)"
  shows "threads_ok (timer_step clk s t q)"
proof (cases t)
  case Asleep
  have "router_inv (s\<lparr>m_arp := expire_entries (clk 0) (m_arp s)\<rparr>)" using assms(1) by (auto intro: router_inv_arp arp_inv_expire)
  moreover have "config_ok (s\<lparr>m_arp := expire_entries (clk 0) (m_arp s)\<rparr>)"
    using assms(1) config_ok_same [of s "s\<lparr>m_arp := expire_entries (clk 0) (m_arp s)\<rparr>"] by (simp add: same_config_def)
  ultimately show ?thesis using assms Asleep by (cases q; cases "request_ptrs s") (simp_all add: Let_def)
next
  case (At i p)
  then obtain b s' where "handleArpRequest clk i p False s = Done b s'" "router_inv s'" "config_ok s'"
      "\<not> b \<Longrightarrow> request_ptrs s' = request_ptrs s"
    using handleArpRequest_step [of s p clk i] assms(1) by auto
  then show ?thesis using assms At by (cases q) auto
next
  case (Past i p)
  have "set (tl (dropWhile (\<lambda>r. r \<noteq> p) (request_ptrs s))) \<subseteq> set (request_ptrs s)"
  proof
    fix x assume "x \<in> set (tl (dropWhile (\<lambda>r. r \<noteq> p) (request_ptrs s)))"
    then have "x \<in> set (dropWhile (\<lambda>r. r \<noteq> p) (request_ptrs s))"
      by (cases "dropWhile (\<lambda>r. r \<noteq> p) (request_ptrs s)" rule: list.exhaust) (simp_all only: list.sel set_simps insert_iff empty_iff simp_thms)
    then show "x \<in> set (request_ptrs s)" by (meson set_dropWhileD)
  qed
  from at_node_ok [OF this] show ?thesis using assms Past by (cases q) simp_all
next
  case Sweeping
  have "router_inv (s\<lparr>m_arp := remove_invalid (m_arp s)\<rparr>)" using assms(1) by (auto intro: router_inv_arp arp_inv_remove_invalid)
  moreover have "config_ok (s\<lparr>m_arp := remove_invalid (m_arp s)\<rparr>)"
    using assms(1) config_ok_same [of s "s\<lparr>m_arp := remove_invalid (m_arp s)\<rparr>"] by (simp add: same_config_def)
  ultimately show ?thesis using assms Sweeping by (cases q) simp_all
qed (use assms in simp)

lemma remove_ptrs: "set (request_ptrs (s\<lparr>m_arp := removeRequest p (m_arp s)\<rparr>)) = set (request_ptrs s) - {p}"
  by (auto simp: request_ptrs_def removeRequest_def)

lemma sender_step_ok:
  assumes "threads_ok (Threads s t q)" and "arp_wf h" and "\<not> frees_node t q"
  shows "threads_ok (sender_step h ip s t q)"
proof (cases q)
  case Entered
  have "arp_inv (m_arp s)" using assms(1) by (simp add: router_inv_def)
  then have "\<forall>x \<in> set (packets r). 34 \<le> length (pp_packet x)" if "find_request (m_arp s) ip = Some r" for r
    using pending_ok that by (simp add: request_ok_def)
  then show ?thesis using assms(1) Entered by (cases "find_request (m_arp s) ip") simp_all
next
  case (Sending p ps)
  show ?thesis
  proof (cases ps)
    case Nil
    have "router_inv (s\<lparr>m_arp := removeRequest p (m_arp s)\<rparr>)" using assms(1) by (auto intro: router_inv_arp arp_inv_remove)
    moreover have "config_ok (s\<lparr>m_arp := removeRequest p (m_arp s)\<rparr>)"
      using assms(1) config_ok_same [of s "s\<lparr>m_arp := removeRequest p (m_arp s)\<rparr>"] by (simp add: same_config_def)
    ultimately show ?thesis
      using assms(1,3) by (cases t) (auto simp: Sending Nil remove_ptrs)
  next
    case (Cons x xs)
    have s: "router_inv s" "config_ok s" and xs: "\<forall>y \<in> set (x # xs). 34 \<le> length (pp_packet y)"
      using assms(1) Sending Cons by simp_all
    then have x: "\<forall>y \<in> set [x]. 34 \<le> length (pp_packet y)" by simp
    have "\<not> is_undef (send_packets_of h ip [x] s)"
      by (rule send_packets_of_safe [OF assms(2) x config_ok_routes [OF s(2)]])
    moreover have "oc_all (\<lambda>s'. router_inv s' \<and> same_config s s' \<and> m_arp s' = m_arp s) (send_packets_of h ip [x] s)"
      by (rule send_packets_of_frame [OF assms(2) x s(1)])
    ultimately obtain s' where s': "router_inv s'" "config_ok s'" "request_ptrs s' = request_ptrs s" and
        "send_packets_of h ip [x] s = Done () s' \<or> (\<exists>e. send_packets_of h ip [x] s = Raised e s')"
      using config_ok_same [of s] s(2)
      by (cases "send_packets_of h ip [x] s") (auto simp: request_ptrs_def simp del: send_packets_of.simps)
    then show ?thesis
      using assms(1) xs unfolding Sending Cons sender_step.simps
      by (cases t; elim disjE exE) (simp_all del: send_packets_of.simps)
  qed
qed (use assms in simp)

lemma locked_step_ok: "threads_ok x \<Longrightarrow> arp_wf h \<Longrightarrow> threads_ok (thread_step True clk h ip th x)"
proof (cases x; cases th)
  fix s t q
  assume x: "threads_ok x" "arp_wf h" "x = Threads s t q" "th = Sender"
  have "\<not> walking t \<Longrightarrow> \<not> frees_node t q" by (cases t) simp_all
  with x show ?thesis by (simp del: threads_ok.simps add: sender_step_ok)
qed (simp_all del: threads_ok.simps add: timer_step_ok)

lemma locked_schedule_ok: "threads_ok x \<Longrightarrow> arp_wf h \<Longrightarrow> threads_ok (schedule True clk h ip ths x)"
  by (induction ths arbitrary: x) (simp_all del: threads_ok.simps add: locked_step_ok)

section \<open>Orders that leave the iterator its node\<close>

lemma careful_step_ok: "threads_ok x \<Longrightarrow> arp_wf h \<Longrightarrow> spares x th \<Longrightarrow> threads_ok (thread_step False clk h ip th x)"
  by (cases x; cases th) (simp_all del: threads_ok.simps add: timer_step_ok sender_step_ok)

lemma careful_schedule_ok:
  "threads_ok x \<Longrightarrow> arp_wf h \<Longrightarrow> careful clk h ip ths x \<Longrightarrow> threads_ok (schedule False clk h ip ths x)"
  by (induction ths arbitrary: x) (simp_all del: threads_ok.simps add: careful_step_ok)

lemma timer_schedule_ok: "threads_ok x \<Longrightarrow> threads_ok (schedule False clk h ip (replicate n Timer) x)"
proof (induction n arbitrary: x)
  case (Suc n)
  have "threads_ok (thread_step False clk h ip Timer x)"
    using Suc.prems by (cases x) (simp_all del: threads_ok.simps add: timer_step_ok)
  from Suc.IH [OF this] show ?case by simp
qed simp

lemma walk_on_ok:
  assumes "threads_ok (Threads s (at_node i todo) q)" and "request_ptrs s = before @ todo"
  shows "\<exists>s'. walk_on clk i todo s = Done () s' \<and> threads_ok (Threads s' Over q)"
proof -
  have "router_inv s" using assms(1) by simp
  from check_requests_steps [OF this assms(2), of False q clk undefined 0 i] obtain n where
    "schedule False clk undefined 0 (replicate n Timer) (Threads s (at_node i todo) q) =
      timer_result q Sweeping (check_requests clk i todo s)" by auto
  with timer_schedule_ok [OF assms(1), of clk undefined 0 n] have "threads_ok (timer_result q Sweeping (check_requests clk i todo s))"
    by metis
  then obtain s' where s': "check_requests clk i todo s = Done () s'" "threads_ok (Threads s' Sweeping q)"
    by (cases "check_requests clk i todo s") simp_all
  from timer_step_ok [OF s'(2), of clk] s'(1) show ?thesis by (simp add: walk_on_def)
qed

lemma timer_rest_ok:
  assumes "threads_ok (Threads s t q)"
  shows "\<exists>s'. timer_rest clk s t = Done () s' \<and> threads_ok (Threads s' Over q)"
proof -
  have d: "distinct (request_ptrs s)" using assms distinct_ptrs by simp
  have node: "\<exists>before todo. request_ptrs s = before @ p # todo \<and> dropWhile (\<lambda>r. r \<noteq> p) (request_ptrs s) = p # todo"
    if p: "p \<in> set (request_ptrs s)" for p
  proof -
    obtain before todo where split: "request_ptrs s = before @ p # todo" using split_list [OF p] by blast
    then have "dropWhile (\<lambda>r. r \<noteq> p) (request_ptrs s) = p # todo" using d by (subst split, subst dropWhile_append2) auto
    with split show ?thesis by blast
  qed
  show ?thesis
  proof (cases t)
    case (At i p)
    then obtain before todo where n: "request_ptrs s = before @ p # todo" "dropWhile (\<lambda>r. r \<noteq> p) (request_ptrs s) = p # todo"
      using node [of p] assms by auto
    with walk_on_ok [of s i "p # todo" q before clk] assms At show ?thesis by simp
  next
    case (Past i p)
    then obtain before todo where n: "request_ptrs s = before @ p # todo" "dropWhile (\<lambda>r. r \<noteq> p) (request_ptrs s) = p # todo"
      using node [of p] assms by auto
    then have "threads_ok (Threads s (at_node (i + 2) todo) q)" using assms Past by (cases todo) auto
    from walk_on_ok [OF this, of "before @ [p]" clk] n Past show ?thesis by simp
  next
    case Sweeping
    with timer_step_ok [OF assms, of clk] show ?thesis by (simp add: walk_on_def)
  qed (use assms in simp_all)
qed

lemma sender_rest_ok:
  assumes "threads_ok (Threads s t q)" and "arp_wf h"
  shows "\<not> is_undef (sender_rest h ip s q)"
proof (cases q)
  case Entered
  then show ?thesis using assms sendPendingPackets_safe [OF assms(2)] by (simp add: config_ok_def)
next
  case (Sending p ps)
  have "\<not> is_undef (send_packets_of h ip ps s)"
    by (rule send_packets_of_safe [OF assms(2)]) (use assms(1) Sending in \<open>simp_all add: config_ok_routes\<close>)
  with Sending show ?thesis by (simp add: is_undef_bind)
qed simp

section \<open>Every order keeps the invariant\<close>

fun threads_inv :: "SimpleRouter \<Rightarrow> threads \<Rightarrow> bool" where
  "threads_inv s\<^sub>0 (Threads s t q) \<longleftrightarrow> router_inv s \<and> same_config s\<^sub>0 s \<and>
     (case q of Sending p ps \<Rightarrow> \<forall>x \<in> set ps. 34 \<le> length (pp_packet x) | _ \<Rightarrow> True)"
| "threads_inv s\<^sub>0 _ \<longleftrightarrow> True"

lemma threads_inv_timer: "threads_inv s\<^sub>0 (Threads s t q) \<Longrightarrow> threads_inv s\<^sub>0 (timer_step clk s t q)"
proof (cases t)
  case (At i p)
  assume a: "threads_inv s\<^sub>0 (Threads s t q)"
  then have "oc_all (\<lambda>s'. router_inv s' \<and> same_config s s') (handleArpRequest clk i p False s)"
    using handleArpRequest_inv [of s clk i p False] by simp
  with a At show ?thesis
    by (cases "handleArpRequest clk i p False s") (auto intro: same_config_trans)
qed (auto simp: Let_def same_config_def intro!: router_inv_arp arp_inv_expire arp_inv_remove_invalid)

lemma threads_inv_sender:
  assumes "threads_inv s\<^sub>0 (Threads s t q)" and "arp_wf h"
  shows "threads_inv s\<^sub>0 (sender_step h ip s t q)"
proof (cases q)
  case Entered
  have "arp_inv (m_arp s)" using assms(1) by (simp add: router_inv_def)
  then have "\<forall>x \<in> set (packets r). 34 \<le> length (pp_packet x)" if "find_request (m_arp s) ip = Some r" for r
    using pending_ok that by (simp add: request_ok_def)
  then show ?thesis using assms(1) Entered by (cases "find_request (m_arp s) ip") simp_all
next
  case (Sending p ps)
  show ?thesis
  proof (cases ps)
    case Nil
    then show ?thesis using assms(1) Sending by (auto simp: same_config_def intro!: router_inv_arp arp_inv_remove)
  next
    case (Cons x xs)
    have x: "\<forall>y \<in> set [x]. 34 \<le> length (pp_packet y)" and s: "router_inv s" using assms(1) Sending Cons by simp_all
    from send_packets_of_frame [OF assms(2) x s, of ip] assms(1) show ?thesis
      unfolding Sending Cons sender_step.simps
      by (cases "send_packets_of h ip [x] s") (auto simp del: send_packets_of.simps intro: same_config_trans)
  qed
qed (use assms in simp)

lemma threads_inv_schedule: "threads_inv s\<^sub>0 x \<Longrightarrow> arp_wf h \<Longrightarrow> threads_inv s\<^sub>0 (schedule locked clk h ip ths x)"
proof (induction ths arbitrary: x)
  case (Cons th ths)
  have "threads_inv s\<^sub>0 (thread_step locked clk h ip th x)"
    using Cons.prems by (cases x; cases th) (simp_all del: threads_inv.simps add: threads_inv_timer threads_inv_sender)
  from Cons.IH [OF this Cons.prems(2)] show ?case by simp
qed simp

lemma walk_on_inv: "router_inv s \<Longrightarrow> oc_all (\<lambda>s'. router_inv s' \<and> same_config s s') (walk_on clk i todo s)"
  unfolding walk_on_def
  by (rule oc_all_bind [OF check_requests_inv]) (auto simp: same_config_def intro!: router_inv_arp arp_inv_remove_invalid)

lemma timer_rest_inv: "router_inv s \<Longrightarrow> oc_all (\<lambda>s'. router_inv s' \<and> same_config s s') (timer_rest clk s t)"
  by (cases t) (simp_all add: walk_on_inv)

lemma sender_rest_inv:
  assumes "threads_inv s\<^sub>0 (Threads s t q)" and "arp_wf h"
  shows "oc_all (\<lambda>s'. router_inv s' \<and> same_config s s') (sender_rest h ip s q)"
proof (cases q)
  case Entered
  then show ?thesis using assms sendPendingPackets_inv [OF assms(2)] by simp
next
  case (Sending p ps)
  then have ps: "\<forall>y \<in> set ps. 34 \<le> length (pp_packet y)" and s: "router_inv s" using assms(1) by simp_all
  show ?thesis
    unfolding Sending sender_rest.simps
    by (rule oc_all_bind, rule oc_all_mono [OF send_packets_of_frame [OF assms(2) ps s]], simp)
      (auto simp: same_config_def intro!: router_inv_arp arp_inv_remove)
qed (use assms in simp)

section \<open>Without the mutex\<close>

text \<open>
  The timer handles the first request; before it goes on, the answer for that request arrives, all
  packets are sent and the node is removed; then the iterator is advanced from the freed node.
\<close>

lemma request_head:
  assumes "router_inv s" and "m_arpRequests (m_arp s) = r # rs"
  shows "find_request (m_arp s) (ar_ip r) = Some r" and "ar_ptr r \<notin> set (map ar_ptr rs)"
    and "\<forall>x \<in> set (packets r). 34 \<le> length (pp_packet x)"
  using assms by (auto simp: find_request_def router_inv_def arp_inv_def request_ok_def)

lemma update_head:
  assumes "router_inv s" and "config_ok s" and "m_arpRequests (m_arp s) = r # rs"
    and "\<not> (due clk 1 r \<and> MAX_SENT_TIME \<le> nTimesSent r)"
  obtains r' s' where "handleArpRequest clk 1 (ar_ptr r) False s = Done False s'" and "ar_ptr r' = ar_ptr r" and "ar_ip r' = ar_ip r"
    and "m_arpRequests (m_arp s') = r' # rs" and "router_inv s'" and "config_ok s'"
proof -
  have d: "distinct (map ar_ptr ([] @ r # rs))" and split: "m_arpRequests (m_arp s) = [] @ r # rs"
    using distinct_ptrs [OF assms(1)] assms(3) by (simp_all add: request_ptrs_def)
  have "\<exists>r' s'. handleArpRequest clk 1 (ar_ptr r) False s = Done False s' \<and> ar_ptr r' = ar_ptr r \<and> ar_ip r' = ar_ip r \<and>
    m_arpRequests (m_arp s') = r' # rs"
  proof (cases "due clk 1 r")
    case True
    obtain e where e: "rt_lookup (m_routingTable s) (ar_ip r) = Inr e"
      using config_ok_routable [OF assms(2), of "[r]"] by (auto simp: routable_def)
    show ?thesis
      using handleArpRequest_send [where clk = clk and i = 1, OF config_ok_routes [OF assms(2)] e d split True, of False] True assms(4)
      by (intro exI [of _ "r\<lparr>timeSent := clk (Suc 1), nTimesSent := nTimesSent r + 1\<rparr>"]) simp
  next
    case False
    then show ?thesis using deref_middle [OF d split] assms(3) by (auto simp: handleArpRequest_def)
  qed
  then obtain r' s' where rs': "handleArpRequest clk 1 (ar_ptr r) False s = Done False s'" "ar_ptr r' = ar_ptr r"
      "ar_ip r' = ar_ip r" "m_arpRequests (m_arp s') = r' # rs" by blast
  have "router_inv s'" "same_config s s'" using handleArpRequest_inv [OF assms(1), of clk 1 "ar_ptr r" False] rs'(1) by simp_all
  then show ?thesis using that [OF rs'] config_ok_same assms(2) by blast
qed

lemma unlocked_breaks:
  assumes "router_inv s" and "config_ok s" and "m_arpRequests (m_arp s) = r # rs" and "arp_wf h"
    and "\<not> (due clk 1 r \<and> MAX_SENT_TIME \<le> nTimesSent r)"
  shows "\<exists>ths. schedule False clk h (ar_ip r) ths (Threads s Asleep Entered) = Broken UseAfterFree"
proof -
  let ?s = "s\<lparr>m_arp := expire_entries (clk 0) (m_arp s)\<rparr>"
  have "router_inv ?s" using assms(1) by (auto intro: router_inv_arp arp_inv_expire)
  moreover have "config_ok ?s" using assms(2) config_ok_same [of s ?s] by (simp add: same_config_def)
  ultimately obtain r' s' where r': "handleArpRequest clk 1 (ar_ptr r) False ?s = Done False s'" "ar_ptr r' = ar_ptr r"
      "ar_ip r' = ar_ip r" "m_arpRequests (m_arp s') = r' # rs" "router_inv s'" "config_ok s'"
    by (rule update_head [of ?s r rs clk]) (use assms(3,5) in simp_all)
  note head = request_head [OF r'(5,4)]
  let ?t = "Past 1 (ar_ptr r)"
  have start: "schedule False clk h (ar_ip r) [Timer, Timer, Sender] (Threads s Asleep Entered) =
      Threads s' ?t (Sending (ar_ptr r') (packets r'))"
    using assms(3) r'(1) head(1) r'(3) by (simp add: Let_def request_ptrs_def)
  obtain e where e: "rt_lookup (m_routingTable s') (ar_ip r) = Inr e"
    using config_ok_routable [OF r'(6), of "[r']"] r'(3) by (auto simp: routable_def)
  obtain i where i: "findIfaceByName (m_ifaces s') (rt_ifName e) = Some i"
    by (rule routes_ok_route [OF config_ok_routes [OF r'(6)] e])
  have sent: "schedule False clk h (ar_ip r) (replicate (length ps) Sender) (Threads u ?t (Sending p ps)) =
      Threads (u\<lparr>sent := sent u @ map (\<lambda>x. (pending_bytes h (pp_packet x), if_name i)) ps\<rparr>) ?t (Sending p [])"
    if "\<forall>x \<in> set ps. 34 \<le> length (pp_packet x)" "m_routingTable u = m_routingTable s'" "m_ifaces u = m_ifaces s'" for u p ps
    using that
  proof (induction ps arbitrary: u)
    case (Cons x ps)
    have "send_packets_of h (ar_ip r) [x] u = Done () (u\<lparr>sent := sent u @ [(pending_bytes h (pp_packet x), if_name i)]\<rparr>)"
      using send_packets_of_Done [OF assms(4), of "[x]" u "ar_ip r" e i] Cons.prems e i by simp
    then show ?case using Cons.IH [of "u\<lparr>sent := sent u @ [(pending_bytes h (pp_packet x), if_name i)]\<rparr>"] Cons.prems
      by (simp del: send_packets_of.simps)
  qed simp
  let ?v = "s'\<lparr>sent := sent s' @ map (\<lambda>x. (pending_bytes h (pp_packet x), if_name i)) (packets r')\<rparr>"
  have "ar_ptr r \<notin> set (request_ptrs (?v\<lparr>m_arp := removeRequest (ar_ptr r') (m_arp ?v)\<rparr>))"
    using r'(2,4) by (auto simp: request_ptrs_def removeRequest_def)
  then have "schedule False clk h (ar_ip r) [Sender, Timer] (Threads ?v ?t (Sending (ar_ptr r') [])) = Broken UseAfterFree"
    by simp
  then have "schedule False clk h (ar_ip r) ([Timer, Timer, Sender] @ replicate (length (packets r')) Sender @ [Sender, Timer])
      (Threads s Asleep Entered) = Broken UseAfterFree"
    unfolding schedule_append start sent [OF head(3) refl refl] .
  then show ?thesis by blast
qed

end
