(* ===== verification/RouterTicks.thy ===== *)
theory RouterTicks
  imports RouterThreads
begin

text \<open>
  A frame handler and the timer at the same time. The mutex of the cache is held during one member
  function of it, not during a whole handler: between two accesses of a handler to the cache the
  timer thread may run. The handlers of \<open>PacketHandling\<close> again, with the ticks that come before
  each access: \<open>ticks k\<close> before the access with the number \<open>k\<close>, where \<open>3\<close> is the second lookup of a
  packet that is forwarded and nothing else; without ticks they are the handlers as they were.
  \<^verbatim>\<open>sendPendingPackets\<close> takes no lock at all: during it a tick may run in the steps of \<open>RouterThreads\<close>
  (\<open>send_during\<close>).

  The lemmas: all orders keep the invariant of the router; only a tick between the two lookups
  of a packet that is forwarded, and a tick that stands on the node \<^verbatim>\<open>sendPendingPackets\<close> removes, can
  break it; the first does when the entry expires in between, the second always.
\<close>

section \<open>Handlers with ticks in between\<close>

text \<open>
  The value is the exception by which the timer ended the program, if it did. \<open>rest\<close> is what
  the handler does after the ticks.
\<close>

type_synonym interrupted = "(SimpleRouter, string option) outcome"

definition between :: "clock list \<Rightarrow> SimpleRouter \<Rightarrow> (SimpleRouter \<Rightarrow> interrupted) \<Rightarrow> interrupted" where
  "between clks s rest =
     (case run_ticks clks s of
        Done _ s \<Rightarrow> rest s
      | Raised e s \<Rightarrow> Done (Some e) s
      | Undef u \<Rightarrow> Undef u)"

definition finish :: "(SimpleRouter, unit) outcome \<Rightarrow> interrupted" where
  "finish m = oc_bind m (\<lambda>_ s. Done None s)"

text \<open>
  \<^verbatim>\<open>sendPendingPackets\<close> with a tick during it: the two threads take their steps in the order \<open>ths\<close>; what
  is then left the timer does first, if its tick has begun, and then the sender. (When the program
  has been ended the state is of no interest.)
\<close>

definition send_during :: "clock \<Rightarrow> thread list \<Rightarrow> arp_hdr \<Rightarrow> u32 \<Rightarrow> SimpleRouter \<Rightarrow> interrupted" where
  "send_during clk ths h dst_ip s =
     (case schedule False clk h dst_ip ths (Threads s Asleep Entered) of
        Threads s t q \<Rightarrow>
          (case timer_rest clk s t of
             Done _ s \<Rightarrow> finish (sender_rest h dst_ip s q)
           | Raised e s \<Rightarrow> Done (Some e) s
           | Undef u \<Rightarrow> Undef u)
      | Died e \<Rightarrow> Done (Some e) s
      | Broken u \<Rightarrow> Undef u)"

text \<open>In place of it, whether the iterator of the timer keeps its node in that order.\<close>

definition send_watched :: "clock \<Rightarrow> thread list \<Rightarrow> arp_hdr \<Rightarrow> u32 \<Rightarrow> SimpleRouter \<Rightarrow> interrupted" where
  "send_watched clk ths h dst_ip s =
     (if careful clk h dst_ip ths (Threads s Asleep Entered) then Done None s else Undef UseAfterFree)"

definition learn_source_ticks ::
  "(nat \<Rightarrow> clock list) \<Rightarrow> nat \<Rightarrow> time_point \<Rightarrow> buffer \<Rightarrow> u32 \<Rightarrow> SimpleRouter \<Rightarrow>
   (bool \<Rightarrow> SimpleRouter \<Rightarrow> interrupted) \<Rightarrow> interrupted" where
  "learn_source_ticks ticks k now packet ip s rest =
     between (ticks k) s (\<lambda>s.
       case arp_lookup (m_arp s) ip of
         Some _ \<Rightarrow> rest False s
       | None \<Rightarrow>
           need OutOfBounds (mem_read 6 6 packet) (\<lambda>source.
             between (ticks (Suc k)) s (\<lambda>s.
               rest True (s\<lparr>m_arp := snd (insertArpEntry now source ip (m_arp s))\<rparr>))))"

text \<open>\<open>send\<close> is what happens in the call of \<^verbatim>\<open>sendPendingPackets\<close>.\<close>

definition handleArpPacket_ticks ::
  "(arp_hdr \<Rightarrow> u32 \<Rightarrow> SimpleRouter \<Rightarrow> interrupted) \<Rightarrow> (nat \<Rightarrow> clock list) \<Rightarrow> clock \<Rightarrow> buffer \<Rightarrow> ethernet_hdr \<Rightarrow> SimpleRouter \<Rightarrow> interrupted" where
  "handleArpPacket_ticks send ticks clk packet e_hdr s =
     need OutOfBounds (getArpPacket packet) (\<lambda>arp_packet.
       if arp_op arp_packet = ntohs 0x0001 then
         learn_source_ticks ticks 0 (clk 1) packet (arp_sip arp_packet) s (\<lambda>_ s.
           case findIfaceByIp (m_ifaces s) (arp_tip arp_packet) of
             None \<Rightarrow> Done None s
           | Some myInterface \<Rightarrow>
               need OutOfBounds (assembleArpInterfaceReplyPacket myInterface e_hdr arp_packet)
                 (\<lambda>replyPacket. Done None (sendPacket replyPacket (if_name myInterface) s)))
       else if arp_op arp_packet = htons 0x0002 then
         learn_source_ticks ticks 0 (clk 1) packet (arp_sip arp_packet) s (\<lambda>learnt s.
           if learnt then
             between (ticks 2) s (send arp_packet (arp_sip arp_packet))
           else Done None s)
       else Done None s)"

text \<open>The routing table and the interfaces, which \<open>forward_packet\<close> reads first, are the same after a tick.\<close>

definition handleIpPacket_ticks ::
  "(nat \<Rightarrow> clock list) \<Rightarrow> clock \<Rightarrow> buffer \<Rightarrow> ethernet_hdr \<Rightarrow> SimpleRouter \<Rightarrow> interrupted" where
  "handleIpPacket_ticks ticks clk packet e_hdr s =
     need OutOfBounds (getIpPacket packet) (\<lambda>ip_packet.
     let TTL = ip_ttl ip_packet - 1 in
     need OutOfBounds (cksum (ip_hdr_bytes ip_packet) 20) (\<lambda>sm.
       if sm = 0xffff then
         let ip_packet = ip_packet\<lparr>ip_ttl := TTL\<rparr>;
             myInterface = findIfaceByIp (m_ifaces s) (ip_dst ip_packet) in
         learn_source_ticks ticks 0 (clk 1) packet (ip_src ip_packet) s (\<lambda>_ s.
           if myInterface \<noteq> None then
             finish (if ip_p ip_packet = 0x01 then handleIcmpPacket packet e_hdr 0 s
              else if ip_p ip_packet = 0x11 then handleIcmpPacket packet e_hdr 1 s
              else Done () s)
           else if TTL \<le> 0 then
             learn_source_ticks ticks 4 (clk 2) packet (ip_src ip_packet) s (\<lambda>_ s.
               finish (handleIcmpPacket packet e_hdr 1 s))
           else
             between (ticks 2) s (\<lambda>s.
               if arp_lookup (m_arp s) (ip_dst ip_packet) \<noteq> None then
                 between (ticks 3) s (\<lambda>s. finish (forward_packet packet ip_packet e_hdr TTL s))
               else
                 need NullDeref (findIfaceByMac (m_ifaces s) (ether_dhost e_hdr)) (\<lambda>myInter.
                   between (ticks 4) s (\<lambda>s.
                     Done None (s\<lparr>m_arp :=
                       snd (queueRequest (ip_dst ip_packet) packet (if_name myInter) (m_arp s))\<rparr>)))))
       else Done None s))"

definition handlePacket_ticks ::
  "(arp_hdr \<Rightarrow> u32 \<Rightarrow> SimpleRouter \<Rightarrow> interrupted) \<Rightarrow> (nat \<Rightarrow> clock list) \<Rightarrow> clock \<Rightarrow> buffer \<Rightarrow> string \<Rightarrow> SimpleRouter \<Rightarrow> interrupted" where
  "handlePacket_ticks send ticks clk packet inIface s =
     (let s = s\<lparr>temp_iface := inIface\<rparr> in
      case findIfaceByName (m_ifaces s) inIface of
        None \<Rightarrow> Done None s
      | Some iface \<Rightarrow>
          (case (show_arp (clk 0) (m_arp s), printIfaces (m_ifaces s)) of
             (Some _, Some _) \<Rightarrow>
               need OutOfBounds (getEthernetHeader packet) (\<lambda>ether_hdr.
                 if ether_type ether_hdr = ntohs 0x0806 then handleArpPacket_ticks send ticks clk packet ether_hdr s
                 else if ether_type ether_hdr = ntohs 0x0800 then handleIpPacket_ticks ticks clk packet ether_hdr s
                 else Done None s)
           | _ \<Rightarrow> Raised ''out_of_range'' s))"

section \<open>Without ticks\<close>

lemma between_Nil [simp]: "between [] s rest = rest s"
  by (simp add: between_def)

lemma finish_simps [simp]:
  "finish (Done x s) = Done None s" "finish (Raised e s) = Raised e s" "finish (Undef u) = Undef u"
  by (simp_all add: finish_def)

lemma finish_bind: "finish (oc_bind m f) = oc_bind m (\<lambda>a s. finish (f a s))"
  by (cases m) simp_all

lemma finish_need: "finish (need u x f) = need u x (\<lambda>a. finish (f a))"
  by (cases x) simp_all

lemma learn_source_no_ticks:
  "ticks k = [] \<Longrightarrow> ticks (Suc k) = [] \<Longrightarrow>
   learn_source_ticks ticks k now p ip s rest = oc_bind (learn_source now p ip s) rest"
  by (cases "mem_read 6 6 p") (simp_all add: learn_source_ticks_def learn_source_def split: option.split)

lemma send_during_Nil [simp]: "send_during clk [] h ip s = finish (sendPendingPackets h ip s)"
  by (simp add: send_during_def)

lemma handleArpPacket_no_ticks:
  assumes "\<And>k. ticks k = []"
  shows "handleArpPacket_ticks (send_during clk' []) ticks clk p e s = finish (handleArpPacket clk p e s)"
proof (cases "getArpPacket p")
  case (Some h)
  have learn: "learn_source_ticks ticks 0 now p ip s rest = oc_bind (learn_source now p ip s) rest" for now ip s rest
    using assms by (intro learn_source_no_ticks)
  show ?thesis
    unfolding handleArpPacket_ticks_def handleArpPacket_def Some need.simps learn assms between_Nil send_during_Nil
    by (auto simp: finish_bind finish_need if_distrib [of finish] split: option.split intro!: arg_cong2 [where f = oc_bind] ext)
qed (simp add: handleArpPacket_ticks_def handleArpPacket_def)

lemma handleIpPacket_no_ticks:
  assumes "\<And>k. ticks k = []"
  shows "handleIpPacket_ticks ticks clk p e s = finish (handleIpPacket clk p e s)"
proof -
  have learn: "learn_source_ticks ticks k now p ip s rest = oc_bind (learn_source now p ip s) rest" for k now ip s rest
    using assms by (intro learn_source_no_ticks)
  show ?thesis
    unfolding handleIpPacket_ticks_def handleIpPacket_def learn assms between_Nil Let_def
    by (auto simp: finish_bind finish_need if_distrib [of finish] intro!: arg_cong2 [where f = oc_bind] arg_cong [where f = "need _ _"] ext)
qed

lemma handlePacket_no_ticks:
  assumes "\<And>k. ticks k = []"
  shows "handlePacket_ticks (send_during clk' []) ticks clk p inIface s = finish (handlePacket clk p inIface s)"
  unfolding handlePacket_ticks_def handlePacket_def Let_def handleArpPacket_no_ticks [OF assms] handleIpPacket_no_ticks [OF assms]
  by (auto simp: finish_need if_distrib [of finish] split: option.split intro!: arg_cong [where f = "need _ _"] ext)


section \<open>What ticks do in between\<close>

text \<open>They keep the invariant and the configuration, and no address is learnt by them.\<close>

definition ticked :: "SimpleRouter \<Rightarrow> SimpleRouter \<Rightarrow> bool" where
  "ticked s s' \<longleftrightarrow> router_inv s' \<and> same_config s s' \<and> temp_iface s' = temp_iface s \<and>
     dom (arp_mac (m_arp s')) \<subseteq> dom (arp_mac (m_arp s))"

lemma ticked_refl: "router_inv s \<Longrightarrow> ticked s s"
  by (simp add: ticked_def)

lemma ticked_trans: "ticked s s' \<Longrightarrow> ticked s' s'' \<Longrightarrow> ticked s s''"
  using same_config_trans [of s s' s'']
    subset_trans [of "dom (arp_mac (m_arp s''))" "dom (arp_mac (m_arp s'))" "dom (arp_mac (m_arp s))"]
  by (simp add: ticked_def)

lemma oc_all_conj: "oc_all P m \<Longrightarrow> oc_all Q m \<Longrightarrow> oc_all (\<lambda>s. P s \<and> Q s) m"
  by (cases m) auto

lemma handleArpRequest_frame:
  "oc_all (\<lambda>s'. m_cacheEntries (m_arp s') = m_cacheEntries (m_arp s) \<and> temp_iface s' = temp_iface s)
    (handleArpRequest clk i p b s)"
  unfolding handleArpRequest_def
  by (auto intro!: oc_all_need simp: Let_def removeRequest_def update_request_def split: sum.split)

lemma check_requests_frame:
  "oc_all (\<lambda>s'. m_cacheEntries (m_arp s') = m_cacheEntries (m_arp s) \<and> temp_iface s' = temp_iface s)
    (check_requests clk i ps s)"
proof (induction ps arbitrary: i s)
  case (Cons p ps)
  show ?case
    unfolding check_requests.simps
  proof (rule oc_all_bind [OF handleArpRequest_frame])
    fix b and s' :: SimpleRouter
    assume "m_cacheEntries (m_arp s') = m_cacheEntries (m_arp s) \<and> temp_iface s' = temp_iface s"
    with Cons.IH [of s' "i + 2"]
    show "oc_all (\<lambda>s'. m_cacheEntries (m_arp s') = m_cacheEntries (m_arp s) \<and> temp_iface s' = temp_iface s)
        (if b then Done () s' else check_requests clk (i + 2) ps s')"
      by (auto elim!: oc_all_mono)
  qed
qed simp

lemma dom_arp_mac: "dom (arp_mac c) = ae_ip ` set (filter isValid (m_cacheEntries c))"
proof -
  have "ip \<in> dom (arp_mac c) \<longleftrightarrow> ip \<in> ae_ip ` set (filter isValid (m_cacheEntries c))" for ip
    using arp_lookup_None [of c ip] by (auto simp: dom_def arp_mac_def)
  then show ?thesis by blast
qed

lemma dom_arp_mac_tick:
  assumes "distinct (map ae_ptr (m_cacheEntries c'))" and "m_cacheEntries c' = m_cacheEntries (expire_entries now c)"
  shows "dom (arp_mac (remove_invalid c')) = ae_ip ` set (fresh_entries now (m_cacheEntries c))"
proof -
  have "filter isValid (m_cacheEntries (remove_invalid c')) = filter isValid (m_cacheEntries (expire_entries now c))"
    using remove_invalid_eq [OF assms(1)] assms(2) by simp
  then show ?thesis by (simp add: dom_arp_mac filter_valid_expire fresh_entries_def)
qed

lemma ticker_effect:
  assumes "router_inv s"
  shows "oc_all (\<lambda>s'. ticked s s') (ticker_body clk s)"
    and "ticker_body clk s = Done u s' \<Longrightarrow>
      dom (arp_mac (m_arp s')) = ae_ip ` set (fresh_entries (clk 0) (m_cacheEntries (m_arp s)))"
proof -
  let ?s = "s\<lparr>m_arp := expire_entries (clk 0) (m_arp s)\<rparr>"
  let ?check = "check_requests clk 1 (map ar_ptr (m_arpRequests (m_arp ?s))) ?s"
  have inv: "router_inv ?s" using assms by (auto intro: router_inv_arp arp_inv_expire)
  have all: "oc_all (\<lambda>s'. (router_inv s' \<and> same_config ?s s') \<and>
      m_cacheEntries (m_arp s') = m_cacheEntries (m_arp ?s) \<and> temp_iface s' = temp_iface ?s) ?check"
    by (rule oc_all_conj [OF check_requests_inv [OF inv] check_requests_frame])
  have sub: "ae_ip ` set (fresh_entries (clk 0) es) \<subseteq> ae_ip ` set (filter isValid es)" for es
    by (auto simp: fresh_entries_def)
  have keep: "dom (arp_mac c') \<subseteq> dom (arp_mac c)" if "m_cacheEntries c' = m_cacheEntries (expire_entries now c)" for c c' now
    using that by (auto simp: dom_arp_mac filter_valid_expire)
  have swept: "dom (arp_mac (m_arp (s'\<lparr>m_arp := remove_invalid (m_arp s')\<rparr>))) =
      ae_ip ` set (fresh_entries (clk 0) (m_cacheEntries (m_arp s)))"
    if "router_inv s'" "m_cacheEntries (m_arp s') = m_cacheEntries (m_arp ?s)" for s'
    using dom_arp_mac_tick [of "m_arp s'" "clk 0" "m_arp s"] that router_inv_cache [OF that(1)] by (simp add: arp_inv_def)
  have body: "ticker_body clk s = oc_bind ?check (\<lambda>_ s. Done () (s\<lparr>m_arp := remove_invalid (m_arp s)\<rparr>))"
    by (simp add: ticker_body_def periodicCheckArpRequestsAndCacheEntries_def)
  have fin: "ticked s (t\<lparr>m_arp := remove_invalid (m_arp t)\<rparr>) \<and> dom (arp_mac (m_arp (t\<lparr>m_arp := remove_invalid (m_arp t)\<rparr>))) =
      ae_ip ` set (fresh_entries (clk 0) (m_cacheEntries (m_arp s)))" if "?check = Done x t" for x t
  proof -
    have t: "router_inv t" "same_config s t" "m_cacheEntries (m_arp t) = m_cacheEntries (m_arp ?s)" "temp_iface t = temp_iface s"
      using all that by (simp_all add: same_config_def)
    have "router_inv (t\<lparr>m_arp := remove_invalid (m_arp t)\<rparr>)" using t(1) by (auto intro: router_inv_arp arp_inv_remove_invalid)
    moreover note swept [OF t(1,3)]
    ultimately show ?thesis using t(2,4) sub by (simp add: ticked_def dom_arp_mac [of "m_arp s"])
  qed
  show "oc_all (\<lambda>s'. ticked s s') (ticker_body clk s)"
  proof (cases ?check)
    case (Raised e t)
    then show ?thesis using all keep [of "m_arp t" "clk 0" "m_arp s"] by (simp add: body ticked_def same_config_def)
  qed (use fin in \<open>simp_all add: body\<close>)
  assume "ticker_body clk s = Done u s'"
  then obtain x t where "?check = Done x t" "s' = t\<lparr>m_arp := remove_invalid (m_arp t)\<rparr>"
    by (cases ?check) (simp_all add: body)
  with fin show "dom (arp_mac (m_arp s')) = ae_ip ` set (fresh_entries (clk 0) (m_cacheEntries (m_arp s)))" by simp
qed

lemma run_ticks_ticked: "router_inv s \<Longrightarrow> oc_all (\<lambda>s'. ticked s s') (run_ticks clks s)"
proof (induction clks arbitrary: s)
  case (Cons c clks)
  show ?case
    unfolding run_ticks.simps
  proof (rule oc_all_bind [OF ticker_effect(1) [OF Cons.prems]])
    fix u s'
    assume s': "ticked s s'"
    then have "oc_all (\<lambda>s''. ticked s' s'') (run_ticks clks s')" by (intro Cons.IH) (simp add: ticked_def)
    with s' show "oc_all (\<lambda>s''. ticked s s'') (run_ticks clks s')" by (auto elim!: oc_all_mono intro: ticked_trans)
  qed
qed (simp add: ticked_refl)

lemma between_all:
  assumes "router_inv s" and "\<And>s'. ticked s s' \<Longrightarrow> oc_all P (rest s')" and "\<And>s'. ticked s s' \<Longrightarrow> P s'"
  shows "oc_all P (between clks s rest)"
  using run_ticks_ticked [OF assms(1), of clks] assms(2,3) by (cases "run_ticks clks s") (simp_all add: between_def)


section \<open>The invariant\<close>

lemma learn_source_ticks_all:
  assumes "router_inv s"
    and "\<And>b s'. router_inv s' \<Longrightarrow> same_config s s' \<Longrightarrow> oc_all P (rest b s')"
    and "\<And>s'. router_inv s' \<Longrightarrow> same_config s s' \<Longrightarrow> P s'"
  shows "oc_all P (learn_source_ticks ticks k now p ip s rest)"
  unfolding learn_source_ticks_def
proof (rule between_all [OF assms(1)])
  fix s' assume s': "ticked s s'"
  show "oc_all P (case arp_lookup (m_arp s') ip of Some x \<Rightarrow> rest False s' | None \<Rightarrow>
      need OutOfBounds (mem_read 6 6 p) (\<lambda>source. between (ticks (Suc k)) s'
        (\<lambda>s. rest True (s\<lparr>m_arp := snd (insertArpEntry now source ip (m_arp s))\<rparr>))))"
  proof (cases "arp_lookup (m_arp s') ip")
    case None
    have "oc_all P (between (ticks (Suc k)) s' (\<lambda>s. rest True (s\<lparr>m_arp := snd (insertArpEntry now source ip (m_arp s))\<rparr>)))"
      if "length source = 6" for source
    proof (rule between_all)
      fix t assume t: "ticked s' t"
      have "arp_lookup (m_arp t) ip = None" using None t by (auto simp: ticked_def dom_def arp_mac_None [symmetric])
      then have "router_inv (t\<lparr>m_arp := snd (insertArpEntry now source ip (m_arp t))\<rparr>)"
        using t that by (auto simp: ticked_def intro!: router_inv_arp arp_inv_insert)
      moreover have "same_config s t" using ticked_trans [OF s' t] by (simp add: ticked_def)
      ultimately show "oc_all P (rest True (t\<lparr>m_arp := snd (insertArpEntry now source ip (m_arp t))\<rparr>))"
        by (intro assms(2)) simp_all
      show "P t" using t \<open>same_config s t\<close> by (intro assms(3)) (simp_all add: ticked_def)
    qed (use s' in \<open>simp add: ticked_def\<close>)
    then show ?thesis using None by (auto intro!: oc_all_need simp: mem_read_eq_Some)
  qed (use s' assms(2) in \<open>simp add: ticked_def\<close>)
  show "P s'" using s' by (intro assms(3)) (simp_all add: ticked_def)
qed

lemma oc_all_finish [simp]: "oc_all P (finish m) = oc_all P m"
  by (cases m) simp_all

abbreviation kept :: "SimpleRouter \<Rightarrow> SimpleRouter \<Rightarrow> bool" where
  "kept s s' \<equiv> router_inv s' \<and> same_config s s'"

lemma kept_later: "same_config s s' \<Longrightarrow> oc_all (kept s') m \<Longrightarrow> oc_all (kept s) m"
  by (auto elim!: oc_all_mono intro: same_config_trans)

lemma send_during_inv:
  assumes "arp_wf h" and "router_inv s"
  shows "oc_all (kept s) (send_during clk ths h ip s)"
proof (cases "schedule False clk h ip ths (Threads s Asleep Entered)")
  case (Threads s' t q)
  have x: "threads_inv s (Threads s' t q)"
    using threads_inv_schedule [OF _ assms(1), of s "Threads s Asleep Entered" False clk ip ths] assms(2) by (simp add: Threads)
  then have s': "router_inv s'" "same_config s s'" by simp_all
  show ?thesis
  proof (cases "timer_rest clk s' t")
    case (Done u s'')
    with timer_rest_inv [OF s'(1), of clk t] x have "threads_inv s (Threads s'' t q)" by (auto intro: same_config_trans)
    from kept_later [OF _ sender_rest_inv [OF this assms(1)]] this Done Threads show ?thesis by (simp add: send_during_def)
  next
    case (Raised e s'')
    with timer_rest_inv [OF s'(1), of clk t] s'(2) Threads show ?thesis by (auto simp: send_during_def intro: same_config_trans)
  qed (simp add: send_during_def Threads)
qed (use assms(2) in \<open>simp_all add: send_during_def\<close>)

lemma handleArpPacket_ticks_inv:
  assumes inv: "router_inv s" and e: "ethernet_wf e" "ether_type e = le16 0x08 0x06"
    and send: "\<And>h ip t. arp_wf h \<Longrightarrow> router_inv t \<Longrightarrow> oc_all (kept t) (send h ip t)"
  shows "oc_all (kept s) (handleArpPacket_ticks send ticks clk p e s)"
proof (cases "getArpPacket p")
  case (Some h)
  then have h: "arp_wf h" by (auto simp: getArpPacket_Some)
  have reply: "oc_all (kept s) (case findIfaceByIp (m_ifaces t) ip of None \<Rightarrow> Done None t | Some i \<Rightarrow>
      need OutOfBounds (assembleArpInterfaceReplyPacket i e h) (\<lambda>b. Done None (sendPacket b (if_name i) t)))"
    if "router_inv t" "same_config s t" for t ip
    using that frame_ok_arp_reply [OF e(1) h e(2)]
    by (auto intro!: oc_all_need router_inv_send same_config_send split: option.split)
  have release: "oc_all (kept s) (if b then between (ticks 2) t (send h ip) else Done None t)"
    if t: "router_inv t" "same_config s t" for b t ip
  proof -
    have "oc_all (kept s) (between (ticks 2) t (send h ip))"
    proof (rule between_all [OF t(1)])
      fix u assume u: "ticked t u"
      then have s: "router_inv u" "same_config s u" using same_config_trans [OF t(2)] by (auto simp: ticked_def)
      then show "kept s u" by simp
      show "oc_all (kept s) (send h ip u)" using kept_later [OF s(2) send [OF h s(1)]] .
    qed
    then show ?thesis using t by simp
  qed
  show ?thesis
    unfolding handleArpPacket_ticks_def Some need.simps
    by (auto intro!: learn_source_ticks_all [OF inv] reply release simp: inv)
qed (simp add: handleArpPacket_ticks_def)

lemma handleIpPacket_ticks_inv:
  assumes inv: "router_inv s" and p: "chunk 12 2 p = [0x08, 0x00]"
    and e: "ethernet_wf e" "ether_type e = le16 0x08 0x00"
  shows "oc_all (kept s) (handleIpPacket_ticks ticks clk p e s)"
proof (cases "34 \<le> length p")
  case True
  have icmp: "oc_all (kept s) (handleIcmpPacket p e te t)" if "router_inv t" "same_config s t" for te t
    using kept_later [OF that(2) handleIcmpPacket_inv [OF that(1) p]] .
  have forward: "oc_all (kept s) (between (ticks 3) t (\<lambda>t. finish (forward_packet p h e n t)))"
    if t: "router_inv t" "same_config s t" for t h n
  proof (rule between_all [OF t(1)])
    fix u assume u: "ticked t u"
    then have s: "router_inv u" "same_config s u" using same_config_trans [OF t(2)] by (auto simp: ticked_def)
    then show "kept s u" by simp
    show "oc_all (kept s) (finish (forward_packet p h e n u))"
      using kept_later [OF s(2) forward_packet_inv [OF s(1) p True e]] by simp
  qed
  have queue: "oc_all (kept s) (need NullDeref x (\<lambda>i. between (ticks 4) t (\<lambda>t.
      Done None (t\<lparr>m_arp := snd (queueRequest ip p (if_name i) (m_arp t))\<rparr>))))"
    if t: "router_inv t" "same_config s t" for t ip and x :: "Interface option"
  proof (intro oc_all_need between_all [OF t(1)])
    fix i u assume u: "ticked t u"
    then have s: "router_inv u" "same_config s u" using same_config_trans [OF t(2)] by (auto simp: ticked_def)
    then show "kept s u" by simp
    show "oc_all (kept s) (Done None (u\<lparr>m_arp := snd (queueRequest ip p (if_name i) (m_arp u))\<rparr>))"
      using s True by (auto intro!: router_inv_arp arp_inv_queue)
  qed
  have transit: "oc_all (kept s) (between (ticks 2) t (\<lambda>t. if arp_lookup (m_arp t) ip \<noteq> None
      then between (ticks 3) t (\<lambda>t. finish (forward_packet p h e n t))
      else need NullDeref (x t) (\<lambda>i. between (ticks 4) t (\<lambda>t.
        Done None (t\<lparr>m_arp := snd (queueRequest ip p (if_name i) (m_arp t))\<rparr>)))))"
    if t: "router_inv t" "same_config s t" for t h n ip and x :: "SimpleRouter \<Rightarrow> Interface option"
  proof (rule between_all [OF t(1)])
    fix u assume u: "ticked t u"
    then have s: "router_inv u" "same_config s u" using same_config_trans [OF t(2)] by (auto simp: ticked_def)
    then show "kept s u" by simp
    show "oc_all (kept s) (if arp_lookup (m_arp u) ip \<noteq> None
      then between (ticks 3) u (\<lambda>t. finish (forward_packet p h e n t))
      else need NullDeref (x u) (\<lambda>i. between (ticks 4) u (\<lambda>t.
        Done None (t\<lparr>m_arp := snd (queueRequest ip p (if_name i) (m_arp t))\<rparr>))))"
      using forward [OF s] queue [OF s] by simp
  qed
  have again: "oc_all (kept s) (learn_source_ticks ticks 4 now p ip t (\<lambda>_ s. finish (handleIcmpPacket p e 1 s)))"
    if t: "router_inv t" "same_config s t" for t now ip
  proof (rule learn_source_ticks_all [OF t(1)])
    fix b u assume u: "router_inv u" "same_config t u"
    then have "same_config s u" using same_config_trans [OF t(2)] by blast
    with u show "oc_all (kept s) (finish (handleIcmpPacket p e 1 u))" and "kept s u" using icmp by simp_all
  qed
  have learnt: "oc_all (kept s) (learn_source_ticks ticks 0 now p src s (\<lambda>_ t.
      if here then finish (if c then handleIcmpPacket p e 0 t else if d then handleIcmpPacket p e 1 t else Done () t)
      else if over then learn_source_ticks ticks 4 now' p src t (\<lambda>_ s. finish (handleIcmpPacket p e 1 s))
      else between (ticks 2) t (\<lambda>t. if arp_lookup (m_arp t) ip \<noteq> None
        then between (ticks 3) t (\<lambda>t. finish (forward_packet p h e n t))
        else need NullDeref (x t) (\<lambda>i. between (ticks 4) t (\<lambda>t.
          Done None (t\<lparr>m_arp := snd (queueRequest ip p (if_name i) (m_arp t))\<rparr>))))))"
    for src now now' here over c d h n ip and x :: "SimpleRouter \<Rightarrow> Interface option"
    by (rule learn_source_ticks_all [OF inv]) (simp_all add: icmp again transit del: not_None_eq)
  show ?thesis
    unfolding handleIpPacket_ticks_def Let_def
    by (intro oc_all_need, split if_split) (intro conjI impI, rule learnt, simp add: inv)
next
  case False
  then have "getIpPacket p = None" using getIpPacket_Some [of p] by (cases "getIpPacket p") auto
  then show ?thesis by (simp add: handleIpPacket_ticks_def)
qed


lemma handlePacket_ticks_inv:
  assumes inv: "router_inv s"
  shows "oc_all (kept s) (handlePacket_ticks (send_during clk' ths) ticks clk p inIface s)"
proof -
  let ?s = "s\<lparr>temp_iface := inIface\<rparr>" and ?e = "ethernet_hdr_of_bytes (chunk 0 14 p)"
  have inv': "router_inv ?s" using inv by (rule router_inv_temp)
  have same: "same_config s ?s" by simp
  have arp: "oc_all (kept s) (handleArpPacket_ticks (send_during clk' ths) ticks clk p ?e ?s)"
    if "14 \<le> length p" "ether_type ?e = le16 0x08 0x06"
    using kept_later [OF same handleArpPacket_ticks_inv [OF inv' _ that(2) send_during_inv]] that(1) by simp
  have ip: "oc_all (kept s) (handleIpPacket_ticks ticks clk p ?e ?s)"
    if "14 \<le> length p" "ether_type ?e = le16 0x08 0x00"
  proof -
    have "chunk 12 2 p = [0x08, 0x00]" using that by (simp add: ether_type_at u16_at_iff)
    from kept_later [OF same handleIpPacket_ticks_inv [OF inv' this _ that(2)]] that(1) show ?thesis by simp
  qed
  show ?thesis
    unfolding handlePacket_ticks_def
    by (auto intro!: oc_all_need simp: Let_def inv' network_order arp ip getEthernetHeader_Some split: option.split)
qed

section \<open>A router that stays up\<close>

text \<open>Neither undefined behaviour nor an exception of the timer.\<close>

fun unharmed :: "interrupted \<Rightarrow> bool" where
  "unharmed (Done killed s) \<longleftrightarrow> killed = None"
| "unharmed (Raised e s) \<longleftrightarrow> True"
| "unharmed (Undef u) \<longleftrightarrow> False"

lemma unharmed_finish [simp]: "unharmed (finish m) \<longleftrightarrow> \<not> is_undef m"
  by (cases m) simp_all

lemma unharmed_need: "unharmed (need u x f) \<longleftrightarrow> (\<exists>y. x = Some y \<and> unharmed (f y))"
  by (cases x) simp_all

lemma run_ticks_done:
  assumes "router_inv s" and "config_ok s"
  shows "\<exists>s'. run_ticks clks s = Done () s'"
  using assms
proof (induction clks arbitrary: s)
  case (Cons c clks)
  obtain s' where s': "ticker_body c s = Done () s'"
    using ticker_body_refines [OF Cons.prems(1) _ config_ok_routable [OF Cons.prems(2)], of c] Cons.prems(2)
    by (simp add: config_ok_def)
  then have "ticked s s'" using ticker_effect(1) [OF Cons.prems(1), of c] by simp
  then have "router_inv s'" "config_ok s'" using config_ok_same [of s s'] Cons.prems(2) by (simp_all add: ticked_def)
  from Cons.IH [OF this] s' show ?case by simp
qed simp

lemma between_step:
  assumes "router_inv s" and "config_ok s"
  obtains s' where "\<And>rest. between clks s rest = rest s'" and "ticked s s'" and "config_ok s'"
    and "run_ticks clks s = Done () s'"
proof -
  obtain s' where s': "run_ticks clks s = Done () s'" using run_ticks_done [OF assms] by blast
  then have "ticked s s'" using run_ticks_ticked [OF assms(1), of clks] by simp
  then show ?thesis using that [of s'] s' config_ok_same [of s s'] assms(2) by (simp add: between_def ticked_def)
qed

text \<open>The learning step in one: the ticks before and in it, and the source is in the cache.\<close>

lemma learn_source_step:
  assumes "router_inv s" and "config_ok s" and "12 \<le> length p"
  obtains b s' where "\<And>rest. learn_source_ticks ticks k now p ip s rest = rest b s'" and "router_inv s'" and "config_ok s'"
    and "same_config s s'" and "temp_iface s' = temp_iface s"
proof -
  obtain t where t: "\<And>rest. between (ticks k) s rest = rest t" "ticked s t" "config_ok t"
    by (rule between_step [OF assms(1,2)]) blast
  show ?thesis
  proof (cases "arp_lookup (m_arp t) ip")
    case (Some x)
    then show ?thesis using that [of False t] t by (simp add: learn_source_ticks_def ticked_def)
  next
    case None
    obtain u where u: "\<And>rest. between (ticks (Suc k)) t rest = rest u" "ticked t u" "config_ok u"
      by (rule between_step [of t]) (use t in \<open>auto simp: ticked_def\<close>)
    let ?u = "u\<lparr>m_arp := snd (insertArpEntry now (chunk 6 6 p) ip (m_arp u))\<rparr>"
    have "arp_lookup (m_arp u) ip = None" using None u(2) by (auto simp: ticked_def dom_def arp_mac_None [symmetric])
    then have "router_inv ?u" using u(2) assms(3) by (auto simp: ticked_def intro!: router_inv_arp arp_inv_insert)
    moreover have "same_config s ?u" "temp_iface ?u = temp_iface s" using ticked_trans [OF t(2) u(2)] by (simp_all add: ticked_def)
    moreover have "config_ok ?u" using config_ok_same [of s ?u] calculation(2) assms(2) by simp
    moreover have "learn_source_ticks ticks k now p ip s rest = rest True ?u" for rest
      using None assms(3) by (simp add: learn_source_ticks_def t(1) u(1) mem_read_Some)
    ultimately show ?thesis using that by blast
  qed
qed


lemma config_ready: "router_inv s \<Longrightarrow> config_ok s \<Longrightarrow> router_ready s \<and> host_routes s"
  by (simp add: router_ready_def config_ok_def)

text \<open>An ARP frame does no harm, or it comes to the call of \<^verbatim>\<open>sendPendingPackets\<close>, in a state that
  does not depend on what happens there.\<close>

lemma handleArpPacket_ticks_cases:
  assumes s: "router_inv s" "config_ok s" and p: "42 \<le> length p" and e: "ethernet_wf e"
  obtains "\<And>send. unharmed (handleArpPacket_ticks send ticks clk p e s)"
  | h ip u where "arp_wf h" and "router_inv u" and "config_ok u"
      and "\<And>send. handleArpPacket_ticks send ticks clk p e s = send h ip u"
proof -
  let ?h = "arp_hdr_of_bytes (chunk 14 28 p)"
  have g: "getArpPacket p = Some ?h" using p by (simp add: getArpPacket_Some)
  have h: "arp_wf ?h" and p12: "12 \<le> length p" using p by simp_all
  have reply: "assembleArpInterfaceReplyPacket i e ?h \<noteq> None"
    if "router_inv t" "config_ok t" "findIfaceByIp (m_ifaces t) ip = Some i" for i ip t
    using router_ready_addr [of t i] config_ready [OF that(1,2)] findIfaceByIp_in [OF that(3)] e h by (simp add: arp_reply_packet_eq)
  obtain b t where t: "\<And>rest. learn_source_ticks ticks 0 (clk 1) p (arp_sip ?h) s rest = rest b t" "router_inv t" "config_ok t"
    by (rule learn_source_step [OF s p12]) blast
  obtain u where u: "\<And>rest. between (ticks 2) t rest = rest u" "ticked t u" "config_ok u"
    by (rule between_step [OF t(2,3)]) blast
  show ?thesis
  proof (cases "arp_op ?h = htons 0x0002 \<and> b")
    case True
    then have "handleArpPacket_ticks send ticks clk p e s = send ?h (arp_sip ?h) u" for send
      unfolding handleArpPacket_ticks_def g need.simps t(1) u(1) by (simp add: network_order le16_inject)
    then show ?thesis using that(2) [OF h _ u(3)] u(2) by (simp add: ticked_def)
  next
    case False
    then have "unharmed (handleArpPacket_ticks send ticks clk p e s)" for send
      unfolding handleArpPacket_ticks_def g need.simps t(1)
      using reply [OF t(2,3)] by (auto simp: unharmed_need split: option.split)
    then show ?thesis by (rule that(1))
  qed
qed

lemma handleIpPacket_ticks_unharmed:
  assumes s: "router_inv s" "config_ok s" and p: "42 \<le> length p"
    and i: "findIfaceByName (m_ifaces s) (temp_iface s) = Some i"
    and me: "chunk 0 6 p \<in> if_addr ` set (m_ifaces s)" and quiet: "ticks 3 = []"
  shows "unharmed (handleIpPacket_ticks ticks clk p (ethernet_hdr_of_bytes (chunk 0 14 p)) s)"
proof -
  let ?h = "ip_hdr_of_bytes (chunk 14 20 p)" and ?e = "ethernet_hdr_of_bytes (chunk 0 14 p)"
  have p34: "34 \<le> length p" "12 \<le> length p" "14 \<le> length p" using p by simp_all
  obtain c where c: "cksum (ip_hdr_bytes ?h) 20 = Some c"
    using cksum_total [of 20 "ip_hdr_bytes ?h"] p by (auto simp: ip_hdr_bytes_of_bytes)
  have g: "getIpPacket p = Some ?h" using p by (simp add: getIpPacket_Some)
  have hdr: "?h\<lparr>ip_ttl := ip_ttl ?h - 1\<rparr> = forward_hdr p" by (simp add: forward_hdr_def ip_fields_at [OF p34(1)])
  obtain b t where t: "\<And>rest. learn_source_ticks ticks 0 (clk 1) p (ip_src (forward_hdr p)) s rest = rest b t"
      "router_inv t" "config_ok t" "same_config s t" "temp_iface t = temp_iface s"
    by (rule learn_source_step [OF s p34(2)]) blast
  have icmp: "\<not> is_undef (handleIcmpPacket p ?e te u)"
    if "router_inv u" "config_ok u" "same_config s u" "temp_iface u = temp_iface s" "te = 0 \<or> te = 1" for u te
    using handleIcmpPacket_safe [OF _ p _ that(5)] config_ready [OF that(1,2)] i that(3,4) by (simp add: same_config_def)
  have again: "unharmed (learn_source_ticks ticks 4 now p ip t (\<lambda>_ s. finish (handleIcmpPacket p ?e 1 s)))" for now ip
  proof -
    obtain b u where u: "\<And>rest. learn_source_ticks ticks 4 now p ip t rest = rest b u" "router_inv u" "config_ok u"
        "same_config t u" "temp_iface u = temp_iface t"
      by (rule learn_source_step [OF t(2,3) p34(2)]) blast
    then show ?thesis using icmp same_config_trans [OF t(4)] t(5) by simp
  qed
  obtain u where u: "\<And>rest. between (ticks 2) t rest = rest u" "ticked t u" "config_ok u"
    by (rule between_step [OF t(2,3)]) blast
  have still: "router_inv u" using u(2) by (simp add: ticked_def)
  obtain v where v: "\<And>rest. between (ticks 4) u rest = rest v"
    by (rule between_step [OF still u(3)]) blast
  have ready: "router_ready u" "host_routes u" "m_ifaces u = m_ifaces s"
    using config_ready [of u] u(2,3) t(4) by (auto simp: ticked_def same_config_def)
  have forward: "\<not> is_undef (forward_packet p (forward_hdr p) ?e (p ! 22 - 1) u)" if "arp_lookup (m_arp u) (u32_at 30 p) \<noteq> None"
    using that forward_packet_safe [OF ready(1,2) p34(1)] by (auto simp: arp_mac_def)
  have queue: "findIfaceByMac (m_ifaces u) (ether_dhost ?e) \<noteq> None"
    using me by (auto simp: ready(3) findIfaceByMac_def find_None_iff ether_hosts_at p34)
  show ?thesis
    unfolding handleIpPacket_ticks_def g need.simps Let_def c hdr t(1) u(1) v quiet between_Nil
    using icmp [OF t(2-5)] again forward queue
    by (auto simp: ip_fields_at [OF p34(1)] forward_hdr_def unharmed_need)
qed

lemma handlePacket_ticks_cases:
  assumes s: "router_inv s" "config_ok s" and p: "42 \<le> length p"
    and mac: "chunk 12 2 p = [0x08, 0x00] \<Longrightarrow> chunk 0 6 p \<in> if_addr ` set (m_ifaces s)" and quiet: "ticks 3 = []"
  obtains "\<And>send. unharmed (handlePacket_ticks send ticks clk p inIface s)"
  | h ip u where "chunk 12 2 p = [0x08, 0x06]" and "arp_wf h" and "router_inv u" and "config_ok u"
      and "\<And>send. handlePacket_ticks send ticks clk p inIface s = send h ip u"
proof -
  let ?s = "s\<lparr>temp_iface := inIface\<rparr>" and ?e = "ethernet_hdr_of_bytes (chunk 0 14 p)"
  have t: "router_inv ?s" "config_ok ?s" using s config_ok_same [of s ?s] by (simp_all add: router_inv_temp)
  have p14: "14 \<le> length p" "ethernet_wf ?e" using p by simp_all
  have ip: "unharmed (handleIpPacket_ticks ticks clk p ?e ?s)"
    if "findIfaceByName (m_ifaces s) inIface = Some i" "chunk 12 2 p = [0x08, 0x00]" for i
    by (rule handleIpPacket_ticks_unharmed [OF t p, where i = i]) (use that mac quiet in simp_all)
  have whole: "handlePacket_ticks send ticks clk p inIface s =
      (case findIfaceByName (m_ifaces s) inIface of
         None \<Rightarrow> Done None ?s
       | Some iface \<Rightarrow> (case (show_arp (clk 0) (m_arp s), printIfaces (m_ifaces s)) of
           (Some _, Some _) \<Rightarrow>
             if chunk 12 2 p = [0x08, 0x06] then handleArpPacket_ticks send ticks clk p ?e ?s
             else if chunk 12 2 p = [0x08, 0x00] then handleIpPacket_ticks ticks clk p ?e ?s
             else Done None ?s
         | _ \<Rightarrow> Raised ''out_of_range'' ?s))" for send
    unfolding handlePacket_ticks_def
    using p14(1) by (simp add: Let_def getEthernetHeader_Some [THEN iffD2] network_order ether_type_at u16_at_iff cong: option.case_cong)
  show ?thesis
  proof (cases "findIfaceByName (m_ifaces s) inIface = None \<or> show_arp (clk 0) (m_arp s) = None \<or> printIfaces (m_ifaces s) = None \<or>
      chunk 12 2 p \<noteq> [0x08, 0x06]")
    case True
    then have "unharmed (handlePacket_ticks send ticks clk p inIface s)" for send
      using ip by (auto simp: whole split: option.split)
    then show ?thesis by (rule that(1))
  next
    case False
    then have arp: "handlePacket_ticks send ticks clk p inIface s = handleArpPacket_ticks send ticks clk p ?e ?s" for send
      by (auto simp: whole)
    show ?thesis
    proof (rule handleArpPacket_ticks_cases [OF t p p14(2), of ticks clk])
      assume "\<And>send. unharmed (handleArpPacket_ticks send ticks clk p ?e ?s)"
      then show ?thesis by (intro that(1)) (simp add: arp)
    next
      fix h ip u
      assume "arp_wf h" "router_inv u" "config_ok u"
        and "\<And>send. handleArpPacket_ticks send ticks clk p ?e ?s = send h ip u"
      then show ?thesis using False by (intro that(2) [of h u ip]) (simp_all add: arp)
    qed
  qed
qed

text \<open>What happens in the call does no harm as long as the iterator keeps its node.\<close>

lemma send_during_careful:
  assumes "arp_wf h" and "router_inv s" and "config_ok s" and "careful clk h ip ths (Threads s Asleep Entered)"
  shows "unharmed (send_during clk ths h ip s)"
proof -
  have "threads_ok (schedule False clk h ip ths (Threads s Asleep Entered))"
    using careful_schedule_ok [OF _ assms(1,4)] assms(2,3) by simp
  then obtain s' t q where x: "schedule False clk h ip ths (Threads s Asleep Entered) = Threads s' t q" "threads_ok (Threads s' t q)"
    by (cases "schedule False clk h ip ths (Threads s Asleep Entered)") simp_all
  obtain s'' where "timer_rest clk s' t = Done () s''" "threads_ok (Threads s'' Over q)"
    using timer_rest_ok [OF x(2), of clk] by blast
  with sender_rest_ok [OF _ assms(1)] x(1) show ?thesis by (simp add: send_during_def del: threads_ok.simps)
qed

lemma handlePacket_ticks_unharmed:
  assumes "router_inv s" and "config_ok s" and "42 \<le> length p"
    and "chunk 12 2 p = [0x08, 0x00] \<Longrightarrow> chunk 0 6 p \<in> if_addr ` set (m_ifaces s)" and "ticks 3 = []"
    and watched: "handlePacket_ticks (send_watched clk' ths) ticks clk p inIface s \<noteq> Undef UseAfterFree"
  shows "unharmed (handlePacket_ticks (send_during clk' ths) ticks clk p inIface s)"
proof (rule handlePacket_ticks_cases [OF assms(1-3), of ticks clk inIface])
  fix h ip u
  assume "arp_wf h" "router_inv u" "config_ok u"
    and call: "\<And>send. handlePacket_ticks send ticks clk p inIface s = send h ip u"
  moreover have "careful clk' h ip ths (Threads u Asleep Entered)"
    using watched by (simp add: call send_watched_def split: if_splits)
  ultimately show ?thesis using send_during_careful by simp
qed (use assms(4,5) in auto)

section \<open>The entry that expires between the two lookups\<close>

lemma forward_packet_lost:
  assumes s: "router_inv s" "config_ok s" and p: "34 \<le> length p" and lost: "arp_mac (m_arp s) (u32_at 30 p) = None"
  shows "forward_packet p (forward_hdr p) e (p ! 22 - 1) s = Undef NullDeref"
proof -
  obtain r where r: "rt_lookup (m_routingTable s) (u32_at 30 p) = Inr r"
    using config_ok_routable [OF s(2), of "[new_request 0 (u32_at 30 p)]"] by (auto simp: routable_def new_request_def)
  obtain i where i: "findIfaceByName (m_ifaces s) (rt_ifName r) = Some i" "length (if_addr i) = 6"
    using routes_ok_route [OF _ r] s(2) by (auto simp: config_ok_def)
  have hop: "rt_dest r = 0 \<or> rt_dest r = u32_at 30 p"
    using host_routes_hop [OF _ r] s(2) by (simp add: config_ok_def)
  have dst: "ip_dst (forward_hdr p) = u32_at 30 p" by (simp add: forward_hdr_def ip_fields_at [OF p])
  obtain c where "cksum (ip_hdr_bytes ((forward_hdr p)\<lparr>ip_ttl := p ! 22 - 1, ip_sum := 0\<rparr>)) 20 = Some c"
    using cksum_total [of 20 "ip_hdr_bytes ((forward_hdr p)\<lparr>ip_ttl := p ! 22 - 1, ip_sum := 0\<rparr>)"] by auto
  then show ?thesis
    using r i hop lost by (auto simp: forward_packet_def Let_def dst mem_read_Some arp_mac_None ipToString_0)
qed


lemma interrupted_forward:
  assumes s: "router_inv s" "config_ok s" and i: "findIfaceByName (m_ifaces s) inIface = Some inI" and p: "valid_ip_frame p"
    and transit: "findIfaceByIp (m_ifaces s) (u32_at 30 p) = None" "p ! 22 \<noteq> 1"
    and known: "arp_lookup (m_arp s) (u32_at 30 p) = Some entry"
    and old: "SR_ARPCACHE_TO < clk' 0 - timeAdded entry"
  shows "handlePacket_ticks send (\<lambda>k. if k = 3 then [clk'] else []) clk p inIface s = Undef NullDeref"
proof -
  let ?s = "s\<lparr>temp_iface := inIface\<rparr>" and ?e = "ethernet_hdr_of_bytes (chunk 0 14 p)" and ?h = "ip_hdr_of_bytes (chunk 14 20 p)"
  let ?ticks = "\<lambda>k :: nat. if k = 3 then [clk'] else []"
  have p34: "34 \<le> length p" "14 \<le> length p" "12 \<le> length p" "ip_cksum_ok p" and type: "chunk 12 2 p = [0x08, 0x00]"
    using p by (simp_all add: valid_ip_frame_def)
  define t where "t = learnt (clk 1) p 26 ?s"
  have ready: "router_ready t" using router_ready_learnt [of ?s p "clk 1" 26] config_ready [OF s] p34(3) by (simp add: t_def)
  have t: "router_inv t" "config_ok t" using ready config_ok_same [of s t] s(2) by (simp_all add: router_ready_def t_def same_config_def)
  have still: "arp_lookup (m_arp t) (u32_at 30 p) = Some entry"
    using known by (simp add: t_def arp.learn_def arp_lookup_insert split: option.split)
  have "e = entry" if "e \<in> set (m_cacheEntries (m_arp t))" "isValid e" "ae_ip e = u32_at 30 p" for e
  proof -
    have "distinct (map ae_ip (filter isValid (m_cacheEntries (m_arp t))))" using router_inv_cache [OF t(1)] by (simp add: arp_inv_def)
    then show ?thesis using that arp_lookup_in [OF still] by (auto simp: distinct_map inj_on_def)
  qed
  then have gone: "u32_at 30 p \<notin> ae_ip ` set (fresh_entries (clk' 0) (m_cacheEntries (m_arp t)))"
    using old by (auto simp: fresh_entries_def)
  obtain u where u: "\<And>rest. between [clk'] t rest = rest u" "ticked t u" "config_ok u" "run_ticks [clk'] t = Done () u"
    by (rule between_step [OF t]) blast
  have "ticker_body clk' t = Done () u" using u(4) by (cases "ticker_body clk' t") simp_all
  from ticker_effect(2) [OF t(1) this] gone have lost: "arp_mac (m_arp u) (u32_at 30 p) = None" by auto
  have inv: "router_inv u" using u(2) by (simp add: ticked_def)
  have c: "cksum (ip_hdr_bytes ?h) 20 = Some 0xffff"
    using p34(4) cksum_take [of 20 "drop 14 p"] p34(1) by (simp add: ip_cksum_ok_def ip_hdr_bytes_of_bytes chunk_def)
  have g: "getIpPacket p = Some ?h" using p34 by (simp add: getIpPacket_Some)
  have hdr: "?h\<lparr>ip_ttl := ip_ttl ?h - 1\<rparr> = forward_hdr p" by (simp add: forward_hdr_def ip_fields_at [OF p34(1)])
  have learn: "learn_source_ticks ?ticks 0 (clk 1) p (ip_src (forward_hdr p)) ?s rest =
      rest (arp_mac (m_arp ?s) (u32_at 26 p) = None) t" for rest
    using p34 by (simp add: learn_source_no_ticks learn_source_eq forward_hdr_def ip_fields_at t_def learnt_def)
  have ip: "handleIpPacket_ticks ?ticks clk p ?e ?s = Undef NullDeref"
    unfolding handleIpPacket_ticks_def g need.simps Let_def c hdr learn
    using transit still u(1) forward_packet_lost [OF inv u(3) p34(1) lost]
    by (simp add: forward_hdr_def ip_fields_at [OF p34(1)] ttl_exhausted)
  obtain a where a: "show_arp (clk 0) (m_arp s) = Some a" using s(1) show_arp_Some by blast
  obtain b where b: "printIfaces (m_ifaces s) = Some b"
    using s(2) printIfaces_None [of "m_ifaces s"] by (cases "printIfaces (m_ifaces s)") (auto simp: config_ok_def routes_ok_def)
  show ?thesis
    using ip i p34(2) type
    by (simp add: handlePacket_ticks_def Let_def a b getEthernetHeader_Some [THEN iffD2] ether_type_at network_order u16_at_iff)
qed

section \<open>A reset and the timer\<close>

text \<open>
  The cache is emptied first and under the mutex; the interfaces are changed without it, one
  after the other. The timer looks at them only for a request, and there are none.
\<close>

fun reset_ports_ticks ::
  "(nat \<Rightarrow> clock list) \<Rightarrow> nat \<Rightarrow> PoxIface list \<Rightarrow> SimpleRouter \<Rightarrow> (SimpleRouter \<Rightarrow> interrupted) \<Rightarrow> interrupted" where
  "reset_ports_ticks ticks k [] s rest = between (ticks k) s rest"
| "reset_ports_ticks ticks k (iface # ports) s rest =
     between (ticks k) s (\<lambda>s.
       case m_ifNameToIpMap s (port_name iface) of
         None \<Rightarrow> reset_ports_ticks ticks (Suc k) ports s rest
       | Some ip \<Rightarrow> reset_ports_ticks ticks (Suc k) ports (s\<lparr>m_ifaces :=
           iface_insert \<lparr>if_name = port_name iface, if_addr = port_mac iface, if_ip = ip\<rparr> (m_ifaces s)\<rparr>) rest)"

definition reset_ticks :: "(nat \<Rightarrow> clock list) \<Rightarrow> PoxIface list \<Rightarrow> SimpleRouter \<Rightarrow> interrupted" where
  "reset_ticks ticks ports s =
     (let s = s\<lparr>m_arp := arp_clear (m_arp s)\<rparr> in
      between (ticks 0) s (\<lambda>s.
        let s = s\<lparr>m_ifaces := []\<rparr> in
        reset_ports_ticks ticks 1 ports s (\<lambda>s.
          case printIfaces (m_ifaces s) of
            None \<Rightarrow> Raised ''out_of_range'' s
          | Some _ \<Rightarrow> Done None s)))"

definition idle :: "SimpleRouter \<Rightarrow> bool" where
  "idle s \<longleftrightarrow> m_cacheEntries (m_arp s) = [] \<and> m_arpRequests (m_arp s) = []"

lemma idle_tick: "idle s \<Longrightarrow> ticker_body clk s = Done () s"
  by (simp add: idle_def ticker_body_def periodicCheckArpRequestsAndCacheEntries_def expire_entries_def
      remove_invalid_def recordForRemoval_def)

lemma idle_between: "idle s \<Longrightarrow> between clks s rest = rest s"
proof -
  assume "idle s"
  then have "run_ticks clks s = Done () s" by (induction clks) (simp_all add: idle_tick)
  then show ?thesis by (simp add: between_def)
qed

lemma reset_ports_idle:
  "idle s \<Longrightarrow> reset_ports_ticks ticks k ports s rest =
     rest (s\<lparr>m_ifaces := reset_ports (m_ifNameToIpMap s) ports (m_ifaces s)\<rparr>)"
proof (induction ports arbitrary: k s)
  case (Cons x ports)
  have "idle (s\<lparr>m_ifaces := x\<rparr>)" for x using Cons.prems by (simp add: idle_def)
  with Cons show ?case by (simp add: idle_between split: option.split)
qed (simp add: idle_between)

lemma reset_ticks_eq: "reset_ticks ticks ports s = finish (reset ports s)"
proof -
  have "idle (s\<lparr>m_arp := arp_clear (m_arp s)\<rparr>)" "idle (s\<lparr>m_arp := arp_clear (m_arp s), m_ifaces := []\<rparr>)"
    by (simp_all add: idle_def arp_clear_def)
  then show ?thesis
    by (simp add: reset_ticks_def reset_def Let_def idle_between reset_ports_idle split: option.split)
qed

end
