(* ===== verification/Systems.thy ===== *)
theory Systems
  imports Main
begin

text \<open>
  The contract that the processes of the repository share: steps labelled with events, of which the
  allowed ones keep a property, and always some next step. Runs of allowed events then keep the
  property and never get stuck. The router process and the server of Confundo are interpretations.
\<close>

section \<open>The contract of a step relation that keeps a property\<close>

locale stable_system =
  fixes step :: "'e \<Rightarrow> 'p \<Rightarrow> 'p \<Rightarrow> bool" and allowed :: "'e \<Rightarrow> 'p \<Rightarrow> bool" and good :: "'p \<Rightarrow> bool"
  assumes keeps: "good p \<Longrightarrow> allowed e p \<Longrightarrow> step e p q \<Longrightarrow> good q"
    and progress: "good p \<Longrightarrow> \<exists>q. step e p q"
begin

inductive run :: "'p \<Rightarrow> 'e list \<Rightarrow> 'p \<Rightarrow> bool" where
  run_Nil: "run p [] p"
| run_Cons: "allowed e p \<Longrightarrow> step e p q \<Longrightarrow> run q es r \<Longrightarrow> run p (e # es) r"

lemma run_good: "run p es q \<Longrightarrow> good p \<Longrightarrow> good q"
  by (induction rule: run.induct) (auto intro: keeps)

lemma run_snoc: "run p es q \<Longrightarrow> allowed e q \<Longrightarrow> step e q r \<Longrightarrow> run p (es @ [e]) r"
  by (induction rule: run.induct) (auto intro: run.intros)

lemma run_extends: "run p es q \<Longrightarrow> good p \<Longrightarrow> allowed e q \<Longrightarrow> \<exists>r. run p (es @ [e]) r"
  using progress run_good run_snoc by blast

end

end
