(* ===== verification/RouterProcess.thy ===== *)
theory RouterProcess
  imports RouterTicks Systems
begin

text \<open>
  The router as a process: \<^verbatim>\<open>core/main.cpp\<close> starts it, the Ice servant \<^verbatim>\<open>PacketHandler\<close> delivers
  frames and resets, the thread of \<^verbatim>\<open>ArpCache::ticker\<close> runs once a second. One event is one
  step; in an interrupted handler the ticks that run during it are part of the event. (A reset
  with ticks in it is a reset, \<open>reset_ticks_eq\<close>.) Ice turns an exception that leaves a servant into an error for the caller, so the
  process goes on; an exception that leaves the thread function ends it (\<^verbatim>\<open>std::terminate\<close>).
\<close>

section \<open>Start\<close>

text \<open>The part of \<^verbatim>\<open>Router::run\<close> that sets the router up; \<open>False\<close> is \<^verbatim>\<open>EXIT_FAILURE\<close>. \<open>connected\<close> says
  whether the cast of the proxy of the POX controller succeeded, \<open>ifaces\<close> is what its
  \<^verbatim>\<open>getIfaces\<close> returned.\<close>

definition startup ::
  "(string \<Rightarrow> u32 option) \<Rightarrow> string option \<Rightarrow> bool \<Rightarrow> string option \<Rightarrow> PoxIface list \<Rightarrow>
    (SimpleRouter, bool) outcome" where
  "startup inet_aton rtFile connected ifFile ifaces =
     oc_bind (loadRoutingTable inet_aton rtFile router_init) (\<lambda>ok s.
       if \<not> ok then Done False s
       else if \<not> connected then Done False s
       else oc_bind (loadIfconfig inet_aton ifFile s) (\<lambda>_ s.
            oc_bind (reset ifaces s) (\<lambda>_ s. Done True s)))"

text \<open>The servant \<^verbatim>\<open>Tester\<close>: what a test program can ask of a running router.\<close>

definition getArp :: "time_point \<Rightarrow> SimpleRouter \<Rightarrow> string option" where
  "getArp now s = show_arp now (m_arp s)"

definition getRoutingTable :: "SimpleRouter \<Rightarrow> string" where
  "getRoutingTable s = show_table (m_routingTable s)"

lemma getArp_answers: "router_inv s \<Longrightarrow> \<exists>out. getArp now s = Some out"
  by (simp add: getArp_def router_inv_def show_arp_Some)

text \<open>The thread that pings the controller: per second, whether it was told to stop and whether the
  ping came back. The result is how often it asks the process to shut down.\<close>

fun checkThread :: "(bool \<times> bool) list \<Rightarrow> nat" where
  "checkThread [] = 0"
| "checkThread ((shouldStop, alive) # turns) =
     (if shouldStop then 0 else (if alive then 0 else 1) + checkThread turns)"

text \<open>A healthy connection never ends the router, a broken one is noticed at the next ping.\<close>

lemma checkThread_zero: "checkThread turns = 0 \<longleftrightarrow> (\<forall>x \<in> set (takeWhile (\<lambda>x. \<not> fst x) turns). snd x)"
proof (induction turns)
  case (Cons x turns)
  then show ?case by (cases x) (auto simp: Ball_def)
qed simp

text \<open>The status \<^verbatim>\<open>Router::run\<close> returns, after the start and, if that succeeded, the shutdown.\<close>

fun run_status :: "(SimpleRouter, bool) outcome \<Rightarrow> int option" where
  "run_status (Done started s) = Some (if started then 0 else 1)"
| "run_status _ = None"

section \<open>Events\<close>

text \<open>
  \<open>Interrupted ticks clk' ths clk p i\<close>: the handler with ticks before its accesses to the cache, and in
  the call of \<^verbatim>\<open>sendPendingPackets\<close>, if it comes to that, a tick in the order \<open>ths\<close> of its steps and those
  of the sender.
\<close>

datatype router_event =
    HandlePacket clock buffer string
  | Interrupted "nat \<Rightarrow> clock list" clock "thread list" clock buffer string
  | ResetRouter "PoxIface list"
  | Tick clock

datatype process =
    Running SimpleRouter
  | Terminated string
  | Corrupted undefined_behaviour

inductive router_step :: "router_event \<Rightarrow> process \<Rightarrow> process \<Rightarrow> bool" where
  packet: "handlePacket clk p i s = Done () s' \<Longrightarrow>
    router_step (HandlePacket clk p i) (Running s) (Running s')"
| packet_throws: "handlePacket clk p i s = Raised e s' \<Longrightarrow>
    router_step (HandlePacket clk p i) (Running s) (Running s')"
| packet_undef: "handlePacket clk p i s = Undef u \<Longrightarrow>
    router_step (HandlePacket clk p i) (Running s) (Corrupted u)"
| interrupted: "handlePacket_ticks (send_during clk' ths) ticks clk p i s = Done None s' \<Longrightarrow>
    router_step (Interrupted ticks clk' ths clk p i) (Running s) (Running s')"
| interrupted_killed: "handlePacket_ticks (send_during clk' ths) ticks clk p i s = Done (Some e) s' \<Longrightarrow>
    router_step (Interrupted ticks clk' ths clk p i) (Running s) (Terminated e)"
| interrupted_throws: "handlePacket_ticks (send_during clk' ths) ticks clk p i s = Raised e s' \<Longrightarrow>
    router_step (Interrupted ticks clk' ths clk p i) (Running s) (Running s')"
| interrupted_undef: "handlePacket_ticks (send_during clk' ths) ticks clk p i s = Undef u \<Longrightarrow>
    router_step (Interrupted ticks clk' ths clk p i) (Running s) (Corrupted u)"
| reset: "reset ports s = Done () s' \<Longrightarrow>
    router_step (ResetRouter ports) (Running s) (Running s')"
| reset_throws: "reset ports s = Raised e s' \<Longrightarrow>
    router_step (ResetRouter ports) (Running s) (Running s')"
| tick: "ticker_body clk s = Done () s' \<Longrightarrow> router_step (Tick clk) (Running s) (Running s')"
| tick_throws: "ticker_body clk s = Raised e s' \<Longrightarrow>
    router_step (Tick clk) (Running s) (Terminated e)"
| tick_undef: "ticker_body clk s = Undef u \<Longrightarrow> router_step (Tick clk) (Running s) (Corrupted u)"

inductive_cases step_packetE: "router_step (HandlePacket clk p i) (Running s) q"
inductive_cases step_interruptedE: "router_step (Interrupted ticks clk' ths clk p i) (Running s) q"
inductive_cases step_resetE: "router_step (ResetRouter ports) (Running s) q"
inductive_cases step_tickE: "router_step (Tick clk) (Running s) q"
inductive_simps step_running: "router_step ev (Running s) q"
inductive_simps step_stopped: "router_step ev (Terminated e) q" "router_step ev (Corrupted u) q"

inductive reachable :: "process \<Rightarrow> process \<Rightarrow> bool" for p where
  here: "reachable p p"
| later: "reachable p q \<Longrightarrow> router_step ev q r \<Longrightarrow> reachable p r"

section \<open>The invariant of the process\<close>

fun process_inv :: "process \<Rightarrow> bool" where
  "process_inv (Running s) = router_inv s"
| "process_inv _ = True"

lemma reset_never_undef: "reset ports s \<noteq> Undef u"
  by (auto simp: reset_outcome Let_def)

lemma process_inv_step:
  assumes "process_inv p" and "router_step ev p q"
  shows "process_inv q"
  using assms(2,1)
proof (induction rule: router_step.induct)
  case (packet clk p i s s')
  then show ?case using handlePacket_inv [of s clk p i] by simp
next
  case (packet_throws clk p i s e s')
  then show ?case using handlePacket_inv [of s clk p i] by simp
next
  case (interrupted clk' ths ticks clk p i s s')
  then show ?case using handlePacket_ticks_inv [of s clk' ths ticks clk p i] by simp
next
  case (interrupted_throws clk' ths ticks clk p i s e s')
  then show ?case using handlePacket_ticks_inv [of s clk' ths ticks clk p i] by simp
next
  case (reset ports s s')
  then show ?case using router_inv_reset [of s ports] by simp
next
  case (reset_throws ports s e s')
  then show ?case using router_inv_reset [of s ports] by simp
next
  case (tick clk s s')
  then show ?case using ticker_body_inv [of s clk] by simp
qed simp_all

lemma step_exists: "\<exists>q. router_step ev (Running s) q"
proof (cases ev)
  case (HandlePacket clk p i)
  then show ?thesis by (cases "handlePacket clk p i s") (auto intro: router_step.intros)
next
  case (Interrupted ticks clk' ths clk p i)
  show ?thesis
  proof (cases "handlePacket_ticks (send_during clk' ths) ticks clk p i s")
    case (Done killed s')
    then show ?thesis using Interrupted by (cases killed) (auto intro: router_step.intros)
  qed (use Interrupted in \<open>auto intro: router_step.intros\<close>)
next
  case (ResetRouter ports)
  then show ?thesis
    using reset_never_undef [of ports s] by (cases "reset ports s") (auto intro: router_step.intros)
next
  case (Tick clk)
  then show ?thesis by (cases "ticker_body clk s") (auto intro: router_step.intros)
qed

lemma router_step_unique: "router_step ev p q \<Longrightarrow> router_step ev p r \<Longrightarrow> q = r"
  by (induction rule: router_step.induct) (auto elim: router_step.cases)

lemma reachable_inv: "reachable p q \<Longrightarrow> process_inv p \<Longrightarrow> process_inv q"
  by (induction rule: reachable.induct) (auto intro: process_inv_step)

section \<open>Startup\<close>

lemma router_inv_table: "router_inv s \<Longrightarrow> router_inv (s\<lparr>m_routingTable := t\<rparr>)"
  by (simp add: router_inv_def ifaces_inv_def)

lemma load_ifconfig_frame:
  "oc_all (\<lambda>s'. \<exists>m. s' = s\<lparr>m_ifNameToIpMap := m\<rparr>) (load_ifconfig_lines aton ls s)"
proof (induction ls arbitrary: s)
  case Nil
  show ?case by (auto intro!: exI [of _ "m_ifNameToIpMap s"])
next
  case (Cons l ls)
  have "oc_all (\<lambda>s'. \<exists>m. s' = s\<lparr>m_ifNameToIpMap := m\<rparr>)
      (load_ifconfig_lines aton ls (s\<lparr>m_ifNameToIpMap := m'\<rparr>))" for m'
    using Cons.IH [of "s\<lparr>m_ifNameToIpMap := m'\<rparr>"] by simp
  then show ?case by (auto simp: Let_def intro!: exI [of _ "m_ifNameToIpMap s"] split: option.split)
qed

lemma startup_inv: "oc_all router_inv (startup aton rt connected ifs ports)"
proof -
  have 1: "oc_all (\<lambda>s. router_inv s \<and> m_ifaces s = []) (loadRoutingTable aton rt router_init)"
  proof -
    have "m_ifaces router_init = []" by (simp add: router_init_def)
    then show ?thesis
      by (auto simp: loadRoutingTable_def router_inv_table router_inv_init split: outcome.split)
  qed
  have 2: "oc_all router_inv (loadIfconfig aton ifs s)" if "router_inv s" "m_ifaces s = []" for s
    unfolding loadIfconfig_def
    by (rule oc_all_mono [OF load_ifconfig_frame])
       (use that in \<open>auto simp: router_inv_def ifaces_inv_def\<close>)
  have "oc_all router_inv (if \<not> ok then Done False s
       else oc_bind (loadIfconfig aton ifs s) (\<lambda>_ s. oc_bind (reset ports s) (\<lambda>_ s. Done True s)))"
    if "router_inv s" "m_ifaces s = []" for ok s
    using that 2 [OF that] by (auto intro!: oc_all_bind router_inv_reset)
  then show ?thesis
    unfolding startup_def using 1 by (cases "loadRoutingTable aton rt router_init") auto
qed

section \<open>A router that stays up\<close>

text \<open>Whole frames, IPv4 frames addressed to an interface of the router, no tick between the two lookups
  of a packet in transit, and none that stands on the node which \<^verbatim>\<open>sendPendingPackets\<close> removes; resets that
  list the interfaces of the routes.\<close>

fun admissible :: "router_event \<Rightarrow> process \<Rightarrow> bool" where
  "admissible (HandlePacket clk p i) (Running s) \<longleftrightarrow> 42 \<le> length p \<and>
     (chunk 12 2 p = [0x08, 0x00] \<longrightarrow> chunk 0 6 p \<in> if_addr ` set (m_ifaces s))"
| "admissible (Interrupted ticks clk' ths clk p i) (Running s) \<longleftrightarrow> ticks 3 = [] \<and> 42 \<le> length p \<and>
     (chunk 12 2 p = [0x08, 0x00] \<longrightarrow> chunk 0 6 p \<in> if_addr ` set (m_ifaces s)) \<and>
     handlePacket_ticks (send_watched clk' ths) ticks clk p i s \<noteq> Undef UseAfterFree"
| "admissible (ResetRouter ports) (Running s) \<longleftrightarrow>
     (\<forall>e \<in> set (m_routingTable s). m_ifNameToIpMap s (rt_ifName e) \<noteq> None \<and>
        rt_ifName e \<in> port_name ` set ports) \<and>
     (\<forall>p \<in> set ports. length (port_mac p) = 6)"
| "admissible _ _ \<longleftrightarrow> True"

fun up :: "process \<Rightarrow> bool" where
  "up (Running s) \<longleftrightarrow> router_inv s \<and> config_ok s"
| "up _ \<longleftrightarrow> False"

lemma reset_routes_ok:
  assumes "routes_ok s" and "admissible (ResetRouter ports) (Running s)"
    and m: "m_ifaces s' = reset_ports (m_ifNameToIpMap s) ports []"
    and t: "m_routingTable s' = m_routingTable s"
  shows "routes_ok s'"
proof -
  have "\<exists>i. findIfaceByName (m_ifaces s') (rt_ifName e) = Some i" if "e \<in> set (m_routingTable s)" for e
  proof -
    from assms(2) that obtain ip where ip: "m_ifNameToIpMap s (rt_ifName e) = Some ip"
      and "rt_ifName e \<in> port_name ` set ports" by auto
    then have "find (\<lambda>p. port_name p = rt_ifName e) ports \<noteq> None"
      by (auto simp: find_None_iff)
    with ip show ?thesis by (auto simp: m find_reset_ports)
  qed
  moreover have "length (if_addr i) = 6" if i: "i \<in> set (m_ifaces s')" for i
  proof -
    have "iface_set_inv (m_ifaces s')" using reset_ports_inv by (simp add: m)
    with i have "findIfaceByName (m_ifaces s') (if_name i) = Some i" by (simp add: find_iface_set)
    then obtain p where "find (\<lambda>p. port_name p = if_name i) ports = Some p" "if_addr i = port_mac p"
      by (cases i) (auto simp: m find_reset_ports split: option.splits)
    with assms(2) show ?thesis by (auto dest: find_in_set)
  qed
  ultimately show ?thesis by (simp add: routes_ok_def t)
qed

lemma up_step:
  assumes "up p" and "admissible ev p" and "router_step ev p q"
  shows "up q"
  using assms(3,1,2)
proof (induction rule: router_step.induct)
  case (packet clk p i s s')
  then show ?case using handlePacket_inv [of s clk p i] by (auto dest: config_ok_same)
next
  case (packet_throws clk p i s e s')
  then show ?case using handlePacket_inv [of s clk p i] by (auto dest: config_ok_same)
next
  case (packet_undef clk p i s u)
  then have "\<not> is_undef (handlePacket clk p i s)"
    by (intro handlePacket_safe) (auto simp: router_ready_def config_ok_def)
  with packet_undef show ?case by simp
next
  case (interrupted clk' ths ticks clk p i s s')
  then show ?case using handlePacket_ticks_inv [of s clk' ths ticks clk p i] by (auto dest: config_ok_same)
next
  case (interrupted_killed clk' ths ticks clk p i s e s')
  then show ?case using handlePacket_ticks_unharmed [of s p ticks clk' ths clk i] by simp
next
  case (interrupted_throws clk' ths ticks clk p i s e s')
  then show ?case using handlePacket_ticks_inv [of s clk' ths ticks clk p i] by (auto dest: config_ok_same)
next
  case (interrupted_undef clk' ths ticks clk p i s u)
  then show ?case using handlePacket_ticks_unharmed [of s p ticks clk' ths clk i] by simp
next
  case (reset ports s s')
  then have s': "s' = s\<lparr>m_arp := arp_clear (m_arp s), m_ifaces := reset_ports (m_ifNameToIpMap s) ports []\<rparr>"
    by (auto simp: reset_outcome Let_def split: if_splits)
  have "routes_ok s'" by (rule reset_routes_ok [of s ports]) (use reset in \<open>simp_all add: s' config_ok_def\<close>)
  then show ?case
    using reset router_inv_reset [of s ports] by (simp add: config_ok_def host_routes_def s')
next
  case (reset_throws ports s e s')
  then have s': "s' = s\<lparr>m_arp := arp_clear (m_arp s), m_ifaces := reset_ports (m_ifNameToIpMap s) ports []\<rparr>"
    by (auto simp: reset_outcome Let_def split: if_splits)
  have "routes_ok s'" by (rule reset_routes_ok [of s ports]) (use reset_throws in \<open>simp_all add: s' config_ok_def\<close>)
  then show ?case
    using reset_throws router_inv_reset [of s ports] by (simp add: config_ok_def host_routes_def s')
next
  case (tick clk s s')
  then show ?case using ticker_body_inv [of s clk] by (auto dest: config_ok_same)
next
  case (tick_throws clk s e s')
  then show ?case
    using ticker_body_refines [OF _ _ config_ok_routable, of s clk] by (simp add: config_ok_def)
next
  case (tick_undef clk s u)
  then show ?case using ticker_body_safe [of s clk] by (simp add: config_ok_def)
qed

interpretation router: stable_system router_step admissible up
proof
  show "up q" if "up p" "admissible e p" "router_step e p q" for p e q
    using that by (rule up_step)
  show "\<exists>q. router_step e p q" if "up p" for p e
    using that step_exists by (cases p) auto
qed

section \<open>A request without a route\<close>

lemma ticker_unroutable:
  assumes "router_inv s" and "m_arpRequests (m_arp s) = r # rs" and "due clk 1 r"
    and "\<not> MAX_SENT_TIME \<le> nTimesSent r" and "rt_lookup (m_routingTable s) (ar_ip r) = Inl m"
  shows "router_step (Tick clk) (Running s) (Terminated m)"
proof (rule router_step.tick_throws)
  let ?s = "s\<lparr>m_arp := expire_entries (clk 0) (m_arp s)\<rparr>"
  have "distinct (map ar_ptr ([] @ r # rs))" using assms(1,2) by (auto simp: router_inv_def arp_inv_def)
  moreover have "m_arpRequests (m_arp ?s) = [] @ r # rs" using assms(2) by simp
  ultimately have "deref_request (m_arp ?s) (ar_ptr r) = Some r" by (rule deref_middle)
  then have "handleArpRequest clk 1 (ar_ptr r) False ?s = Raised m ?s"
    using assms(3-5) by (simp add: handleArpRequest_def)
  then show "ticker_body clk s = Raised m ?s"
    using assms(2) by (simp add: ticker_body_def periodicCheckArpRequestsAndCacheEntries_def)
qed

end
