(* ===== verification/Examples.thy ===== *)
theory Examples
  imports RouterProcess
begin

unbundle bit_operations_syntax

text \<open>
  A concrete router for the examples that accompany the properties: the interfaces of
  \<^verbatim>\<open>IP_CONFIG\<close>, the routes of \<^verbatim>\<open>RTABLE\<close> (as shipped, and with the netmasks of host routes), a cache
  that knows \<^verbatim>\<open>server1\<close>, and IPv4 frames from the client with their checksums filled in.
\<close>

section \<open>The router\<close>

definition client_ip :: u32 where "client_ip = le32 10 0 1 100"
definition server1_ip :: u32 where "server1_ip = le32 192 168 2 2"
definition server2_ip :: u32 where "server2_ip = le32 172 64 3 10"
definition iface1_ip :: u32 where "iface1_ip = le32 192 168 2 1"
definition iface2_ip :: u32 where "iface2_ip = le32 172 64 3 1"
definition iface3_ip :: u32 where "iface3_ip = le32 10 0 1 1"

lemmas ip_defs = client_ip_def server1_ip_def server2_ip_def iface1_ip_def iface2_ip_def iface3_ip_def

abbreviation client_mac :: buffer where "client_mac \<equiv> [4, 0, 0, 0, 0, 9]"
abbreviation server1_mac :: buffer where "server1_mac \<equiv> [4, 0, 0, 0, 0, 1]"
abbreviation iface_mac :: "byte \<Rightarrow> buffer" where "iface_mac n \<equiv> [2, 0, 0, 0, 0, n]"

definition iface1 :: Interface where
  "iface1 = \<lparr>if_name = ''sw0-eth1'', if_addr = iface_mac 1, if_ip = iface1_ip\<rparr>"
definition iface2 :: Interface where
  "iface2 = \<lparr>if_name = ''sw0-eth2'', if_addr = iface_mac 2, if_ip = iface2_ip\<rparr>"
definition iface3 :: Interface where
  "iface3 = \<lparr>if_name = ''sw0-eth3'', if_addr = iface_mac 3, if_ip = iface3_ip\<rparr>"

lemmas iface_defs = iface1_def iface2_def iface3_def

definition example_ifaces :: "Interface list" where
  "example_ifaces = [iface1, iface2, iface3]"

text \<open>The default route, and the routes to the two servers with a netmask: all ones, or as in the
  shipped file.\<close>

definition default_route :: RoutingTableEntry where
  "default_route = \<lparr>rt_dest = 0, rt_gw = client_ip, rt_mask = 0, rt_ifName = ''sw0-eth3''\<rparr>"
definition server1_route :: "u32 \<Rightarrow> RoutingTableEntry" where
  "server1_route m = \<lparr>rt_dest = server1_ip, rt_gw = server1_ip, rt_mask = m, rt_ifName = ''sw0-eth1''\<rparr>"
definition server2_route :: "u32 \<Rightarrow> RoutingTableEntry" where
  "server2_route m = \<lparr>rt_dest = server2_ip, rt_gw = server2_ip, rt_mask = m, rt_ifName = ''sw0-eth2''\<rparr>"

lemmas route_defs = default_route_def server1_route_def server2_route_def

definition example_routes :: "u32 \<Rightarrow> u32 \<Rightarrow> RoutingTable" where
  "example_routes m1 m2 = [default_route, server1_route m1, server2_route m2]"

definition server1_entry :: ArpEntry where
  "server1_entry = \<lparr>ae_ptr = 0, ae_mac = server1_mac, ae_ip = server1_ip, timeAdded = 0, isValid = True\<rparr>"

definition example_map :: "string \<rightharpoonup> u32" where
  "example_map = map_of [(''sw0-eth1'', iface1_ip), (''sw0-eth2'', iface2_ip), (''sw0-eth3'', iface3_ip)]"

definition example_router_with :: "RoutingTable \<Rightarrow> ArpEntry list \<Rightarrow> ArpRequest list \<Rightarrow> SimpleRouter" where
  "example_router_with t es rs =
     \<lparr>m_arp = \<lparr>m_cacheEntries = es, m_arpRequests = rs, next_ptr = 9\<rparr>, m_routingTable = t,
      m_ifaces = example_ifaces, m_ifNameToIpMap = example_map, temp_iface = [], sent = []\<rparr>"

abbreviation host_table :: RoutingTable where "host_table \<equiv> example_routes (- 1) (- 1)"

definition example_router :: SimpleRouter where
  "example_router = example_router_with host_table [server1_entry] []"

lemma example_fields [simp]:
  "m_routingTable (example_router_with t es rs) = t" "m_ifaces (example_router_with t es rs) = example_ifaces"
  "m_arp (example_router_with t es rs) = \<lparr>m_cacheEntries = es, m_arpRequests = rs, next_ptr = 9\<rparr>"
  "sent (example_router_with t es rs) = []" "m_ifNameToIpMap (example_router_with t es rs) = example_map"
  by (simp_all add: example_router_with_def)

lemma example_if_fields [simp]:
  "if_name iface1 = ''sw0-eth1''" "if_addr iface1 = iface_mac 1" "if_ip iface1 = iface1_ip"
  "if_name iface2 = ''sw0-eth2''" "if_addr iface2 = iface_mac 2" "if_ip iface2 = iface2_ip"
  "if_name iface3 = ''sw0-eth3''" "if_addr iface3 = iface_mac 3" "if_ip iface3 = iface3_ip"
  by (simp_all add: iface_defs)

lemma example_route_fields [simp]:
  "rt_dest default_route = 0" "rt_mask default_route = 0" "rt_ifName default_route = ''sw0-eth3''"
  "rt_dest (server1_route m) = server1_ip" "rt_mask (server1_route m) = m"
  "rt_ifName (server1_route m) = ''sw0-eth1''"
  "rt_dest (server2_route m) = server2_ip" "rt_mask (server2_route m) = m"
  "rt_ifName (server2_route m) = ''sw0-eth2''"
  by (simp_all add: route_defs)

lemma ip_nonzero [simp]: "server1_ip \<noteq> 0" "server2_ip \<noteq> 0"
  using ipToString_0 [of server1_ip] ipToString_0 [of server2_ip]
  by (simp_all add: ip_defs le32_def)

lemma example_sorted: "iface_set_inv example_ifaces"
  by (simp add: iface_set_inv_def example_ifaces_def less_Interface_ext_def iface_less_def less_char_def)

lemma example_ifaces_inv: "ifaces_inv (example_router_with t es rs)"
  by (simp add: ifaces_inv_def example_sorted) (simp add: example_ifaces_def example_map_def)

lemma example_find_name [simp]:
  "findIfaceByName example_ifaces ''sw0-eth1'' = Some iface1"
  "findIfaceByName example_ifaces ''sw0-eth2'' = Some iface2"
  "findIfaceByName example_ifaces ''sw0-eth3'' = Some iface3"
  by (simp_all add: findIfaceByName_def example_ifaces_def)

lemma example_find_ip [simp]:
  "findIfaceByIp example_ifaces server1_ip = None" "findIfaceByIp example_ifaces server2_ip = None"
  "findIfaceByIp example_ifaces iface3_ip = Some iface3"
  by (simp_all add: findIfaceByIp_def example_ifaces_def ip_defs le32_inject)

lemma example_routes_ok: "routes_ok (example_router_with (example_routes m1 m2) es rs)"
  by (simp add: routes_ok_def example_routes_def) (simp add: example_ifaces_def)

lemma example_ready_with:
  "arp_inv \<lparr>m_cacheEntries = es, m_arpRequests = rs, next_ptr = 9\<rparr> \<Longrightarrow>
   router_ready (example_router_with (example_routes m1 m2) es rs)"
  by (simp add: router_ready_def router_inv_def example_ifaces_inv example_routes_ok)

lemma example_arp_inv: "arp_inv \<lparr>m_cacheEntries = [server1_entry], m_arpRequests = [], next_ptr = 9\<rparr>"
  by (simp add: arp_inv_def server1_entry_def)

lemma example_ready: "router_ready example_router"
  unfolding example_router_def by (rule example_ready_with) (rule example_arp_inv)

lemma example_router_fields:
  "m_routingTable example_router = host_table" "m_ifaces example_router = example_ifaces"
  "m_arp example_router = \<lparr>m_cacheEntries = [server1_entry], m_arpRequests = [], next_ptr = 9\<rparr>"
  "sent example_router = []"
  by (simp_all add: example_router_def)

lemma example_host_routes: "host_routes (example_router_with host_table es rs)"
  by (simp add: host_routes_def example_routes_def)

lemma example_config_ok: "config_ok (example_router_with host_table es rs)"
  by (simp add: config_ok_def example_host_routes example_routes_ok) (simp add: example_routes_def)

lemma example_route_server [simp]:
  "rt_lookup host_table server1_ip = Inr (server1_route (- 1))"
  "rt_lookup host_table server2_ip = Inr (server2_route (- 1))"
  by (simp_all add: rt_lookup_def example_routes_def rt_matches_def ip_defs le32_inject)

lemma example_arp_mac [simp]:
  "arp_mac \<lparr>m_cacheEntries = [server1_entry], m_arpRequests = rs, next_ptr = n\<rparr> server1_ip = Some server1_mac"
  "arp_mac \<lparr>m_cacheEntries = [server1_entry], m_arpRequests = rs, next_ptr = n\<rparr> server2_ip = None"
  "arp_mac \<lparr>m_cacheEntries = [server1_entry], m_arpRequests = rs, next_ptr = n\<rparr> client_ip = None"
  by (simp_all add: arp_mac_def arp_lookup_def server1_entry_def ip_defs le32_inject)

section \<open>The frames\<close>

text \<open>An IPv4 frame of 42 bytes from the client: identification byte, time to live, protocol,
  checksum, destination, payload.\<close>

definition client_frame :: "byte \<Rightarrow> byte \<Rightarrow> byte \<Rightarrow> byte \<Rightarrow> byte \<Rightarrow> buffer \<Rightarrow> buffer \<Rightarrow> buffer" where
  "client_frame idb ttl proto c1 c2 di payload =
     iface_mac 3 @ client_mac @ [8, 0] @ [69, 0, 0, 28, idb, 0, 0, 0, ttl, proto, c1, c2, 10, 0, 1, 100] @
     di @ payload"

abbreviation udp_payload :: buffer where "udp_payload \<equiv> [19, 136, 19, 136, 0, 8, 0, 0]"
abbreviation echo_payload :: buffer where "echo_payload \<equiv> [8, 0, 0xf7, 0xfe, 0, 1, 0, 0]"

lemma client_frame_fields:
  assumes "length payload = 8"
  shows "length (client_frame idb ttl proto c1 c2 [a, b, c, d] payload) = 42"
    and "chunk 12 2 (client_frame idb ttl proto c1 c2 [a, b, c, d] payload) = [8, 0]"
    and "chunk 0 6 (client_frame idb ttl proto c1 c2 [a, b, c, d] payload) = iface_mac 3"
    and "u32_at 26 (client_frame idb ttl proto c1 c2 [a, b, c, d] payload) = client_ip"
    and "u32_at 30 (client_frame idb ttl proto c1 c2 [a, b, c, d] payload) = le32 a b c d"
    and "client_frame idb ttl proto c1 c2 [a, b, c, d] payload ! 22 = ttl"
    and "client_frame idb ttl proto c1 c2 [a, b, c, d] payload ! 23 = proto"
    and "client_frame idb ttl proto c1 c2 [a, b, c, d] payload ! 24 = c1"
    and "client_frame idb ttl proto c1 c2 [a, b, c, d] payload ! 34 = payload ! 0"
  using assms by (simp_all add: client_frame_def chunk_def u32_at_def ip_defs)

lemma client_frame_cksum:
  "ip_cksum_ok (client_frame idb ttl proto c1 c2 [a, b, c, d] payload) \<longleftrightarrow>
   sum16 [69, 0, 0, 28, idb, 0, 0, 0, ttl, proto, c1, c2, 10, 0, 1, 100, a, b, c, d] mod 65535 = 0"
  using ck.verify [of 20 "drop 14 (client_frame idb ttl proto c1 c2 [a, b, c, d] payload)"]
  by (simp add: ip_cksum_ok_def client_frame_def del: sum16.simps)

text \<open>To \<^verbatim>\<open>server1\<close> with a time to live of 64, 1 and 0; to \<^verbatim>\<open>server2\<close>; to a closed port of the
  router; an echo request to the router; one that expires on its way to \<^verbatim>\<open>server1\<close>; one to the router
  with a checksum that starts with a zero byte.\<close>

definition transit_frame :: buffer where
  "transit_frame = client_frame 0 64 17 172 195 [192, 168, 2, 2] udp_payload"

definition last_hop_frame :: buffer where
  "last_hop_frame = client_frame 0 1 17 235 195 [192, 168, 2, 2] udp_payload"

definition dead_frame :: buffer where
  "dead_frame = client_frame 0 0 17 236 195 [192, 168, 2, 2] udp_payload"

definition server2_frame :: buffer where
  "server2_frame = client_frame 0 64 17 192 35 [172, 64, 3, 10] udp_payload"

definition udp_frame :: buffer where
  "udp_frame = client_frame 0 64 17 100 109 [10, 0, 1, 1] udp_payload"

definition echo_frame :: buffer where
  "echo_frame = client_frame 0 64 1 100 125 [10, 0, 1, 1] echo_payload"

definition expired_echo_frame :: buffer where
  "expired_echo_frame = client_frame 0 1 1 235 211 [192, 168, 2, 2] echo_payload"

definition echo_frame_0 :: buffer where
  "echo_frame_0 = client_frame 100 64 1 0 125 [10, 0, 1, 1] echo_payload"

lemmas frame_defs = transit_frame_def last_hop_frame_def dead_frame_def server2_frame_def
  udp_frame_def echo_frame_def expired_echo_frame_def echo_frame_0_def

lemma frames_ok:
  "ip_cksum_ok transit_frame" "ip_cksum_ok last_hop_frame" "ip_cksum_ok dead_frame"
  "ip_cksum_ok server2_frame" "ip_cksum_ok udp_frame" "ip_cksum_ok echo_frame"
  "ip_cksum_ok expired_echo_frame" "ip_cksum_ok echo_frame_0"
  unfolding frame_defs client_frame_cksum by (simp_all add: be16_def)

lemma transit_frame_facts [simp]:
  "length transit_frame = 42" "chunk 12 2 transit_frame = [8, 0]" "chunk 0 6 transit_frame = iface_mac 3"
  "u32_at 26 transit_frame = client_ip" "u32_at 30 transit_frame = server1_ip" "transit_frame ! 22 = 64" "transit_frame ! 23 = 17"
  "transit_frame ! 34 = 19"
  by (simp_all add: transit_frame_def client_frame_fields ip_defs)

lemma last_hop_frame_facts [simp]:
  "length last_hop_frame = 42" "chunk 12 2 last_hop_frame = [8, 0]" "chunk 0 6 last_hop_frame = iface_mac 3"
  "u32_at 26 last_hop_frame = client_ip" "u32_at 30 last_hop_frame = server1_ip" "last_hop_frame ! 22 = 1" "last_hop_frame ! 23 = 17"
  "last_hop_frame ! 34 = 19"
  by (simp_all add: last_hop_frame_def client_frame_fields ip_defs)

lemma dead_frame_facts [simp]:
  "length dead_frame = 42" "chunk 12 2 dead_frame = [8, 0]" "chunk 0 6 dead_frame = iface_mac 3"
  "u32_at 26 dead_frame = client_ip" "u32_at 30 dead_frame = server1_ip" "dead_frame ! 22 = 0" "dead_frame ! 23 = 17"
  "dead_frame ! 34 = 19"
  by (simp_all add: dead_frame_def client_frame_fields ip_defs)

lemma server2_frame_facts [simp]:
  "length server2_frame = 42" "chunk 12 2 server2_frame = [8, 0]" "chunk 0 6 server2_frame = iface_mac 3"
  "u32_at 26 server2_frame = client_ip" "u32_at 30 server2_frame = server2_ip" "server2_frame ! 22 = 64" "server2_frame ! 23 = 17"
  "server2_frame ! 34 = 19"
  by (simp_all add: server2_frame_def client_frame_fields ip_defs)

lemma udp_frame_facts [simp]:
  "length udp_frame = 42" "chunk 12 2 udp_frame = [8, 0]" "chunk 0 6 udp_frame = iface_mac 3"
  "u32_at 26 udp_frame = client_ip" "u32_at 30 udp_frame = iface3_ip" "udp_frame ! 22 = 64" "udp_frame ! 23 = 17"
  "udp_frame ! 34 = 19"
  by (simp_all add: udp_frame_def client_frame_fields ip_defs)

lemma echo_frame_facts [simp]:
  "length echo_frame = 42" "chunk 12 2 echo_frame = [8, 0]" "chunk 0 6 echo_frame = iface_mac 3"
  "u32_at 26 echo_frame = client_ip" "u32_at 30 echo_frame = iface3_ip" "echo_frame ! 22 = 64" "echo_frame ! 23 = 1"
  "echo_frame ! 34 = 8"
  by (simp_all add: echo_frame_def client_frame_fields ip_defs)

lemma expired_echo_frame_facts [simp]:
  "length expired_echo_frame = 42" "chunk 12 2 expired_echo_frame = [8, 0]" "chunk 0 6 expired_echo_frame = iface_mac 3"
  "u32_at 26 expired_echo_frame = client_ip" "u32_at 30 expired_echo_frame = server1_ip"
  "expired_echo_frame ! 22 = 1" "expired_echo_frame ! 23 = 1" "expired_echo_frame ! 34 = 8"
  by (simp_all add: expired_echo_frame_def client_frame_fields ip_defs)

lemma echo_frame_0_facts [simp]:
  "length echo_frame_0 = 42" "chunk 12 2 echo_frame_0 = [8, 0]" "chunk 0 6 echo_frame_0 = iface_mac 3"
  "u32_at 26 echo_frame_0 = client_ip" "u32_at 30 echo_frame_0 = iface3_ip" "echo_frame_0 ! 22 = 64" "echo_frame_0 ! 23 = 1"
  "echo_frame_0 ! 34 = 8"
  by (simp_all add: echo_frame_0_def client_frame_fields ip_defs)

declare frames_ok [simp]

declare example_router_fields [simp]

lemma frames_valid [simp]:
  "valid_ip_frame transit_frame" "valid_ip_frame last_hop_frame" "valid_ip_frame dead_frame"
  "valid_ip_frame server2_frame" "valid_ip_frame udp_frame" "valid_ip_frame echo_frame"
  "valid_ip_frame expired_echo_frame" "valid_ip_frame echo_frame_0"
  by (simp_all add: valid_ip_frame_def)

lemma example_find_mac [simp]:
  "findIfaceByMac example_ifaces (iface_mac 3) = Some iface3"
  by (simp add: findIfaceByMac_def example_ifaces_def)

lemma client_neq [simp]: "client_ip \<noteq> server2_ip" "client_ip \<noteq> server1_ip"
  by (simp_all add: ip_defs le32_inject)

section \<open>ARP frames and routers with packets waiting\<close>

text \<open>The client asks for the router; \<^verbatim>\<open>server2\<close> answers the router.\<close>

definition arp_query :: buffer where
  "arp_query = [0xff, 0xff, 0xff, 0xff, 0xff, 0xff] @ client_mac @ [8, 6, 0, 1, 8, 0, 6, 4, 0, 1] @ client_mac @ [10, 0, 1, 100] @
     [0, 0, 0, 0, 0, 0] @ [10, 0, 1, 1]"

definition arp_answer :: buffer where
  "arp_answer = iface_mac 2 @ [4, 0, 0, 0, 0, 2] @ [8, 6, 0, 1, 8, 0, 6, 4, 0, 2] @ [4, 0, 0, 0, 0, 2] @
     [172, 64, 3, 10] @ iface_mac 2 @ [172, 64, 3, 1]"

lemma arp_query_facts [simp]:
  "length arp_query = 42" "chunk 12 2 arp_query = [8, 6]" "chunk 20 2 arp_query = [0, 1]"
  "u32_at 38 arp_query = iface3_ip" "u32_at 28 arp_query = client_ip"
  by (simp_all add: arp_query_def chunk_def u32_at_def ip_defs)

lemma arp_answer_facts [simp]:
  "length arp_answer = 42" "chunk 12 2 arp_answer = [8, 6]" "chunk 20 2 arp_answer = [0, 2]"
  "u32_at 28 arp_answer = server2_ip"
  by (simp_all add: arp_answer_def chunk_def u32_at_def ip_defs)

text \<open>A packet waits for \<^verbatim>\<open>server2\<close>; in the second router its address has been learnt meanwhile.\<close>

definition server2_request :: ArpRequest where
  "server2_request = \<lparr>ar_ptr = 1, ar_ip = server2_ip, timeSent = 0, nTimesSent = 0,
     packets = [\<lparr>pp_packet = server2_frame, pp_iface = ''sw0-eth3''\<rparr>]\<rparr>"

definition server2_entry :: ArpEntry where
  "server2_entry = \<lparr>ae_ptr = 2, ae_mac = [4, 0, 0, 0, 0, 2], ae_ip = server2_ip, timeAdded = 0, isValid = True\<rparr>"

definition waiting_router :: SimpleRouter where
  "waiting_router = example_router_with host_table [server1_entry] [server2_request]"

definition stuck_router :: SimpleRouter where
  "stuck_router = example_router_with host_table [server1_entry, server2_entry] [server2_request]"

lemma waiting_fields [simp]:
  "m_routingTable waiting_router = host_table" "m_ifaces waiting_router = example_ifaces"
  "m_arp waiting_router = \<lparr>m_cacheEntries = [server1_entry], m_arpRequests = [server2_request], next_ptr = 9\<rparr>"
  "sent waiting_router = []" "m_ifaces stuck_router = example_ifaces"
  by (simp_all add: waiting_router_def stuck_router_def)

lemma waiting_ready: "router_ready waiting_router"
  unfolding waiting_router_def
  by (rule example_ready_with)
     (simp add: arp_inv_def server1_entry_def server2_request_def request_ok_def MAX_SENT_TIME_def)

lemma stuck_ready: "router_ready stuck_router"
  unfolding stuck_router_def
  by (rule example_ready_with)
     (simp add: arp_inv_def server1_entry_def server2_entry_def server2_request_def request_ok_def
        MAX_SENT_TIME_def ip_defs le32_inject)

lemma stuck_facts [simp]:
  "arp_mac (m_arp stuck_router) server2_ip = Some [4, 0, 0, 0, 0, 2]"
  "pending (m_arp stuck_router) server2_ip \<noteq> []"
  by (simp_all add: stuck_router_def arp_mac_def arp_lookup_def server1_entry_def server2_entry_def
      server2_request_def pending_def find_request_def ip_defs le32_inject)

section \<open>Configurations with gaps\<close>

text \<open>Only a route to \<^verbatim>\<open>server1\<close>; and the shipped netmasks, with a neighbour of \<^verbatim>\<open>server1\<close> in the cache
  in place of \<^verbatim>\<open>server1\<close>.\<close>

definition sparse_router :: SimpleRouter where
  "sparse_router = example_router_with [server1_route (- 1)] [server1_entry] []"

definition neighbour_ip :: u32 where "neighbour_ip = le32 192 168 2 7"

definition neighbour_frame :: buffer where
  "neighbour_frame = client_frame 0 64 17 172 190 [192, 168, 2, 7] udp_payload"

definition shipped_routes :: RoutingTable where
  "shipped_routes = example_routes (le32 255 255 255 0) (le32 255 255 0 0)"

definition shipped_router :: SimpleRouter where
  "shipped_router = example_router_with shipped_routes
     [\<lparr>ae_ptr = 0, ae_mac = [4, 0, 0, 0, 0, 7], ae_ip = neighbour_ip, timeAdded = 0, isValid = True\<rparr>] []"

lemma sparse_fields [simp]:
  "m_routingTable sparse_router = [server1_route (- 1)]" "m_ifaces sparse_router = example_ifaces"
  "m_arp sparse_router = \<lparr>m_cacheEntries = [server1_entry], m_arpRequests = [], next_ptr = 9\<rparr>"
  "rt_lookup [server1_route (- 1)] server2_ip = Inl ''Routing entry not found''"
  by (simp_all add: sparse_router_def rt_lookup_def rt_matches_def ip_defs le32_inject)

lemma sparse_ready: "router_ready sparse_router"
  using example_arp_inv
  by (simp add: router_ready_def router_inv_def sparse_router_def example_ifaces_inv routes_ok_def)
     (simp add: example_ifaces_def)

lemma neighbour_frame_facts [simp]:
  "valid_ip_frame neighbour_frame" "u32_at 26 neighbour_frame = client_ip"
  "u32_at 30 neighbour_frame = neighbour_ip" "neighbour_frame ! 22 = 64"
  by (simp_all add: valid_ip_frame_def neighbour_frame_def client_frame_fields client_frame_cksum
      be16_def neighbour_ip_def ip_defs)

lemma shipped_fields [simp]:
  "m_routingTable shipped_router = shipped_routes" "m_ifaces shipped_router = example_ifaces"
  "findIfaceByIp example_ifaces neighbour_ip = None"
  "arp_mac (m_arp shipped_router) neighbour_ip = Some [4, 0, 0, 0, 0, 7]"
  "arp_mac (m_arp shipped_router) server1_ip = None"
  by (simp_all add: shipped_router_def findIfaceByIp_def example_ifaces_def arp_mac_def arp_lookup_def
      neighbour_ip_def ip_defs le32_inject)

lemma shipped_route [simp]: "rt_lookup shipped_routes neighbour_ip = Inr (server1_route (le32 255 255 255 0))"
proof -
  have "rt_matches neighbour_ip default_route" by (simp add: rt_matches_def)
  moreover have "rt_matches neighbour_ip (server1_route (le32 255 255 255 0))"
    by (simp add: rt_matches_def neighbour_ip_def ip_defs le32_def)
  moreover have "\<not> rt_matches neighbour_ip (server2_route (le32 255 255 0 0))"
    by (simp add: rt_matches_def neighbour_ip_def ip_defs le32_def)
  ultimately show ?thesis
    by (simp add: rt_lookup_def shipped_routes_def example_routes_def)
qed

lemma shipped_ready: "router_ready shipped_router"
  unfolding shipped_router_def shipped_routes_def
  by (rule example_ready_with) (simp add: arp_inv_def)

text \<open>The frame to \<^verbatim>\<open>server2\<close>, sent to the broadcast address.\<close>

definition broadcast_frame :: buffer where
  "broadcast_frame = [0xff, 0xff, 0xff, 0xff, 0xff, 0xff] @ drop 6 server2_frame"

lemma broadcast_facts [simp]:
  "valid_ip_frame broadcast_frame" "u32_at 26 broadcast_frame = client_ip" "u32_at 30 broadcast_frame = server2_ip"
  "broadcast_frame ! 22 = 64" "findIfaceByMac example_ifaces (chunk 0 6 broadcast_frame) = None"
proof -
  have "drop 14 broadcast_frame = drop 14 server2_frame" by (simp add: broadcast_frame_def)
  moreover have "ip_cksum_ok server2_frame" by simp
  ultimately have "ip_cksum_ok broadcast_frame" by (simp only: ip_cksum_ok_def)
  then show "valid_ip_frame broadcast_frame"
    by (simp add: valid_ip_frame_def)
       (simp add: broadcast_frame_def server2_frame_def client_frame_def chunk_def)
  show "u32_at 26 broadcast_frame = client_ip" "u32_at 30 broadcast_frame = server2_ip" "broadcast_frame ! 22 = 64"
    "findIfaceByMac example_ifaces (chunk 0 6 broadcast_frame) = None"
    by (simp_all add: broadcast_frame_def server2_frame_def client_frame_def u32_at_def ip_defs chunk_def
        findIfaceByMac_def example_ifaces_def)
qed

text \<open>Six ticks, two seconds apart.\<close>

definition example_ticks :: "clock list" where
  "example_ticks = [\<lambda>_. seconds 2, \<lambda>_. seconds 4, \<lambda>_. seconds 6, \<lambda>_. seconds 8, \<lambda>_. seconds 10, \<lambda>_. seconds 12]"

lemma spaced_const: "t + seconds 1 < u \<Longrightarrow> spaced u cs \<Longrightarrow> spaced t ((\<lambda>_. u) # cs)"
  by auto

lemma example_ticks_facts [simp]: "spaced 0 example_ticks" "length example_ticks = 6"
proof -
  show "spaced 0 example_ticks"
    unfolding example_ticks_def by (intro spaced_const) simp_all
qed (simp add: example_ticks_def)

end
