(* ===== verification/RouterDelivery.thy ===== *)
theory RouterDelivery
  imports Examples
begin

text \<open>
  The handlers and the timer together: packets for a host whose hardware address is not known wait
  in the cache while the timer asks for it, and leave when the answer comes. The lemmas follow the
  one request in the queue through frames and ticks in any order, and through the reply.
\<close>

section \<open>An ARP reply\<close>

lemma reply_releases:
  assumes "router_ready s" and "findIfaceByName (m_ifaces s) inIface = Some inI"
    and "42 \<le> length p" and "chunk 12 2 p = [0x08, 0x06]" and "chunk 20 2 p = [0, 2]"
    and "arp_mac (m_arp s) (u32_at 28 p) = None"
    and "rt_lookup (m_routingTable s) (u32_at 28 p) = Inr e"
  obtains s' where "handlePacket clk p inIface s = Done () s'"
    and "sent s' = sent s @ map (\<lambda>q. (chunk 22 6 p @ chunk 32 6 p @ [0x08, 0x00] @ drop 14 (pp_packet q), rt_ifName e))
      (pending (m_arp s) (u32_at 28 p))"
    and "pending (m_arp s') = (pending (m_arp s))(u32_at 28 p := [])"
    and "arp_mac (m_arp s') = (arp_mac (m_arp s))(u32_at 28 p \<mapsto> chunk 6 6 p)"
proof -
  let ?h = "arp_hdr_of_bytes (chunk 14 28 p)" and ?t = "learnt (clk 1) p 28 (s\<lparr>temp_iface := inIface\<rparr>)"
  have t: "router_ready ?t" using assms(1,3) by (simp add: router_ready_learnt)
  obtain i where i: "findIfaceByName (m_ifaces s) (rt_ifName e) = Some i" "if_name i = rt_ifName e"
    using routes_ok_route [OF _ assms(7)] assms(1) by (auto simp: router_ready_def)
  have h: "arp_wf ?h" "pending_bytes ?h q = chunk 22 6 p @ chunk 32 6 p @ [0x08, 0x00] @ drop 14 q" for q
    using assms(3) by simp (use assms(3) in \<open>simp add: pending_bytes_def arp_hdr_of_bytes_def chunk_chunk\<close>)
  obtain s' where "sendPendingPackets ?h (u32_at 28 p) ?t = Done () s'"
    and "sent s' = sent ?t @ map (\<lambda>q. (pending_bytes ?h (pp_packet q), if_name i)) (pending (m_arp ?t) (u32_at 28 p))"
    and "pending (m_arp s') = (pending (m_arp ?t))(u32_at 28 p := [])"
    and "m_cacheEntries (m_arp s') = m_cacheEntries (m_arp ?t)"
    by (rule sendPendingPackets_Done [OF h(1), of ?t "u32_at 28 p" e i]) (use t assms(7) i in \<open>auto simp: router_ready_def\<close>)
  moreover from this(4) have "arp_mac (m_arp s') = arp_mac (m_arp ?t)"
    by (simp add: arp_mac_def arp_lookup_def fun_eq_iff)
  moreover have "arp_mac (m_arp ?t) = (arp_mac (m_arp s))(u32_at 28 p \<mapsto> chunk 6 6 p)"
    using assms(6) by (simp add: arp.learn_def arp.lookup_insert_new)
  ultimately show ?thesis
    using that handlePacket_arp [OF assms(1-4), of clk] assms(5,6) i by (simp add: h)
qed

section \<open>Waiting\<close>

text \<open>Events that all leave the router running.\<close>

fun router_does :: "router_event list \<Rightarrow> SimpleRouter \<Rightarrow> SimpleRouter \<Rightarrow> bool" where
  "router_does [] s t \<longleftrightarrow> t = s"
| "router_does (ev # evs) s t \<longleftrightarrow> (\<exists>u. router_step ev (Running s) (Running u) \<and> router_does evs u t)"

lemma router_does_append: "router_does (as @ bs) s t \<longleftrightarrow> (\<exists>u. router_does as s u \<and> router_does bs u t)"
  by (induction as s t rule: router_does.induct) auto

text \<open>Packets \<open>qs\<close> wait for \<open>ip\<close>, which has been asked for \<open>n\<close> times, the last time not after \<open>T\<close>.\<close>

definition waiting_for :: "SimpleRouter \<Rightarrow> u32 \<Rightarrow> nat \<Rightarrow> time_point \<Rightarrow> buffer list \<Rightarrow> SimpleRouter \<Rightarrow> bool" where
  "waiting_for s ip n T qs t \<longleftrightarrow>
     router_ready t \<and> m_routingTable t = m_routingTable s \<and> m_ifaces t = m_ifaces s \<and> arp_mac (m_arp t) ip = None \<and>
     sent t = sent s @ concat (replicate n (request_frame (m_routingTable s) (m_ifaces s) ip)) \<and>
     (\<exists>r. m_arpRequests (m_arp t) = [r] \<and> ar_ip r = ip \<and> nTimesSent r = of_nat n \<and> timeSent r \<le> T \<and>
       map pp_packet (packets r) = qs)"

text \<open>A frame in transit to \<open>ip\<close>, sent to the router over an interface it has.\<close>

definition frame_for :: "Interface list \<Rightarrow> u32 \<Rightarrow> buffer \<Rightarrow> string \<Rightarrow> bool" where
  "frame_for ifs ip p inIface \<longleftrightarrow>
     valid_ip_frame p \<and> u32_at 30 p = ip \<and> u32_at 26 p \<noteq> ip \<and> p ! 22 \<noteq> 1 \<and>
     findIfaceByIp ifs ip = None \<and> findIfaceByName ifs inIface \<noteq> None \<and> findIfaceByMac ifs (chunk 0 6 p) \<noteq> None"

lemma arp_mac_requests:
  "arp_mac (c\<lparr>m_arpRequests := x\<rparr>) = arp_mac c" "arp_mac (c\<lparr>m_arpRequests := x, next_ptr := n\<rparr>) = arp_mac c"
  by (simp_all add: arp_mac_def arp_lookup_def fun_eq_iff)

lemma frame_waits:
  assumes "router_ready t" and "frame_for (m_ifaces t) ip p inIface" and "arp_mac (m_arp t) ip = None"
    and "m_arpRequests (m_arp t) = [] \<or> (\<exists>r. m_arpRequests (m_arp t) = [r] \<and> ar_ip r = ip)"
  obtains u r where "handlePacket clk p inIface t = Done () u" and "router_ready u"
    and "m_routingTable u = m_routingTable t" and "m_ifaces u = m_ifaces t" and "arp_mac (m_arp u) ip = None"
    and "sent u = sent t" and "m_arpRequests (m_arp u) = [r]" and "ar_ip r = ip"
    and "m_arpRequests (m_arp t) = [] \<Longrightarrow> nTimesSent r = 0 \<and> timeSent r = 0 \<and> map pp_packet (packets r) = [p]"
    and "\<And>r'. m_arpRequests (m_arp t) = [r'] \<Longrightarrow> nTimesSent r = nTimesSent r' \<and> timeSent r = timeSent r' \<and>
      map pp_packet (packets r) = map pp_packet (packets r') @ [p]"
proof -
  have f: "valid_ip_frame p" "u32_at 30 p = ip" "u32_at 26 p \<noteq> ip" "p ! 22 \<noteq> 1" "findIfaceByIp (m_ifaces t) ip = None"
    using assms(2) by (simp_all add: frame_for_def)
  obtain i j where ij: "findIfaceByName (m_ifaces t) inIface = Some i" "findIfaceByMac (m_ifaces t) (chunk 0 6 p) = Some j"
    using assms(2) by (auto simp: frame_for_def)
  let ?w = "received clk p inIface t"
  let ?u = "?w\<lparr>m_arp := snd (queueRequest ip p (if_name j) (m_arp ?w))\<rparr>"
  have h: "handlePacket clk p inIface t = Done () ?u"
    using handlePacket_queue [OF assms(1) ij(1) f(1) _ f(4) _ _ ij(2), of clk] f assms(3) by simp
  have w: "router_ready ?w" using router_ready_received [OF assms(1)] f(1) by (simp add: valid_ip_frame_def)
  have inv: "arp_inv (m_arp ?w)" using w by (simp add: router_ready_def router_inv_cache del: received_fields)
  have reqs: "m_arpRequests (m_arp ?w) = m_arpRequests (m_arp t)" by (simp add: arp.learn_def insert_requests)
  have none: "arp_mac (m_arp ?w) ip = None" using assms(3) f(3) by (simp add: arp.learn_def arp.lookup_insert_new)
  have u: "router_ready ?u"
    using handlePacket_inv [of t clk p inIface] assms(1) routes_ok_same [of t ?u]
    by (simp add: h router_ready_def del: received_fields)
  let ?q = "\<lparr>pp_packet = p, pp_iface = if_name j\<rparr>"
  consider "m_arpRequests (m_arp t) = []" | r where "m_arpRequests (m_arp t) = [r]" "ar_ip r = ip" using assms(4) by blast
  then show ?thesis
  proof cases
    case 1
    then have "find_request (m_arp ?w) ip = None" using reqs by (simp add: find_request_def del: received_fields)
    from queueRequest_new [OF inv this, of p "if_name j"] 1 reqs
    show ?thesis
      by (intro that [OF h u, of "(new_request (next_ptr (m_arp ?w)) ip)\<lparr>packets := [?q]\<rparr>"])
        (simp_all add: new_request_def arp_mac_requests none del: received_fields(5))
  next
    case (2 r)
    then have "find_request (m_arp ?w) ip = Some r" using reqs by (simp add: find_request_def del: received_fields)
    from queueRequest_old [OF this, of p "if_name j"] 2 reqs
    show ?thesis
      by (intro that [OF h u, of "r\<lparr>packets := packets r @ [?q]\<rparr>"])
        (simp_all add: update_request_def arp_mac_requests none del: received_fields(5))
  qed
qed

lemma waiting_frame:
  assumes "waiting_for s ip n T qs t" and "frame_for (m_ifaces s) ip p inIface"
  shows "\<exists>u. router_step (HandlePacket clk p inIface) (Running t) (Running u) \<and> waiting_for s ip n T (qs @ [p]) u"
proof -
  obtain r where r: "m_arpRequests (m_arp t) = [r]" "ar_ip r = ip" "nTimesSent r = of_nat n" "timeSent r \<le> T"
      "map pp_packet (packets r) = qs"
    using assms(1) by (auto simp: waiting_for_def)
  have t: "router_ready t" "frame_for (m_ifaces t) ip p inIface" "arp_mac (m_arp t) ip = None"
      "m_arpRequests (m_arp t) = [] \<or> (\<exists>r. m_arpRequests (m_arp t) = [r] \<and> ar_ip r = ip)"
    using assms r by (simp_all add: waiting_for_def)
  obtain u r' where u: "handlePacket clk p inIface t = Done () u" "router_ready u" "m_routingTable u = m_routingTable t"
      "m_ifaces u = m_ifaces t" "arp_mac (m_arp u) ip = None" "sent u = sent t" "m_arpRequests (m_arp u) = [r']" "ar_ip r' = ip"
      "nTimesSent r' = nTimesSent r" "timeSent r' = timeSent r" "map pp_packet (packets r') = map pp_packet (packets r) @ [p]"
    by (rule frame_waits [OF t, of clk]) (use r(1) in blast)
  have "waiting_for s ip n T (qs @ [p]) u" using assms(1) r u by (simp add: waiting_for_def)
  with router_step.packet [OF u(1)] show ?thesis by blast
qed

text \<open>A tick more than a second after the last asks again.\<close>

lemma waiting_tick:
  assumes "waiting_for s ip n T qs t" and "rt_lookup (m_routingTable s) ip = Inr e" and "n < 5"
    and "\<forall>i. T + seconds 1 < clk i \<and> clk i \<le> T'"
  shows "\<exists>u. router_step (Tick clk) (Running t) (Running u) \<and> waiting_for s ip (Suc n) T' qs u"
proof -
  obtain r where r: "m_arpRequests (m_arp t) = [r]" "ar_ip r = ip" "nTimesSent r = of_nat n" "timeSent r \<le> T"
      "map pp_packet (packets r) = qs"
    using assms(1) by (auto simp: waiting_for_def)
  have t: "router_inv t" "routes_ok t" "m_routingTable t = m_routingTable s" "m_ifaces t = m_ifaces s"
      "arp_mac (m_arp t) ip = None"
      "sent t = sent s @ concat (replicate n (request_frame (m_routingTable s) (m_ifaces s) ip))"
    using assms(1) by (simp_all add: waiting_for_def router_ready_def)
  have due: "due clk 1 r" using assms(4) r(4) by (smt (verit))
  have "unat (of_nat n :: u32) = n" using assms(3) by (simp add: unat_of_nat)
  then have more: "\<not> MAX_SENT_TIME \<le> nTimesSent r" using assms(3) r(3) by (simp add: MAX_SENT_TIME_def word_le_nat_alt)
  let ?u = "t\<lparr>m_arp := (m_arp t)\<lparr>m_cacheEntries := fresh_entries (clk 0) (m_cacheEntries (m_arp t)),
      m_arpRequests := [r\<lparr>timeSent := clk 2, nTimesSent := nTimesSent r + 1\<rparr>]\<rparr>,
    sent := sent t @ request_frame (m_routingTable s) (m_ifaces s) ip\<rparr>"
  have tick: "ticker_body clk t = Done () ?u"
    using ticker_body_refines [OF t(1,2), of clk] assms(2) due more r(1,2) t(3,4) by (simp add: routable_def numeral_2_eq_2)
  have "router_ready ?u"
    using ticker_body_inv [OF t(1), of clk] t(2) routes_ok_same [of t ?u] by (simp add: tick router_ready_def)
  moreover have "arp_mac (m_arp ?u) ip = None"
    using t(5) by (auto simp: arp_mac_None arp_lookup_None fresh_entries_def)
  moreover have "clk 2 \<le> T'" using assms(4) by blast
  ultimately have "waiting_for s ip (Suc n) T' qs ?u"
    using r t by (simp add: waiting_for_def replicate_append_same [symmetric])
  with router_step.tick [OF tick] show ?thesis by blast
qed

text \<open>Frames for the address and ticks, in any order.\<close>

definition frames_in :: "router_event list \<Rightarrow> buffer list" where
  "frames_in evs = concat (map (\<lambda>ev. case ev of HandlePacket clk p i \<Rightarrow> [p] | _ \<Rightarrow> []) evs)"

definition ticks_in :: "router_event list \<Rightarrow> clock list" where
  "ticks_in evs = concat (map (\<lambda>ev. case ev of Tick clk \<Rightarrow> [clk] | _ \<Rightarrow> []) evs)"

fun resolving :: "Interface list \<Rightarrow> u32 \<Rightarrow> router_event \<Rightarrow> bool" where
  "resolving ifs ip (HandlePacket clk p inIface) \<longleftrightarrow> frame_for ifs ip p inIface"
| "resolving ifs ip (Tick clk) \<longleftrightarrow> True"
| "resolving ifs ip _ \<longleftrightarrow> False"

lemma waiting_run:
  assumes "waiting_for s ip n T qs t" and "\<forall>ev \<in> set evs. resolving (m_ifaces s) ip ev"
    and "rt_lookup (m_routingTable s) ip = Inr e" and "spaced T (ticks_in evs)" and "n + length (ticks_in evs) \<le> 5"
  shows "\<exists>u T'. router_does evs t u \<and> waiting_for s ip (n + length (ticks_in evs)) T' (qs @ frames_in evs) u"
  using assms
proof (induction evs arbitrary: n T qs t)
  case (Cons ev evs)
  show ?case
  proof (cases ev)
    case (HandlePacket clk p i)
    then obtain v where v: "router_step ev (Running t) (Running v)" "waiting_for s ip n T (qs @ [p]) v"
      using waiting_frame [OF Cons.prems(1), of p i clk] Cons.prems(2) by auto
    then show ?thesis
      using Cons.IH [OF v(2)] Cons.prems(2-5) HandlePacket by (auto simp: frames_in_def ticks_in_def)
  next
    case (Tick clk)
    then obtain T' where T': "\<forall>i. T + seconds 1 < clk i \<and> clk i \<le> T'" "spaced T' (ticks_in evs)"
      using Cons.prems(4) by (auto simp: ticks_in_def)
    then obtain v where v: "router_step ev (Running t) (Running v)" "waiting_for s ip (Suc n) T' qs v"
      using waiting_tick [OF Cons.prems(1,3) _ T'(1)] Cons.prems(5) Tick by (auto simp: ticks_in_def)
    then show ?thesis
      using Cons.IH [OF v(2)] Cons.prems(2-5) T'(2) Tick by (auto simp: frames_in_def ticks_in_def)
  qed (use Cons.prems(2) in simp_all)
qed (auto simp: frames_in_def ticks_in_def)

text \<open>From an empty queue to the answer.\<close>

lemma resolved:
  assumes "router_ready s" and "m_arpRequests (m_arp s) = []" and "arp_mac (m_arp s) ip = None"
    and "rt_lookup (m_routingTable s) ip = Inr e" and "frame_for (m_ifaces s) ip p inIface"
    and "\<forall>ev \<in> set evs. resolving (m_ifaces s) ip ev" and "spaced 0 (ticks_in evs)" and "length (ticks_in evs) \<le> 5"
    and "findIfaceByName (m_ifaces s) backIface = Some backI" and "42 \<le> length a"
    and "chunk 12 2 a = [0x08, 0x06]" and "chunk 20 2 a = [0, 2]" and "u32_at 28 a = ip"
  shows "\<exists>s'. router_does (HandlePacket clk p inIface # evs @ [HandlePacket clk' a backIface]) s s' \<and>
    sent s' = sent s @
      concat (replicate (length (ticks_in evs)) (request_frame (m_routingTable s) (m_ifaces s) ip)) @
      map (\<lambda>q. (chunk 22 6 a @ chunk 32 6 a @ [0x08, 0x00] @ drop 14 q, rt_ifName e)) (p # frames_in evs) \<and>
    pending (m_arp s') ip = [] \<and> arp_mac (m_arp s') ip = Some (chunk 6 6 a)"
proof -
  obtain u r where u: "handlePacket clk p inIface s = Done () u" "router_ready u" "m_routingTable u = m_routingTable s"
      "m_ifaces u = m_ifaces s" "arp_mac (m_arp u) ip = None" "sent u = sent s" "m_arpRequests (m_arp u) = [r]" "ar_ip r = ip"
      "nTimesSent r = 0 \<and> timeSent r = 0 \<and> map pp_packet (packets r) = [p]"
    by (rule frame_waits [OF assms(1,5,3), of clk]) (use assms(2) in auto)
  then have "waiting_for s ip 0 0 [p] u" by (simp add: waiting_for_def)
  from waiting_run [OF this assms(6,4,7)] assms(8) obtain v T where
    v: "router_does evs u v" "waiting_for s ip (length (ticks_in evs)) T ([p] @ frames_in evs) v" by auto
  then obtain q where q: "m_arpRequests (m_arp v) = [q]" "ar_ip q = ip" "map pp_packet (packets q) = p # frames_in evs"
    by (auto simp: waiting_for_def)
  have w: "router_ready v" "m_routingTable v = m_routingTable s" "m_ifaces v = m_ifaces s" "arp_mac (m_arp v) ip = None"
      "sent v = sent s @ concat (replicate (length (ticks_in evs)) (request_frame (m_routingTable s) (m_ifaces s) ip))"
    using v(2) by (simp_all add: waiting_for_def)
  have "pending (m_arp v) ip = packets q" using q(1,2) by (simp add: pending_def find_request_def)
  moreover obtain s' where s': "handlePacket clk' a backIface v = Done () s'"
      "sent s' = sent v @ map (\<lambda>q. (chunk 22 6 a @ chunk 32 6 a @ [0x08, 0x00] @ drop 14 (pp_packet q), rt_ifName e))
        (pending (m_arp v) (u32_at 28 a))"
      "pending (m_arp s') = (pending (m_arp v))(u32_at 28 a := [])"
      "arp_mac (m_arp s') = (arp_mac (m_arp v))(u32_at 28 a \<mapsto> chunk 6 6 a)"
    by (rule reply_releases [OF w(1) _ assms(10-12), of backIface backI e clk']) (use assms(4,9,13) w in simp_all)
  moreover have "map (\<lambda>q. (h @ drop 14 (pp_packet q), n)) (packets q) = map (\<lambda>x. (h @ drop 14 x, n)) (p # frames_in evs)" for h :: buffer and n :: string
    using arg_cong [OF q(3), of "map (\<lambda>x. (h @ drop 14 x, n))"] by (simp add: comp_def)
  from this [of "chunk 22 6 a @ chunk 32 6 a @ [0x08, 0x00]" "rt_ifName e"]
  have "map (\<lambda>q. (chunk 22 6 a @ chunk 32 6 a @ [0x08, 0x00] @ drop 14 (pp_packet q), rt_ifName e)) (packets q) =
      map (\<lambda>q. (chunk 22 6 a @ chunk 32 6 a @ [0x08, 0x00] @ drop 14 q, rt_ifName e)) (p # frames_in evs)" by simp
  ultimately have "sent s' = sent s @
      concat (replicate (length (ticks_in evs)) (request_frame (m_routingTable s) (m_ifaces s) ip)) @
      map (\<lambda>q. (chunk 22 6 a @ chunk 32 6 a @ [0x08, 0x00] @ drop 14 q, rt_ifName e)) (p # frames_in evs)"
    using w(5) assms(13) by simp
  moreover have "router_does (HandlePacket clk p inIface # evs @ [HandlePacket clk' a backIface]) s s'"
    using router_step.packet [OF u(1)] v(1) router_step.packet [OF s'(1)] by (auto simp: router_does_append)
  ultimately show ?thesis using s'(3,4) assms(13) by auto
qed

end
