(* ===== verification/ConfundoPacket.thy ===== *)
theory ConfundoPacket
  imports Protocol Texts
begin

text \<open>
  What \<^verbatim>\<open>server.cpp\<close> and \<^verbatim>\<open>client.cpp\<close> of \<^verbatim>\<open>CS118-Project2\<close> share: the structures \<^verbatim>\<open>header\<close> and
  \<^verbatim>\<open>packet\<close> (declared alike in both), the change of byte order after \<^verbatim>\<open>recvfrom\<close> and before
  \<^verbatim>\<open>sendto\<close>, and the lines they print. A datagram is the list of its bytes; \<open>recv_into\<close> is what
  \<^verbatim>\<open>recvfrom\<close> does to the 524 bytes of the receiver's structure, of which a short datagram leaves
  the rest as it was. The lemmas: a header survives the trip from \<open>set_header\<close> to \<open>ntoh_reorder\<close>,
  and a datagram cut after its payload gives that payload back.
\<close>

section \<open>Structures\<close>

record header =
  seq :: u32
  ack :: u32
  conn_id :: u16
  flags :: u16

record packet =
  pack_header :: header
  data :: buffer

text \<open>The values of the field \<open>flags\<close>.\<close>

abbreviation FIN :: u16 where "FIN \<equiv> 1"
abbreviation SYN :: u16 where "SYN \<equiv> 2"
abbreviation ACK :: u16 where "ACK \<equiv> 4"
abbreviation ACK_FIN :: u16 where "ACK_FIN \<equiv> 5"
abbreviation SYN_ACK :: u16 where "SYN_ACK \<equiv> 6"

abbreviation header_size :: nat where "header_size \<equiv> 12"
abbreviation data_size :: nat where "data_size \<equiv> 512"
abbreviation packet_size :: nat where "packet_size \<equiv> 524"

definition header_bytes :: "header \<Rightarrow> buffer" where
  "header_bytes h = u32_bytes (seq h) @ u32_bytes (ack h) @ u16_bytes (conn_id h) @ u16_bytes (flags h)"

definition packet_bytes :: "packet \<Rightarrow> buffer" where
  "packet_bytes p = header_bytes (pack_header p) @ data p"

definition packet_of_bytes :: "buffer \<Rightarrow> packet" where
  "packet_of_bytes b =
     \<lparr>pack_header = \<lparr>seq = u32_at 0 b, ack = u32_at 4 b, conn_id = u16_at 8 b, flags = u16_at 10 b\<rparr>,
      data = drop header_size b\<rparr>"

text \<open>\<^verbatim>\<open>char data[512]\<close>\<close>

definition packet_wf :: "packet \<Rightarrow> bool" where
  "packet_wf p \<longleftrightarrow> length (data p) = data_size"

text \<open>\<^verbatim>\<open>memset(&buf, 0, sizeof(buf))\<close>\<close>

definition zero_packet :: packet where
  "zero_packet = \<lparr>pack_header = \<lparr>seq = 0, ack = 0, conn_id = 0, flags = 0\<rparr>, data = replicate data_size 0\<rparr>"

section \<open>Byte order\<close>

definition set_header :: "packet \<Rightarrow> u32 \<Rightarrow> u32 \<Rightarrow> u16 \<Rightarrow> u16 \<Rightarrow> packet" where
  "set_header pack S A I F =
     pack\<lparr>pack_header := \<lparr>seq = htonl S, ack = htonl A, conn_id = htons I, flags = htons F\<rparr>\<rparr>"

definition ntoh_reorder :: "packet \<Rightarrow> packet" where
  "ntoh_reorder pack =
     (let h = pack_header pack in
      pack\<lparr>pack_header := \<lparr>seq = ntohl (seq h), ack = ntohl (ack h), conn_id = ntohs (conn_id h),
        flags = ntohs (flags h)\<rparr>\<rparr>)"

section \<open>Datagrams\<close>

definition recv_into :: "buffer \<Rightarrow> packet \<Rightarrow> packet" where
  "recv_into dgram old = packet_of_bytes (put 0 (take packet_size dgram) (packet_bytes old))"

definition recv_count :: "buffer \<Rightarrow> nat" where
  "recv_count dgram = min packet_size (length dgram)"

lemma length_header_bytes [simp]: "length (header_bytes h) = header_size"
  by (simp add: header_bytes_def)

lemma length_packet_bytes: "packet_wf p \<Longrightarrow> length (packet_bytes p) = packet_size"
  by (simp add: packet_bytes_def packet_wf_def)

lemma zero_packet_wf [simp]: "packet_wf zero_packet"
  by (simp add: packet_wf_def zero_packet_def)

lemma set_header_simps [simp]:
  "seq (pack_header (set_header p S A I F)) = htonl S" "ack (pack_header (set_header p S A I F)) = htonl A"
  "conn_id (pack_header (set_header p S A I F)) = htons I" "flags (pack_header (set_header p S A I F)) = htons F"
  "data (set_header p S A I F) = data p"
  by (simp_all add: set_header_def)

lemma ntoh_reorder_simps [simp]:
  "seq (pack_header (ntoh_reorder p)) = ntohl (seq (pack_header p))"
  "ack (pack_header (ntoh_reorder p)) = ntohl (ack (pack_header p))"
  "conn_id (pack_header (ntoh_reorder p)) = ntohs (conn_id (pack_header p))"
  "flags (pack_header (ntoh_reorder p)) = ntohs (flags (pack_header p))"
  "data (ntoh_reorder p) = data p"
  by (simp_all add: ntoh_reorder_def Let_def)

lemma packet_wf_update [simp]:
  "packet_wf (set_header p S A I F) = packet_wf p" "packet_wf (ntoh_reorder p) = packet_wf p"
  by (simp_all add: packet_wf_def)

text \<open>The header in front of any bytes reads back as it was written.\<close>

lemma packet_of_bytes_header:
  "packet_of_bytes (header_bytes h @ b) = \<lparr>pack_header = h, data = b\<rparr>"
  by (cases h) (simp add: packet_of_bytes_def header_bytes_def u32_at_def u16_at_def u32_bytes_def
      u16_bytes_def le32_of_u32 le16_of_u16)

lemma packet_of_bytes_packet: "packet_of_bytes (packet_bytes p) = p"
  by (cases p) (simp add: packet_bytes_def packet_of_bytes_header)

lemma packet_bytes_prefix:
  "header_size \<le> n \<Longrightarrow> take n (packet_bytes p) = header_bytes (pack_header p) @ take (n - header_size) (data p)"
  by (simp add: packet_bytes_def)

text \<open>Receiving the first \<open>12 + n\<close> bytes of a packet.\<close>

lemma recv_into_packet:
  assumes "packet_wf p" and "packet_wf old" and "n \<le> data_size"
  shows "recv_into (take (header_size + n) (packet_bytes p)) old =
    \<lparr>pack_header = pack_header p, data = take n (data p) @ drop n (data old)\<rparr>"
proof -
  have "put 0 (header_bytes (pack_header p) @ take n (data p)) (packet_bytes old) =
      header_bytes (pack_header p) @ take n (data p) @ drop n (data old)"
    using assms by (simp add: put_def packet_bytes_def packet_wf_def)
  then show ?thesis
    using assms by (simp add: recv_into_def packet_bytes_prefix packet_wf_def packet_of_bytes_header)
qed

lemma recv_into_whole:
  assumes "packet_wf p" and "packet_wf old"
  shows "recv_into (packet_bytes p) old = p"
  using recv_into_packet [OF assms, of data_size] assms
  by (simp add: packet_wf_def length_packet_bytes)

lemma packet_of_bytes_wf: "length b = packet_size \<Longrightarrow> packet_wf (packet_of_bytes b)"
  by (simp add: packet_wf_def packet_of_bytes_def)

lemma recv_into_wf: "packet_wf old \<Longrightarrow> packet_wf (recv_into dgram old)"
  unfolding recv_into_def
  by (rule packet_of_bytes_wf) (simp add: put_def length_packet_bytes)

lemma recv_count_packet:
  "packet_wf p \<Longrightarrow> n \<le> data_size \<Longrightarrow> recv_count (take (header_size + n) (packet_bytes p)) = header_size + n"
  by (simp add: recv_count_def length_packet_bytes)

lemma recv_count_whole: "packet_wf p \<Longrightarrow> recv_count (packet_bytes p) = packet_size"
  by (simp add: recv_count_def length_packet_bytes)

lemma data_recv_into:
  assumes "header_size \<le> length dgram"
  shows "take (recv_count dgram - header_size) (data (recv_into dgram old)) = take data_size (drop header_size dgram)"
proof -
  let ?d = "take packet_size dgram"
  have "header_size \<le> length ?d" using assms by simp
  then have "data (recv_into dgram old) = drop header_size ?d @ drop (length ?d) (packet_bytes old)"
    by (simp add: recv_into_def packet_of_bytes_def put_def)
  moreover have "length (drop header_size ?d) = recv_count dgram - header_size"
    by (simp add: recv_count_def)
  ultimately have "take (recv_count dgram - header_size) (data (recv_into dgram old)) = drop header_size ?d"
    by simp
  then show ?thesis by (simp add: drop_take)
qed

section \<open>What the programs print\<close>

text \<open>\<^verbatim>\<open>print_packet\<close> of the server: the same line for its three messages, none for others.\<close>

definition flag_text :: "u16 \<Rightarrow> string" where
  "flag_text f =
     (if f = 0 then '' '' else if f = 1 then ''FIN'' else if f = 2 then ''SYN'' else if f = 4 then ''ACK''
      else if f = 6 then ''SYN ACK'' else if f = 5 then ''FIN ACK'' else '''')"

definition print_packet :: "string \<Rightarrow> packet \<Rightarrow> string" where
  "print_packet message buf =
     (let h = pack_header buf in
      if message \<in> {''RECV'', ''DROP'', ''SEND''} then
        message @ '' '' @ show_nat (unat (seq h)) @ '' '' @ show_nat (unat (ack h)) @ '' '' @
        show_nat (unat (conn_id h)) @ '' '' @ ''512'' @ '' '' @ ''10000'' @ '' '' @ flag_text (flags h) @ newline
      else '''')"

text \<open>\<^verbatim>\<open>standard_output\<close> of the client: what is sent is given in network order.\<close>

definition standard_output :: "char \<Rightarrow> u32 \<Rightarrow> u32 \<Rightarrow> u16 \<Rightarrow> u16 \<Rightarrow> u32 \<Rightarrow> u32 \<Rightarrow> string" where
  "standard_output format S A ID F window thresh =
     (let (S, A, ID, F) =
        (if format = CHR ''S'' \<or> format = CHR ''U'' then (ntohl S, ntohl A, ntohs ID, ntohs F)
         else (S, A, ID, F));
          FLAG = (if F = 6 then ''ACK SYN'' else if F = 2 then ''SYN'' else if F = 1 then ''FIN''
            else if F = 4 then ''ACK'' else if F = 5 then ''ACK FIN'' else '''');
          head = show_nat (unat S) @ '' '' @ show_nat (unat A) @ '' '' @ show_nat (unat ID) @ '' '';
          sizes = show_nat (unat window) @ '' '' @ show_nat (unat thresh) @ '' ''
      in if format = CHR ''R'' then ''RECV '' @ head @ sizes @ FLAG @ newline
         else if format = CHR ''D'' then ''DROP '' @ head @ FLAG @ newline
         else if format = CHR ''S'' then ''SEND '' @ head @ sizes @ FLAG @ newline
         else if format = CHR ''U'' then ''SEND '' @ head @ sizes @ FLAG @ '' DUP'' @ newline
         else '''')"

end
