(* ===== verification/FileStreams.thy ===== *)
theory FileStreams
  imports Prelude
begin

text \<open>
  The C++ file streams as the programs use them. The file system is a map from paths to contents.
  An \<^verbatim>\<open>std::ofstream\<close> is the path it has open and whether \<^verbatim>\<open>failbit\<close> or \<^verbatim>\<open>badbit\<close> is set; the
  programs flush after each write, so a write reaches the file at once, at the end of what the
  stream has written since it truncated the file; there is room for it on the device. An \<^verbatim>\<open>std::ifstream\<close> is a file read once: its
  contents, the position, and the bits \<^verbatim>\<open>eofbit\<close> and \<^verbatim>\<open>failbit\<close>.
\<close>

type_synonym files = "string \<rightharpoonup> buffer"

section \<open>Output\<close>

record ofstream =
  of_open :: "string option"
  of_fail :: bool

definition ofstream_init :: ofstream where
  "ofstream_init = \<lparr>of_open = None, of_fail = False\<rparr>"

text \<open>
  \<^verbatim>\<open>open(path)\<close>: an error on a stream that is open already or when the operating system refuses
  (\<open>can_open\<close>); otherwise the file is created or emptied and the error bits are cleared.
\<close>

definition ofstream_open :: "(string \<Rightarrow> bool) \<Rightarrow> string \<Rightarrow> ofstream \<times> files \<Rightarrow> ofstream \<times> files" where
  "ofstream_open can_open path = (\<lambda>(f, fs).
     if of_open f \<noteq> None \<or> \<not> can_open path then (f\<lparr>of_fail := True\<rparr>, fs)
     else (\<lparr>of_open = Some path, of_fail = False\<rparr>, fs(path \<mapsto> [])))"

text \<open>
  \<^verbatim>\<open>write(s, n)\<close>: nothing on a stream in error, an error on a closed one, and an error when
  \<open>n\<close> is negative (no characters are put, which is not \<open>n\<close> of them).
\<close>

definition ofstream_write :: "buffer \<Rightarrow> int \<Rightarrow> ofstream \<times> files \<Rightarrow> ofstream \<times> files" where
  "ofstream_write s n = (\<lambda>(f, fs).
     if of_fail f then (f, fs)
     else case of_open f of
       None \<Rightarrow> (f\<lparr>of_fail := True\<rparr>, fs)
     | Some path \<Rightarrow>
         if n < 0 then (f\<lparr>of_fail := True\<rparr>, fs)
         else (f, fs(path := map_option (\<lambda>b. b @ take (nat n) s) (fs path))))"

definition ofstream_close :: "ofstream \<Rightarrow> ofstream" where
  "ofstream_close f = (case of_open f of None \<Rightarrow> f\<lparr>of_fail := True\<rparr> | Some _ \<Rightarrow> f\<lparr>of_open := None\<rparr>)"

text \<open>A stream only ever touches the file it has open or opens.\<close>

lemma ofstream_open_fresh:
  "of_open f = None \<Longrightarrow> can_open path \<Longrightarrow>
   ofstream_open can_open path (f, fs) = (\<lparr>of_open = Some path, of_fail = False\<rparr>, fs(path \<mapsto> []))"
  by (simp add: ofstream_open_def)

lemma ofstream_open_other: "q \<noteq> path \<Longrightarrow> snd (ofstream_open can_open path (f, fs)) q = fs q"
  by (simp add: ofstream_open_def)

lemma ofstream_open_path:
  "of_open f = None \<Longrightarrow> of_open (fst (ofstream_open can_open path (f, fs))) \<in> {None, Some path}"
  by (simp add: ofstream_open_def)

lemma ofstream_write_open [simp]: "of_open (fst (ofstream_write s n (f, fs))) = of_open f"
  by (simp add: ofstream_write_def split: option.split)

lemma ofstream_write_other: "of_open f \<noteq> Some q \<Longrightarrow> snd (ofstream_write s n (f, fs)) q = fs q"
  by (auto simp: ofstream_write_def split: option.split)

lemma ofstream_write_good:
  "of_open f = Some path \<Longrightarrow> \<not> of_fail f \<Longrightarrow> fs path = Some b \<Longrightarrow>
   ofstream_write s (int n) (f, fs) = (f, fs(path \<mapsto> b @ take n s))"
  by (simp add: ofstream_write_def)

lemma ofstream_close_open [simp]: "of_open (ofstream_close f) = None"
  by (simp add: ofstream_close_def split: option.split)

section \<open>Input\<close>

record ifstream =
  contents :: buffer
  pos :: nat
  eofbit :: bool
  failbit :: bool

definition ifstream_open :: "buffer \<Rightarrow> ifstream" where
  "ifstream_open b = \<lparr>contents = b, pos = 0, eofbit = False, failbit = False\<rparr>"

text \<open>\<^verbatim>\<open>read(s, n)\<close>: the bytes extracted (\<^verbatim>\<open>gcount\<close> is their number) and the stream after.\<close>

definition ifstream_read :: "nat \<Rightarrow> ifstream \<Rightarrow> buffer \<times> ifstream" where
  "ifstream_read n f =
     (if eofbit f \<or> failbit f then ([], f\<lparr>failbit := True\<rparr>)
      else let b = chunk (pos f) n (contents f);
               f = f\<lparr>pos := pos f + length b\<rparr>
           in (b, if length b < n then f\<lparr>eofbit := True, failbit := True\<rparr> else f))"

text \<open>\<^verbatim>\<open>tellg()\<close> is -1 on a stream in error.\<close>

definition ifstream_tellg :: "ifstream \<Rightarrow> int" where
  "ifstream_tellg f = (if failbit f then - 1 else int (pos f))"

definition ifstream_clear :: "ifstream \<Rightarrow> ifstream" where
  "ifstream_clear f = f\<lparr>eofbit := False, failbit := False\<rparr>"

definition ifstream_seekg :: "nat \<Rightarrow> ifstream \<Rightarrow> ifstream" where
  "ifstream_seekg p f =
     (let f = f\<lparr>eofbit := False\<rparr> in if failbit f then f else f\<lparr>pos := p\<rparr>)"

lemma ifstream_rewind: "ifstream_seekg p (ifstream_clear f) = f\<lparr>pos := p, eofbit := False, failbit := False\<rparr>"
  by (simp add: ifstream_seekg_def ifstream_clear_def Let_def)

lemma ifstream_read_good:
  assumes "\<not> eofbit f" and "\<not> failbit f"
  obtains f' where "ifstream_read n f = (chunk (pos f) n (contents f), f')" and "contents f' = contents f"
    and "pos f' = pos f + length (chunk (pos f) n (contents f))" and "failbit f' = eofbit f'"
    and "eofbit f' = (length (chunk (pos f) n (contents f)) < n)"
proof -
  define b where "b = chunk (pos f) n (contents f)"
  have "\<exists>f'. ifstream_read n f = (b, f') \<and> contents f' = contents f \<and> pos f' = pos f + length b \<and>
    failbit f' = eofbit f' \<and> eofbit f' = (length b < n)"
    using assms unfolding ifstream_read_def b_def [symmetric] by (cases "length b < n") (simp_all add: Let_def)
  then show ?thesis using that unfolding b_def by blast
qed

end
