(* ===== verification/ConfundoReceiver.thy ===== *)
theory ConfundoReceiver
  imports Prelude "HOL-Library.Sublist"
begin

text \<open>
  The contract of a receiver that accepts data only in order (go-back-N), over the sequence
  numbers of Confundo: byte \<open>m\<close> of a file has the number \<open>seq_at m\<close>, which starts at 12346, the
  number after the one of the \<^verbatim>\<open>SYN\<close>, and wraps after 102400. The locale says what such a
  receiver does with one event. From that alone follows that, whatever is lost, repeated or
  reordered, what it stores is a prefix of the file whose segments it is sent, as long as the
  file has at most 102400 bytes, so that a number means one place of it.
\<close>

section \<open>Sequence numbers\<close>

definition seq_at :: "nat \<Rightarrow> 32 word" where
  "seq_at m = of_nat ((12346 + m) mod 102401)"

lemma unat_seq_at [simp]: "unat (seq_at m) = (12346 + m) mod 102401"
proof -
  have "(12346 + m) mod 102401 < 2 ^ 32"
    by (rule less_trans [of _ 102401]) simp_all
  then show ?thesis by (simp add: seq_at_def unat_of_nat)
qed

lemma seq_at_mod:
  "m \<le> 102400 \<Longrightarrow> (12346 + m) mod 102401 = (if m \<le> 90054 then 12346 + m else m - (90055 :: nat))"
  using mod_if [of "12346 + m" 102401] by (simp add: not_le)

lemma seq_at_inject:
  assumes "m \<le> 102400" and "n \<le> 102400"
  shows "seq_at m = seq_at n \<longleftrightarrow> m = n"
proof
  assume "seq_at m = seq_at n"
  then have "(12346 + m) mod 102401 = (12346 + n) mod 102401" by (metis unat_seq_at)
  then show "m = n" unfolding seq_at_mod [OF assms(1)] seq_at_mod [OF assms(2)]
    using assms by (simp split: if_splits)
qed simp

text \<open>The number advances by the length of what was accepted.\<close>

lemma seq_at_advance:
  assumes "n \<le> 1000"
  shows "(seq_at m + of_nat n) mod 102401 = seq_at (m + n)"
proof (rule word_unat_eq_iff [THEN iffD2])
  have "(12346 + m) mod 102401 < 102401" by simp
  then have "(12346 + m) mod 102401 + n < 200000" using assms by linarith
  then have "(12346 + m) mod 102401 + n < 2 ^ 32" by simp
  then have "unat (seq_at m + of_nat n) = (12346 + m) mod 102401 + n"
    using assms by (simp add: unat_word_ariths unat_of_nat)
  then show "unat ((seq_at m + of_nat n) mod 102401) = unat (seq_at (m + n))"
    by (simp add: unat_mod_distrib mod_add_left_eq add.assoc)
qed

text \<open>Without a wrap the number is the offset.\<close>

lemma seq_at_plain: "m \<le> 90054 \<Longrightarrow> unat (seq_at m) = 12346 + m"
  by simp

lemma seq_at_nonzero: "m \<le> 90054 \<Longrightarrow> seq_at m \<noteq> 0"
  by (metis seq_at_plain add_is_0 unat_0 zero_neq_numeral)

section \<open>Segments\<close>

definition segment_of :: "'a list \<Rightarrow> 32 word \<Rightarrow> 'a list \<Rightarrow> bool" where
  "segment_of file q b \<longleftrightarrow> (\<exists>off \<le> length file. q = seq_at off \<and> prefix b (drop off file) \<and> length b \<le> 512)"

text \<open>A segment that starts at the end of a prefix makes a longer prefix.\<close>

lemma segment_extends:
  assumes "segment_of file (seq_at m) b" and "m \<le> length file" and "length file \<le> 102400"
  shows "take m file @ b = take (m + length b) file" and "m + length b \<le> length file" and "length b \<le> 512"
proof -
  obtain off where off: "off \<le> length file" "seq_at m = seq_at off" "prefix b (drop off file)" "length b \<le> 512"
    using assms(1) by (auto simp: segment_of_def)
  then have "off = m" using assms(2,3) seq_at_inject [of m off] by simp
  with off(3) obtain c where c: "drop m file = b @ c" by (auto simp: prefix_def)
  then have len: "length file - m = length b + length c" by (metis length_append length_drop)
  show "m + length b \<le> length file" using len assms(2) by simp
  have "take (length b) (drop m file) = b" using c by simp
  then show "take m file @ b = take (m + length b) file" by (simp add: take_add)
  show "length b \<le> 512" by (rule off(4))
qed

section \<open>The receiver\<close>

locale in_order_receiver =
  fixes receive :: "'e \<Rightarrow> 's \<Rightarrow> 's"
    and admissible :: "'e \<Rightarrow> bool"
    and segment :: "'e \<Rightarrow> (32 word \<times> 'a list) option"
    and valid :: "'s \<Rightarrow> bool"
    and closed :: "'s \<Rightarrow> bool"
    and expected :: "'s \<Rightarrow> 32 word"
    and stored :: "'s \<Rightarrow> 'a list"
  assumes valid: "valid s \<Longrightarrow> admissible e \<Longrightarrow> valid (receive e s)"
    and closed: "valid s \<Longrightarrow> admissible e \<Longrightarrow> closed s \<Longrightarrow> closed (receive e s) \<and> stored (receive e s) = stored s"
    and in_order: "valid s \<Longrightarrow> admissible e \<Longrightarrow> \<not> closed s \<Longrightarrow> segment e = Some (expected s, b) \<Longrightarrow>
      \<not> closed (receive e s) \<and> expected (receive e s) = (expected s + of_nat (length b)) mod 102401 \<and>
      stored (receive e s) = stored s @ b"
    and out_of_order: "valid s \<Longrightarrow> admissible e \<Longrightarrow> \<not> closed s \<Longrightarrow> segment e = Some (q, b) \<Longrightarrow> q \<noteq> expected s \<Longrightarrow>
      \<not> closed (receive e s) \<and> expected (receive e s) = expected s \<and> stored (receive e s) = stored s"
    and other: "valid s \<Longrightarrow> admissible e \<Longrightarrow> \<not> closed s \<Longrightarrow> segment e = None \<Longrightarrow>
      stored (receive e s) = stored s \<and> (closed (receive e s) \<or> expected (receive e s) = expected s)"
begin

text \<open>The receiver holds the first \<open>m\<close> bytes and, while it is open, expects the next one.\<close>

definition holds :: "'a list \<Rightarrow> nat \<Rightarrow> 's \<Rightarrow> bool" where
  "holds file m s \<longleftrightarrow> valid s \<and> m \<le> length file \<and> stored s = take m file \<and> (\<not> closed s \<longrightarrow> expected s = seq_at m)"

lemma holds_step:
  assumes "holds file m s" and "admissible e" and "length file \<le> 102400"
    and "\<And>q b. segment e = Some (q, b) \<Longrightarrow> segment_of file q b"
  shows "\<exists>n \<ge> m. holds file n (receive e s)"
proof -
  have s: "valid s" "m \<le> length file" "stored s = take m file" "\<not> closed s \<Longrightarrow> expected s = seq_at m"
    using assms(1) by (auto simp: holds_def)
  note v = valid [OF s(1) assms(2)]
  show ?thesis
  proof (cases "closed s")
    case True
    with closed [OF s(1) assms(2)] s v show ?thesis by (intro exI [of _ m]) (simp add: holds_def)
  next
    case False
    show ?thesis
    proof (cases "segment e")
      case None
      with other [OF s(1) assms(2) False] s False v show ?thesis by (intro exI [of _ m]) (auto simp: holds_def)
    next
      case (Some x)
      then obtain q b where seg: "segment e = Some (q, b)" by (cases x) simp
      show ?thesis
      proof (cases "q = expected s")
        case True
        have "segment_of file (seq_at m) b" using assms(4) [OF seg] True s(4) [OF False] by simp
        note ext = segment_extends [OF this s(2) assms(3)]
        have "(expected s + of_nat (length b)) mod 102401 = seq_at (m + length b)"
          using seq_at_advance ext(3) s(4) [OF False] by simp
        with in_order [OF s(1) assms(2) False] seg True s(3) v ext(1,2) show ?thesis
          by (intro exI [of _ "m + length b"]) (simp add: holds_def)
      next
        case neq: False
        with out_of_order [OF s(1) assms(2) False seg] s False v show ?thesis
          by (intro exI [of _ m]) (simp add: holds_def)
      qed
    qed
  qed
qed

lemma holds_run:
  assumes "holds file m s" and "length file \<le> 102400" and "\<And>e. e \<in> set es \<Longrightarrow> admissible e"
    and "\<And>e q b. e \<in> set es \<Longrightarrow> segment e = Some (q, b) \<Longrightarrow> segment_of file q b"
  shows "\<exists>n \<ge> m. holds file n (foldl (\<lambda>s e. receive e s) s es)"
  using assms
proof (induction es arbitrary: m s)
  case (Cons e es)
  have "\<exists>n \<ge> m. holds file n (receive e s)"
    by (rule holds_step [OF Cons.prems(1) _ Cons.prems(2)]) (use Cons.prems(3,4) in auto)
  then obtain n where n: "n \<ge> m" "holds file n (receive e s)" by blast
  have "\<exists>l \<ge> n. holds file l (foldl (\<lambda>s e. receive e s) (receive e s) es)"
    by (rule Cons.IH [OF n(2) Cons.prems(2)]) (use Cons.prems(3,4) in \<open>meson list.set_intros(2)\<close>)+
  then obtain l where "l \<ge> n" "holds file l (foldl (\<lambda>s e. receive e s) (receive e s) es)" by blast
  with n(1) show ?case by (intro exI [of _ l]) simp
qed auto

end

end
