(* ===== verification/ConfundoClient.thy ===== *)
theory ConfundoClient
  imports ConfundoPacket FileStreams ConfundoReceiver
begin

text \<open>
  \<^verbatim>\<open>CS118-Project2/client.cpp\<close>: the handshake, the transfer of the file in a sliding window, and
  the closing of the connection. The globals of the program are the record \<open>client\<close>, to which
  \<open>sending\<close> adds the local variables of \<^verbatim>\<open>slidingWindow_data_trans\<close>. The socket does not block:
  each pass of a loop gets what \<^verbatim>\<open>recvfrom\<close> returned in it (\<open>None\<close> for -1) and the readings of the
  clock in it. A loop of the program is a function over the list of its passes, which ends in
  \<open>Next\<close> when the list ends before the loop does. Datagrams sent and lines printed are collected.
\<close>

section \<open>State\<close>

record logger =
  E_ACK :: u32
  log_seq :: u32
  send_time :: time_point
  file_pos :: nat

record client =
  SS_THRESH :: u32
  CWND :: u32
  timer_flag :: int
  seq_num :: u32
  ack_num :: u32
  id_num :: u32
  CWND_logs :: "logger list"
  client_sent :: "buffer list"
  client_out :: "string list"

record sending = client +
  CWND_space :: u32
  last_seq :: u32
  next_flags :: u16
  timeout_check :: time_point
  infile :: ifstream
  send_packet :: packet
  recv_packet :: packet

definition client_init :: client where
  "client_init = \<lparr>SS_THRESH = 10000, CWND = 512, timer_flag = 0, seq_num = 12345, ack_num = 0, id_num = 0,
     CWND_logs = [], client_sent = [], client_out = []\<rparr>"

text \<open>The loop goes on, is left, or the program exits with an error message.\<close>

datatype 's progress = Next 's | Stop 's | ExitFailure string 's

abbreviation sent_line :: "char \<Rightarrow> packet \<Rightarrow> 'a client_scheme \<Rightarrow> string" where
  "sent_line format p c \<equiv> standard_output format (seq (pack_header p)) (ack (pack_header p))
     (conn_id (pack_header p)) (flags (pack_header p)) (CWND c) (SS_THRESH c)"

definition put_line :: "char \<Rightarrow> packet \<Rightarrow> 'a client_scheme \<Rightarrow> 'a client_scheme" where
  "put_line format p c = c\<lparr>client_out := client_out c @ [sent_line format p c]\<rparr>"

text \<open>
  \<^verbatim>\<open>sendto\<close> with the first \<open>n\<close> bytes of a packet. What lies behind a packet in memory is not modelled;
  no call asks for more than \<open>packet_size\<close> bytes.
\<close>

definition send_bytes :: "nat \<Rightarrow> packet \<Rightarrow> 'a client_scheme \<Rightarrow> 'a client_scheme" where
  "send_bytes n p c = c\<lparr>client_sent := client_sent c @ [take n (packet_bytes p)]\<rparr>"

section \<open>Handshake\<close>

text \<open>
  \<^verbatim>\<open>recv_pack\<close>: one element of the list for each \<^verbatim>\<open>recvfrom\<close> before the timer thread sets its flag.
\<close>

fun recv_polls :: "u32 \<Rightarrow> buffer option list \<Rightarrow> packet \<Rightarrow> client \<Rightarrow> int \<times> packet \<times> client" where
  "recv_polls expected [] pkt c = (- 1, pkt, c\<lparr>timer_flag := 1\<rparr>)"
| "recv_polls expected (None # polls) pkt c = recv_polls expected polls pkt c"
| "recv_polls expected (Some d # polls) pkt c =
     (let pkt = ntoh_reorder (recv_into d pkt);
          c = put_line (CHR ''R'') pkt c
      in if expected = ack (pack_header pkt) \<or> flags (pack_header pkt) = FIN then
           let c = c\<lparr>timer_flag := 1\<rparr>;
               c = (if CWND c < SS_THRESH c then c\<lparr>CWND := CWND c + 512\<rparr> else c)
           in (int (recv_count d), pkt, c)
         else recv_polls expected polls pkt c)"

definition recv_pack :: "u32 \<Rightarrow> buffer option list \<Rightarrow> client \<Rightarrow> int \<times> packet \<times> client" where
  "recv_pack expected polls c = recv_polls expected polls zero_packet (c\<lparr>timer_flag := 0\<rparr>)"

text \<open>A round: the clock at its start, the polls, the clock after a packet came.\<close>

type_synonym round = "time_point \<times> buffer option list \<times> time_point"

fun handshake_loop :: "round list \<Rightarrow> time_point \<Rightarrow> packet \<Rightarrow> client \<Rightarrow> client progress" where
  "handshake_loop [] start_time pkt c = Next c"
| "handshake_loop ((now, polls, now') # rounds) start_time pkt c =
     (if duration_seconds (now - start_time) \<ge> 10 then
        ExitFailure ''ERROR: Server receiving timeout! Nothing received for 10 sec'' c
      else
        let c = put_line (CHR ''S'') pkt (send_bytes packet_size pkt c);
            (recv_bytes, recv, c) = recv_pack 12346 polls c
        in if recv_bytes \<ge> 0 then
             if flags (pack_header recv) = SYN_ACK \<and> seq (pack_header recv) = 4321 then
               Stop (c\<lparr>seq_num := ack (pack_header recv), ack_num := seq (pack_header recv) + 1,
                 id_num := ucast (conn_id (pack_header recv))\<rparr>)
             else handshake_loop rounds now' pkt c
           else handshake_loop rounds start_time pkt c)"

definition handshake :: "time_point \<Rightarrow> round list \<Rightarrow> client \<Rightarrow> client progress" where
  "handshake start_time rounds c =
     handshake_loop rounds start_time
       (set_header zero_packet (seq_num c) (ack_num c) (ucast (id_num c)) SYN) c"

section \<open>The transfer\<close>

text \<open>
  The declarations and the opening of the file (\<open>None\<close> when that fails); \<open>stack\<close> is what the
  uninitialised packets hold. The length of the file is kept in an \<^verbatim>\<open>int\<close>.
\<close>

definition open_transfer :: "packet \<Rightarrow> buffer option \<Rightarrow> client \<Rightarrow> sending progress" where
  "open_transfer stack file c =
     (let s = client.extend (c\<lparr>timer_flag := 0\<rparr>)
        \<lparr>CWND_space = CWND c div 512, last_seq = 0, next_flags = 4, timeout_check = 0,
         infile = ifstream_open (case file of Some b \<Rightarrow> b | None \<Rightarrow> []), send_packet = stack, recv_packet = stack\<rparr>
      in case file of
           None \<Rightarrow> ExitFailure ''ERROR: fail to open the file'' s
         | Some b \<Rightarrow>
             if sint (word_of_int (int (length b)) :: 32 word) > 100 * 1024 * 1024 then
               ExitFailure ''ERROR: File too large to be sent. Abort'' s
             else Next s)"

text \<open>The oldest packet has not been acknowledged for half a second: go back to it.\<close>

definition check_timeout :: "time_point \<Rightarrow> sending \<Rightarrow> sending" where
  "check_timeout T s =
     (case CWND_logs s of
        [] \<Rightarrow> s
      | front # rest \<Rightarrow>
          if duration_millis (T - send_time front) > 500 then
            s\<lparr>infile := ifstream_seekg (file_pos front) (ifstream_clear (infile s)),
              last_seq := seq_num s, seq_num := log_seq front, CWND_logs := rest,
              SS_THRESH := CWND s div 2, CWND := 512, CWND_space := 512 div 512\<rparr>
          else s)"

text \<open>The entry in the log; the first packet of all starts the ten second timer.\<close>

definition log_packet :: "time_point \<Rightarrow> u32 \<Rightarrow> nat \<Rightarrow> sending \<Rightarrow> sending" where
  "log_packet now first p s =
     (let s = s\<lparr>CWND_logs := CWND_logs s @
        [\<lparr>E_ACK = seq_num s, log_seq = first, send_time = now, file_pos = p\<rparr>]\<rparr>
      in if timer_flag s = 0 then s\<lparr>timeout_check := now, timer_flag := 1\<rparr> else s)"

definition announce :: "packet \<Rightarrow> sending \<Rightarrow> sending" where
  "announce pkt s =
     (if ntohl (last_seq s) \<ge> ntohl (seq_num s)
      then (put_line (CHR ''U'') pkt s)\<lparr>last_seq := seq_num s\<rparr>
      else put_line (CHR ''S'') pkt s)"

text \<open>The next piece of the file is read and sent.\<close>

definition send_data :: "time_point \<Rightarrow> sending \<Rightarrow> sending progress" where
  "send_data now s =
     (let p = nat (ifstream_tellg (infile s));
          (b, f) = ifstream_read data_size (infile s);
          s = s\<lparr>infile := f, send_packet := (send_packet s)\<lparr>data := put 0 b (data (send_packet s))\<rparr>\<rparr>
      in if failbit f \<and> \<not> eofbit f then ExitFailure ''ERROR: Error during reading from file'' s
         else
           let pkt = set_header (send_packet s) (seq_num s) (ack_num s) (ucast (id_num s)) (next_flags s);
               first = seq_num s;
               s = s\<lparr>send_packet := pkt, ack_num := 0, next_flags := 0,
                     seq_num := (seq_num s + of_nat (length b)) mod (102400 + 1)\<rparr>;
               s = send_bytes (header_size + length b) pkt (announce pkt (log_packet now first p s))
           in Next (s\<lparr>CWND_space := CWND_space s - 1\<rparr>))"

text \<open>Slow start below the threshold, congestion avoidance above.\<close>

definition grow_window :: "'a sending_scheme \<Rightarrow> 'a sending_scheme" where
  "grow_window s =
     (if CWND s < SS_THRESH s then s\<lparr>CWND := CWND s + 512, CWND_space := CWND_space s + 2\<rparr>
      else
        let dummy = CWND s;
            s = s\<lparr>CWND := CWND s + 512 * 512 div CWND s\<rparr>
        in if CWND s div 512 - dummy div 512 \<ge> 1 then s\<lparr>CWND_space := CWND_space s + 2\<rparr>
           else s\<lparr>CWND_space := CWND_space s + 1\<rparr>)"

text \<open>The loop over the log: the packets up to the first that expects this acknowledgement are
  done with.\<close>

definition process_ack :: "sending \<Rightarrow> sending" where
  "process_ack s =
     (let a = ack (pack_header (recv_packet s)) in
      if \<exists>l \<in> set (CWND_logs s). E_ACK l = a then
        let s = put_line (CHR ''R'') (recv_packet s) s;
            s = s\<lparr>CWND_logs := tl (dropWhile (\<lambda>l. E_ACK l \<noteq> a) (CWND_logs s))\<rparr>
        in grow_window s
      else if CWND_logs s \<noteq> [] then put_line (CHR ''D'') (recv_packet s) s
      else s)"

definition receive_ack :: "buffer option \<Rightarrow> time_point \<Rightarrow> sending \<Rightarrow> sending progress" where
  "receive_ack reply now s =
     (case reply of
        Some (x # d) \<Rightarrow>
          Next (process_ack (s\<lparr>recv_packet := ntoh_reorder (recv_into (x # d) (recv_packet s)), timeout_check := now\<rparr>))
      | _ \<Rightarrow>
          if duration_seconds (now - timeout_check s) \<ge> 10 then
            ExitFailure ''ERROR: nothing receive from server for 10 second'' s
          else Next s)"

fun then_do :: "'s progress \<Rightarrow> ('s \<Rightarrow> 's progress) \<Rightarrow> 's progress" where
  "then_do (Next s) f = f s"
| "then_do (Stop s) f = Stop s"
| "then_do (ExitFailure e s) f = ExitFailure e s"

text \<open>One pass of the loop.\<close>

definition transfer_pass :: "clock \<Rightarrow> buffer option \<Rightarrow> sending \<Rightarrow> sending progress" where
  "transfer_pass clk reply s =
     (let s = check_timeout (clk 0) s in
      then_do (if CWND_space s > 0 \<and> \<not> eofbit (infile s) then send_data (clk 1) s else Next s) (\<lambda>s.
      then_do (receive_ack reply (clk 2) s) (\<lambda>s.
        if ifstream_tellg (infile s) = - 1 \<and> CWND_logs s = [] then Stop s else Next s)))"

fun transfer_loop :: "(clock \<times> buffer option) list \<Rightarrow> sending \<Rightarrow> sending progress" where
  "transfer_loop [] s = Next s"
| "transfer_loop ((clk, reply) # passes) s = then_do (transfer_pass clk reply s) (transfer_loop passes)"

section \<open>The end\<close>

text \<open>Two seconds in which only a repeated \<^verbatim>\<open>FIN\<close> is answered.\<close>

fun wait_loop :: "(time_point \<times> buffer option) list \<Rightarrow> time_point \<Rightarrow> packet \<Rightarrow> packet \<Rightarrow> client \<Rightarrow> client progress" where
  "wait_loop [] start_time pkt recv c = Next c"
| "wait_loop ((now, reply) # rest) start_time pkt recv c =
     (if duration_seconds (now - start_time) \<ge> 2 then Stop c
      else case reply of
        Some (x # d) \<Rightarrow>
          (let recv = ntoh_reorder (recv_into (x # d) recv);
               c = put_line (CHR ''R'') recv c
           in if flags (pack_header recv) = FIN then
                let c = c\<lparr>ack_num := seq (pack_header recv) + 1\<rparr>;
                    pkt = set_header pkt (seq_num c) (ack_num c) (ucast (id_num c)) ACK;
                    c = put_line (CHR ''S'') pkt (send_bytes packet_size pkt c)
                in wait_loop rest start_time pkt recv c
              else wait_loop rest start_time pkt recv (put_line (CHR ''D'') recv c))
      | _ \<Rightarrow> wait_loop rest start_time pkt recv c)"

text \<open>
  The comparison of whole seconds with 0.5 makes the \<^verbatim>\<open>FIN\<close> be repeated after one second. Each
  pass reads the clock up to five times.
\<close>

fun ending_loop ::
  "(clock \<times> buffer option) list \<Rightarrow> time_point \<Rightarrow> time_point \<Rightarrow> packet \<Rightarrow> packet \<Rightarrow> client \<Rightarrow> client progress" where
  "ending_loop [] start_time sent_at pkt recv c = Next c"
| "ending_loop ((clk, reply) # rest) start_time sent_at pkt recv c =
     (if duration_seconds (clk 0 - start_time) \<ge> 10 then
        ExitFailure ''ERROR: Server FINACK receiving timeout! Nothing received for 10 sec'' c
      else
        let (c, sent_at) =
          (if duration_seconds (clk 1 - sent_at) \<ge> 1
           then (put_line (CHR ''S'') pkt (send_bytes packet_size pkt c), clk 2) else (c, sent_at))
        in case reply of
          Some (x # d) \<Rightarrow>
            (let recv = ntoh_reorder (recv_into (x # d) recv);
                 c = put_line (CHR ''R'') recv c;
                 start_time = clk 3
             in if ack (pack_header recv) = seq_num c + 1 \<or> flags (pack_header recv) = FIN then
                  if flags (pack_header recv) = ACK_FIN \<or> flags (pack_header recv) = FIN then
                    let c = c\<lparr>ack_num := seq (pack_header recv) + 1\<rparr>;
                        pkt = set_header pkt (seq_num c) (ack_num c) (ucast (id_num c)) ACK;
                        c = put_line (CHR ''S'') pkt (send_bytes packet_size pkt c)
                    in wait_loop (map (\<lambda>(clk, reply). (clk 0, reply)) rest) (clk 4) pkt recv c
                  else ending_loop rest start_time sent_at pkt recv c
                else ending_loop rest start_time sent_at pkt recv (put_line (CHR ''D'') recv c))
        | _ \<Rightarrow> ending_loop rest start_time sent_at pkt recv c)"

definition ending :: "time_point \<Rightarrow> time_point \<Rightarrow> (clock \<times> buffer option) list \<Rightarrow> client \<Rightarrow> client progress" where
  "ending start_time sent_at passes c =
     (let c = c\<lparr>ack_num := 0\<rparr>;
          pkt = set_header zero_packet (seq_num c) (ack_num c) (ucast (id_num c)) FIN;
          c = put_line (CHR ''S'') pkt (send_bytes packet_size pkt c)
      in ending_loop passes start_time sent_at pkt zero_packet c)"

section \<open>What the transfer keeps\<close>

text \<open>A logged packet covers the file from its position to the place it expects acknowledged.\<close>

definition log_of :: "buffer \<Rightarrow> logger \<Rightarrow> bool" where
  "log_of file l \<longleftrightarrow> file_pos l \<le> length file \<and> log_seq l = seq_at (file_pos l) \<and>
     (\<exists>e \<le> length file. E_ACK l = seq_at e)"

text \<open>
  The position in the file and the sequence number agree, at the end of the file the last packet
  logged is the one that reaches it.
\<close>

definition sending_inv :: "buffer \<Rightarrow> u16 \<Rightarrow> sending \<Rightarrow> bool" where
  "sending_inv file n s \<longleftrightarrow>
     (let f = infile s; logs = CWND_logs s in
      contents f = file \<and> pos f \<le> length file \<and> failbit f = eofbit f \<and> (eofbit f \<longrightarrow> pos f = length file) \<and>
      seq_num s = seq_at (pos f) \<and> ucast (id_num s) = n \<and> next_flags s \<in> {0, ACK} \<and>
      packet_wf (send_packet s) \<and> packet_wf (recv_packet s) \<and> (\<forall>l \<in> set logs. log_of file l) \<and>
      (eofbit f \<and> logs \<noteq> [] \<longrightarrow> E_ACK (last logs) = seq_at (length file)))"

text \<open>A datagram that carries the bytes \<open>b\<close>, numbered from \<open>q\<close>, for connection \<open>n\<close>.\<close>

definition carries :: "u16 \<Rightarrow> u32 \<Rightarrow> buffer \<Rightarrow> buffer \<Rightarrow> bool" where
  "carries n q b d \<longleftrightarrow>
     (\<exists>h. d = header_bytes h @ b \<and> conn_id h = htons n \<and> flags h \<in> {htons 0, htons ACK} \<and> ntohl (seq h) = q)"

definition data_datagram :: "buffer \<Rightarrow> u16 \<Rightarrow> buffer \<Rightarrow> bool" where
  "data_datagram file n d \<longleftrightarrow> (\<exists>q b. carries n q b d \<and> segment_of file q b)"

lemma put_line_simps [simp]:
  "CWND (put_line f p c) = CWND c" "SS_THRESH (put_line f p c) = SS_THRESH c" "seq_num (put_line f p c) = seq_num c"
  "ack_num (put_line f p c) = ack_num c" "id_num (put_line f p c) = id_num c" "CWND_logs (put_line f p c) = CWND_logs c"
  "client_sent (put_line f p c) = client_sent c" "timer_flag (put_line f p c) = timer_flag c"
  "CWND_space (put_line f p s) = CWND_space s" "next_flags (put_line f p s) = next_flags s"
  "timeout_check (put_line f p s) = timeout_check s" "infile (put_line f p s) = infile s"
  "send_packet (put_line f p s) = send_packet s" "recv_packet (put_line f p s) = recv_packet s"
  "last_seq (put_line f p s) = last_seq s"
  by (simp_all add: put_line_def)

lemma send_bytes_simps [simp]:
  "CWND (send_bytes n p c) = CWND c" "SS_THRESH (send_bytes n p c) = SS_THRESH c" "seq_num (send_bytes n p c) = seq_num c"
  "ack_num (send_bytes n p c) = ack_num c" "id_num (send_bytes n p c) = id_num c" "CWND_logs (send_bytes n p c) = CWND_logs c"
  "client_sent (send_bytes n p c) = client_sent c @ [take n (packet_bytes p)]" "timer_flag (send_bytes n p c) = timer_flag c"
  "CWND_space (send_bytes n p s) = CWND_space s" "next_flags (send_bytes n p s) = next_flags s"
  "timeout_check (send_bytes n p s) = timeout_check s" "infile (send_bytes n p s) = infile s"
  "send_packet (send_bytes n p s) = send_packet s" "recv_packet (send_bytes n p s) = recv_packet s"
  "last_seq (send_bytes n p s) = last_seq s"
  by (simp_all add: send_bytes_def)

lemma log_packet_simps [simp]:
  "CWND (log_packet t q p s) = CWND s" "SS_THRESH (log_packet t q p s) = SS_THRESH s"
  "seq_num (log_packet t q p s) = seq_num s" "id_num (log_packet t q p s) = id_num s"
  "CWND_logs (log_packet t q p s) =
    CWND_logs s @ [\<lparr>E_ACK = seq_num s, log_seq = q, send_time = t, file_pos = p\<rparr>]"
  "client_sent (log_packet t q p s) = client_sent s" "CWND_space (log_packet t q p s) = CWND_space s"
  "next_flags (log_packet t q p s) = next_flags s" "infile (log_packet t q p s) = infile s"
  "send_packet (log_packet t q p s) = send_packet s" "recv_packet (log_packet t q p s) = recv_packet s"
  "timeout_check (log_packet t q p s) = (if timer_flag s = 0 then t else timeout_check s)"
  by (simp_all add: log_packet_def Let_def)

lemma announce_simps [simp]:
  "CWND (announce p s) = CWND s" "SS_THRESH (announce p s) = SS_THRESH s" "seq_num (announce p s) = seq_num s"
  "id_num (announce p s) = id_num s" "CWND_logs (announce p s) = CWND_logs s"
  "client_sent (announce p s) = client_sent s" "CWND_space (announce p s) = CWND_space s"
  "next_flags (announce p s) = next_flags s" "infile (announce p s) = infile s"
  "send_packet (announce p s) = send_packet s" "recv_packet (announce p s) = recv_packet s"
  "timeout_check (announce p s) = timeout_check s"
  by (simp_all add: announce_def)

lemma grow_window_simps [simp]:
  "SS_THRESH (grow_window s) = SS_THRESH s" "seq_num (grow_window s) = seq_num s" "id_num (grow_window s) = id_num s"
  "CWND_logs (grow_window s) = CWND_logs s" "client_sent (grow_window s) = client_sent s"
  "next_flags (grow_window s) = next_flags s" "infile (grow_window s) = infile s"
  "send_packet (grow_window s) = send_packet s" "recv_packet (grow_window s) = recv_packet s"
  by (simp_all add: grow_window_def Let_def)

lemma check_timeout_inv:
  assumes "sending_inv file n s"
  shows "sending_inv file n (check_timeout T s)" and "client_sent (check_timeout T s) = client_sent s"
proof -
  have "sending_inv file n (check_timeout T s) \<and> client_sent (check_timeout T s) = client_sent s"
  proof (cases "CWND_logs s")
    case (Cons l ls)
    then have "log_of file l" using assms by (simp add: sending_inv_def Let_def)
    with assms Cons show ?thesis
      by (simp add: check_timeout_def ifstream_rewind sending_inv_def Let_def log_of_def)
  qed (use assms in \<open>simp add: check_timeout_def\<close>)
  then show "sending_inv file n (check_timeout T s)" and "client_sent (check_timeout T s) = client_sent s" by auto
qed

lemma check_timeout_late:
  assumes "CWND_logs s = l # rest" and "500 < duration_millis (T - send_time l)"
  shows "check_timeout T s = s\<lparr>infile := (infile s)\<lparr>pos := file_pos l, eofbit := False, failbit := False\<rparr>,
    last_seq := seq_num s, seq_num := log_seq l, CWND_logs := rest, SS_THRESH := CWND s div 2, CWND := 512, CWND_space := 1\<rparr>"
  using assms by (simp add: check_timeout_def ifstream_rewind)

lemma send_data_effect:
  assumes "sending_inv file n s" and "\<not> eofbit (infile s)"
  defines "p \<equiv> pos (infile s)"
  defines "b \<equiv> chunk p data_size file"
  obtains s' where "send_data now s = Next s'" and "sending_inv file n s'"
    and "CWND_logs s' = CWND_logs s @
      [\<lparr>E_ACK = seq_at (p + length b), log_seq = seq_at p, send_time = now, file_pos = p\<rparr>]"
    and "pos (infile s') = p + length b" and "eofbit (infile s') = (length b < data_size)"
    and "CWND s' = CWND s" and "SS_THRESH s' = SS_THRESH s" and "CWND_space s' = CWND_space s - 1"
    and "timeout_check s' = (if timer_flag s = 0 then now else timeout_check s)"
    and "\<exists>d. client_sent s' = client_sent s @ [d] \<and> carries n (seq_at p) b d \<and> data_datagram file n d"
proof -
  let ?f = "infile s"
  have f: "contents ?f = file" "p \<le> length file" "\<not> failbit ?f"
    and q: "seq_num s = seq_at p" and wf: "packet_wf (send_packet s)" and fl: "next_flags s \<in> {0, ACK}"
    and n: "ucast (id_num s) = n" and logs: "\<forall>l \<in> set (CWND_logs s). log_of file l"
    using assms(1,2) by (auto simp: sending_inv_def Let_def p_def)
  have lb: "length b = min data_size (length file - p)" by (simp add: b_def)
  have le: "p + length b \<le> length file" using f(2) lb by simp
  obtain f' where read: "ifstream_read data_size ?f = (b, f')"
    and f': "contents f' = file" "pos f' = p + length b" "failbit f' = eofbit f'" "eofbit f' = (length b < data_size)"
    using ifstream_read_good [OF assms(2) f(3), of data_size] unfolding f(1) b_def p_def by blast
  have tell: "nat (ifstream_tellg ?f) = p" using f(3) by (simp add: ifstream_tellg_def p_def)
  have seq': "(seq_at p + of_nat (length b)) mod 102401 = seq_at (p + length b)"
    using seq_at_advance [of "length b" p] lb by simp
  define pkt where "pkt = set_header ((send_packet s)\<lparr>data := put 0 b (data (send_packet s))\<rparr>) (seq_at p)
    (ack_num s) (ucast (id_num s)) (next_flags s)"
  define t where "t = s\<lparr>infile := f', send_packet := pkt, ack_num := 0, next_flags := 0,
    seq_num := seq_at (p + length b)\<rparr>"
  define u where "u = send_bytes (header_size + length b) pkt (announce pkt (log_packet now (seq_at p) p t))"
  define s' where "s' = u\<lparr>CWND_space := CWND_space u - 1\<rparr>"
  have s'1: "send_data now s = Next s'"
    by (simp add: send_data_def Let_def read tell f'(3) q seq' s'_def u_def t_def pkt_def)
  have s': "seq_num s' = seq_at (p + length b)" "infile s' = f'"
      "id_num s' = id_num s" "next_flags s' = 0" "recv_packet s' = recv_packet s" "send_packet s' = pkt"
      "CWND_logs s' = CWND_logs s @
        [\<lparr>E_ACK = seq_at (p + length b), log_seq = seq_at p, send_time = now, file_pos = p\<rparr>]"
      "CWND s' = CWND s" "SS_THRESH s' = SS_THRESH s" "CWND_space s' = CWND_space s - 1"
      "client_sent s' = client_sent s @ [take (header_size + length b) (packet_bytes pkt)]"
      "timeout_check s' = (if timer_flag s = 0 then now else timeout_check s)"
    by (simp_all add: s'_def u_def t_def)
  have wf': "packet_wf pkt"
    using wf lb by (simp add: pkt_def packet_wf_def)
  have eof: "eofbit f' \<Longrightarrow> p + length b = length file" using f'(4) lb f(2) by (simp add: min_def split: if_splits)
  have inv: "sending_inv file n s'"
    using wf' le logs f(2) f' eof n assms(1) unfolding sending_inv_def Let_def s'
    by (auto simp: log_of_def)
  have "take (header_size + length b) (packet_bytes pkt) = header_bytes (pack_header pkt) @ b"
    using wf lb by (simp add: packet_bytes_prefix pkt_def packet_wf_def put_def)
  moreover have "segment_of file (seq_at p) b"
    unfolding segment_of_def using f(2) lb
    by (intro exI [of _ p]) (simp add: b_def chunk_def take_is_prefix)
  ultimately have "carries n (seq_at p) b (take (header_size + length b) (packet_bytes pkt)) \<and> segment_of file (seq_at p) b"
    using n fl by (auto simp: carries_def pkt_def htonl_htonl)
  then have d: "\<exists>d. client_sent s' = client_sent s @ [d] \<and> carries n (seq_at p) b d \<and> data_datagram file n d"
    using s'(11) by (auto simp: data_datagram_def)
  show ?thesis by (rule that [OF s'1 inv s'(7) _ _ s'(8-10) _ d]) (simp_all add: s'(2,12) f')
qed

text \<open>An acknowledgement takes off the log up to the first packet that expects it.\<close>

definition acked :: "u32 \<Rightarrow> logger list \<Rightarrow> logger list" where
  "acked a logs = (if \<exists>l \<in> set logs. E_ACK l = a then tl (dropWhile (\<lambda>l. E_ACK l \<noteq> a) logs) else logs)"

lemma acked_split:
  assumes "\<exists>l \<in> set logs. E_ACK l = a"
  obtains us l where "logs = us @ l # acked a logs" and "E_ACK l = a"
proof -
  have ne: "dropWhile (\<lambda>l. E_ACK l \<noteq> a) logs \<noteq> []" using assms by (simp add: dropWhile_eq_Nil_conv)
  then obtain l ls where l: "dropWhile (\<lambda>l. E_ACK l \<noteq> a) logs = l # ls" by (cases "dropWhile (\<lambda>l. E_ACK l \<noteq> a) logs") auto
  then have "E_ACK l = a" using hd_dropWhile [OF ne] by simp
  moreover have "logs = takeWhile (\<lambda>l. E_ACK l \<noteq> a) logs @ dropWhile (\<lambda>l. E_ACK l \<noteq> a) logs" by simp
  moreover have "acked a logs = ls" using assms l by (simp add: acked_def)
  ultimately show ?thesis using that l by metis
qed

lemma process_ack_fields:
  "CWND_logs (process_ack s) = acked (ack (pack_header (recv_packet s))) (CWND_logs s)"
  "infile (process_ack s) = infile s" "seq_num (process_ack s) = seq_num s" "id_num (process_ack s) = id_num s"
  "next_flags (process_ack s) = next_flags s" "send_packet (process_ack s) = send_packet s"
  "recv_packet (process_ack s) = recv_packet s" "client_sent (process_ack s) = client_sent s"
  by (simp_all add: process_ack_def acked_def Let_def)

lemma acked_cases: "acked a logs = logs \<or> (\<exists>us l. logs = us @ l # acked a logs \<and> E_ACK l = a)"
proof (cases "\<exists>l \<in> set logs. E_ACK l = a")
  case True
  then show ?thesis by (rule acked_split) blast
qed (simp add: acked_def)

lemma acked_suffix: "suffix (acked a logs) logs"
  using acked_cases [of a logs] by (metis append.left_neutral append_Cons append_assoc suffix_def)

lemma suffix_last: "suffix xs ys \<Longrightarrow> set xs \<subseteq> set ys \<and> (xs \<noteq> [] \<longrightarrow> last xs = last ys)"
  by (auto simp: suffix_def)

lemma process_ack_inv:
  assumes "sending_inv file n s"
  shows "sending_inv file n (process_ack s)"
proof -
  define k where "k = acked (ack (pack_header (recv_packet s))) (CWND_logs s)"
  then have k: "set k \<subseteq> set (CWND_logs s)" "k \<noteq> [] \<Longrightarrow> last k = last (CWND_logs s)"
    using suffix_last [OF acked_suffix] by simp_all
  moreover have "k \<noteq> [] \<Longrightarrow> CWND_logs s \<noteq> []" using k(1) by auto
  ultimately show ?thesis
    using assms unfolding sending_inv_def Let_def process_ack_fields k_def [symmetric] by auto
qed

text \<open>The transfer is over only when the place that the last acknowledgement names is the end of
  the file.\<close>

lemma process_ack_empty:
  assumes "sending_inv file n s" and "eofbit (infile s)" and "CWND_logs s \<noteq> []"
    and "acked a (CWND_logs s) = []"
  shows "a = seq_at (length file)"
  using acked_cases [of a "CWND_logs s"] assms by (auto simp: sending_inv_def Let_def)

lemma receive_ack_effect:
  assumes "sending_inv file n s" and "receive_ack reply now s = Next s'"
  shows "sending_inv file n s'" and "client_sent s' = client_sent s" and "infile s' = infile s"
    and "CWND_logs s' = CWND_logs s \<or> (\<exists>d. reply = Some d \<and>
      CWND_logs s' = acked (ntohl (ack (pack_header (recv_into d (recv_packet s))))) (CWND_logs s))"
proof -
  have "sending_inv file n s' \<and> client_sent s' = client_sent s \<and> infile s' = infile s \<and>
    (CWND_logs s' = CWND_logs s \<or> (\<exists>d. reply = Some d \<and>
      CWND_logs s' = acked (ntohl (ack (pack_header (recv_into d (recv_packet s))))) (CWND_logs s)))"
  proof (cases "\<exists>x d. reply = Some (x # d)")
    case True
    then obtain x d where r: "reply = Some (x # d)" by blast
    let ?t = "s\<lparr>recv_packet := ntoh_reorder (recv_into (x # d) (recv_packet s)), timeout_check := now\<rparr>"
    have "sending_inv file n ?t" using assms(1) by (simp add: sending_inv_def Let_def recv_into_wf)
    from process_ack_inv [OF this] assms(2) r show ?thesis
      by (auto simp: receive_ack_def process_ack_fields)
  next
    case False
    then have "receive_ack reply now s = (if duration_seconds (now - timeout_check s) \<ge> 10 then
        ExitFailure ''ERROR: nothing receive from server for 10 second'' s else Next s)"
      by (auto simp: receive_ack_def split: option.split list.split)
    with assms show ?thesis by (auto split: if_splits)
  qed
  then show "sending_inv file n s'" and "client_sent s' = client_sent s" and "infile s' = infile s"
    and "CWND_logs s' = CWND_logs s \<or> (\<exists>d. reply = Some d \<and>
      CWND_logs s' = acked (ntohl (ack (pack_header (recv_into d (recv_packet s))))) (CWND_logs s))" by blast+
qed

lemma receive_ack_not_Stop: "receive_ack reply now s \<noteq> Stop s'"
  by (simp add: receive_ack_def split: option.split list.split)

end
