(* ===== verification/ConfundoServer.thy ===== *)
theory ConfundoServer
  imports ConfundoPacket FileStreams ConfundoReceiver Systems
begin

text \<open>
  \<^verbatim>\<open>CS118-Project2/server.cpp\<close>: the array of ten connections and one turn of the loop of \<^verbatim>\<open>main\<close>,
  \<open>serve_one\<close>, for one result of \<^verbatim>\<open>recvfrom\<close>; \<open>serve\<close> is the loop. A call of \<^verbatim>\<open>sendto\<close> adds the
  datagram and its address to a list, a line printed to another. The array is a global variable,
  so it starts out as zeros. The address family the socket reports is \<^verbatim>\<open>AF_INET\<close>.

  The lemmas: the shape of the array (the first \<open>k\<close> connections are taken, in order, and named
  by their number), what each kind of datagram does to it, and that a connection that is open
  receives like a go-back-N receiver.
\<close>

section \<open>State\<close>

record sockaddr =
  sa_family :: u16
  sa_data :: buffer

abbreviation AF_INET :: u16 where "AF_INET \<equiv> 2"

record connection_info =
  pack :: packet
  src_addr :: sockaddr
  addrlen :: nat
  myfile :: ofstream
  is_FIN :: int
  timestamp :: int

record server =
  all_connection :: "connection_info list"
  client_addr :: sockaddr
  client_addrlen :: nat
  server_files :: files
  server_sent :: "(buffer \<times> sockaddr \<times> nat) list"
  server_out :: "string list"

definition no_addr :: sockaddr where
  "no_addr = \<lparr>sa_family = 0, sa_data = replicate 14 0\<rparr>"

definition no_connection :: connection_info where
  "no_connection = \<lparr>pack = zero_packet, src_addr = no_addr, addrlen = 0, myfile = ofstream_init,
     is_FIN = 0, timestamp = 0\<rparr>"

definition server_init :: "files \<Rightarrow> server" where
  "server_init fs = \<lparr>all_connection = replicate 10 no_connection, client_addr = no_addr,
     client_addrlen = 16, server_files = fs, server_sent = [], server_out = []\<rparr>"

abbreviation conn_header :: "connection_info \<Rightarrow> header" where
  "conn_header c \<equiv> pack_header (pack c)"

definition with_header :: "(header \<Rightarrow> header) \<Rightarrow> connection_info \<Rightarrow> connection_info" where
  "with_header g c = c\<lparr>pack := (pack c)\<lparr>pack_header := g (conn_header c)\<rparr>\<rparr>"

definition set_conn :: "nat \<Rightarrow> connection_info \<Rightarrow> server \<Rightarrow> server" where
  "set_conn i c s = s\<lparr>all_connection := (all_connection s)[i := c]\<rparr>"

text \<open>\<^verbatim>\<open>is_timeout\<close>, which the loop does not call; clock ticks are microseconds.\<close>

definition is_timeout :: "int \<Rightarrow> int \<Rightarrow> int \<Rightarrow> bool" where
  "is_timeout clock stamp connection_id \<longleftrightarrow>
     (let d = clock - stamp in (if d < 0 then - ((- d) div 1000000) else d div 1000000) > 9) \<and>
     connection_id \<noteq> 0"

section \<open>Sending\<close>

definition sendto :: "packet \<Rightarrow> connection_info \<Rightarrow> server \<Rightarrow> server" where
  "sendto buf c s = s\<lparr>server_sent := server_sent s @ [(packet_bytes buf, src_addr c, addrlen c)]\<rparr>"

definition print_line :: "string \<Rightarrow> packet \<Rightarrow> server \<Rightarrow> server" where
  "print_line message buf s = s\<lparr>server_out := server_out s @ [print_packet message buf]\<rparr>"

text \<open>The header of the connection is copied to \<^verbatim>\<open>buf\<close> and put in network order; the data of the
  packet that arrived stay in it.\<close>

definition reply_packet :: "packet \<Rightarrow> connection_info \<Rightarrow> packet" where
  "reply_packet buf c =
     (let h = conn_header c in set_header buf (seq h) (ack h) (conn_id h) (flags h))"

section \<open>SYN\<close>

definition file_path :: "string \<Rightarrow> nat \<Rightarrow> string" where
  "file_path file_dir i = file_dir @ ''/'' @ show_nat (i + 1) @ ''.file''"

text \<open>The body of the loop for a connection that is free.\<close>

definition accept_connection :: "(string \<Rightarrow> bool) \<Rightarrow> string \<Rightarrow> packet \<Rightarrow> nat \<Rightarrow> server \<Rightarrow> server" where
  "accept_connection can_open file_dir buf i s =
     (let c = all_connection s ! i;
          c = with_header (\<lambda>h. h\<lparr>flags := 6\<rparr>) c;
          c = with_header (\<lambda>h. h\<lparr>ack := seq (pack_header buf) + 1\<rparr>) c;
          c = with_header (\<lambda>h. h\<lparr>seq := 4321\<rparr>) c;
          c = with_header (\<lambda>h. h\<lparr>conn_id := of_nat (i + 1)\<rparr>) c;
          c = c\<lparr>src_addr := client_addr s, addrlen := client_addrlen s\<rparr>;
          (f, fs) = ofstream_open can_open (file_path file_dir i) (myfile c, server_files s);
          c = c\<lparr>myfile := f\<rparr>;
          s = set_conn i c (s\<lparr>server_files := fs\<rparr>)
      in print_line ''SEND'' (pack c) (sendto (reply_packet buf c) c s))"

fun syn_loop :: "(string \<Rightarrow> bool) \<Rightarrow> string \<Rightarrow> packet \<Rightarrow> nat list \<Rightarrow> server \<Rightarrow> server" where
  "syn_loop can_open file_dir buf [] s = s"
| "syn_loop can_open file_dir buf (i # is) s =
     (let c = all_connection s ! i in
      if sa_family (src_addr c) \<noteq> sa_family (client_addr s) then
        if conn_id (conn_header c) = 0 then accept_connection can_open file_dir buf i s
        else syn_loop can_open file_dir buf is s
      else syn_loop can_open file_dir buf is (sendto buf c s))"

section \<open>Data\<close>

text \<open>The loop that looks for the connection of a packet.\<close>

definition find_connection :: "u16 \<Rightarrow> server \<Rightarrow> nat option" where
  "find_connection n s = find (\<lambda>i. n = conn_id (conn_header (all_connection s ! i))) [0..<10]"

text \<open>The sequence number of the server moves on when the client has acknowledged it.\<close>

definition acknowledge :: "header \<Rightarrow> header \<Rightarrow> header" where
  "acknowledge b h =
     (if ack b = seq h then h else if ack b = seq h + 1 then h\<lparr>seq := seq h + 1\<rparr> else h)"

text \<open>A packet that is in order is counted, acknowledged and written; another one is dropped.\<close>

definition receive_data :: "packet \<Rightarrow> int \<Rightarrow> connection_info \<Rightarrow> server \<Rightarrow> connection_info \<times> server" where
  "receive_data buf recv_byte c s =
     (let b = pack_header buf in
      if seq b = ack (conn_header c) then
        let c = with_header (\<lambda>h. h\<lparr>ack := ack h + word_of_int (recv_byte - 12)\<rparr>) c;
            c = with_header (\<lambda>h. h\<lparr>ack := ack h mod 102401\<rparr>) c;
            c = with_header (acknowledge b) c;
            (f, fs) = ofstream_write (data buf) (recv_byte - 12) (myfile c, server_files s)
        in (c\<lparr>myfile := f\<rparr>, s\<lparr>server_files := fs\<rparr>)
      else (with_header (acknowledge b) c, print_line ''DROP'' buf s))"

definition handle_data :: "packet \<Rightarrow> int \<Rightarrow> server \<Rightarrow> server" where
  "handle_data buf recv_byte s =
     (case find_connection (conn_id (pack_header buf)) s of
        None \<Rightarrow> s
      | Some i \<Rightarrow>
          let c = all_connection s ! i in
          if is_FIN c = 1 then set_conn i (c\<lparr>myfile := ofstream_close (myfile c)\<rparr>) s
          else
            let (c, s) = receive_data buf recv_byte c s;
                c = with_header (\<lambda>h. h\<lparr>flags := 4\<rparr>) c
            in print_line ''SEND'' (pack c) (sendto (reply_packet buf c) c (set_conn i c s)))"

section \<open>FIN\<close>

definition handle_fin :: "packet \<Rightarrow> server \<Rightarrow> server" where
  "handle_fin buf s =
     (case find_connection (conn_id (pack_header buf)) s of
        None \<Rightarrow> s
      | Some i \<Rightarrow>
          let c = all_connection s ! i;
              c = (if seq (pack_header buf) = ack (conn_header c)
                   then with_header (\<lambda>h. h\<lparr>ack := ack h + 1\<rparr>) c else c);
              c = with_header (\<lambda>h. h\<lparr>flags := 4\<rparr>) c;
              s = print_line ''SEND'' (pack c) (sendto (reply_packet buf c) c (set_conn i c s));
              buf = set_header buf (seq (conn_header c)) 0 (conn_id (conn_header c)) 1;
              s = print_line ''SEND'' buf (sendto buf c s)
          in set_conn i (c\<lparr>is_FIN := 1\<rparr>) s)"

section \<open>The loop\<close>

text \<open>What \<^verbatim>\<open>recvfrom\<close> returns: a datagram with the address of its sender, or -1.\<close>

datatype recv_event = Datagram buffer sockaddr nat | RecvError

definition dispatch :: "(string \<Rightarrow> bool) \<Rightarrow> string \<Rightarrow> packet \<Rightarrow> int \<Rightarrow> server \<Rightarrow> server" where
  "dispatch can_open file_dir buf recv_byte s =
     (let buf = ntoh_reorder buf; s = print_line ''RECV'' buf s in
      if flags (pack_header buf) = SYN then syn_loop can_open file_dir buf [0..<10] s
      else if flags (pack_header buf) = ACK \<or> flags (pack_header buf) = 0 then handle_data buf recv_byte s
      else if flags (pack_header buf) = FIN then handle_fin buf s
      else s)"

fun serve_one :: "(string \<Rightarrow> bool) \<Rightarrow> string \<Rightarrow> recv_event \<Rightarrow> server \<Rightarrow> server" where
  "serve_one can_open file_dir (Datagram d addr len) s =
     dispatch can_open file_dir (recv_into d zero_packet) (int (recv_count d))
       (s\<lparr>client_addr := addr, client_addrlen := len\<rparr>)"
| "serve_one can_open file_dir RecvError s = dispatch can_open file_dir zero_packet (- 1) s"

fun serve :: "(string \<Rightarrow> bool) \<Rightarrow> string \<Rightarrow> recv_event list \<Rightarrow> server \<Rightarrow> server" where
  "serve can_open file_dir [] s = s"
| "serve can_open file_dir (ev # evs) s = serve can_open file_dir evs (serve_one can_open file_dir ev s)"

section \<open>Fields\<close>

lemma with_header_simps [simp]:
  "conn_header (with_header g c) = g (conn_header c)" "data (pack (with_header g c)) = data (pack c)"
  "src_addr (with_header g c) = src_addr c" "addrlen (with_header g c) = addrlen c"
  "myfile (with_header g c) = myfile c" "is_FIN (with_header g c) = is_FIN c"
  "timestamp (with_header g c) = timestamp c"
  by (simp_all add: with_header_def)

lemma set_conn_simps [simp]:
  "all_connection (set_conn i c s) = (all_connection s)[i := c]" "client_addr (set_conn i c s) = client_addr s"
  "client_addrlen (set_conn i c s) = client_addrlen s" "server_files (set_conn i c s) = server_files s"
  "server_sent (set_conn i c s) = server_sent s" "server_out (set_conn i c s) = server_out s"
  by (simp_all add: set_conn_def)

lemma sendto_simps [simp]:
  "all_connection (sendto b c s) = all_connection s" "client_addr (sendto b c s) = client_addr s"
  "client_addrlen (sendto b c s) = client_addrlen s" "server_files (sendto b c s) = server_files s"
  "server_sent (sendto b c s) = server_sent s @ [(packet_bytes b, src_addr c, addrlen c)]"
  by (simp_all add: sendto_def)

lemma print_line_simps [simp]:
  "all_connection (print_line m b s) = all_connection s" "client_addr (print_line m b s) = client_addr s"
  "client_addrlen (print_line m b s) = client_addrlen s" "server_files (print_line m b s) = server_files s"
  "server_sent (print_line m b s) = server_sent s"
  by (simp_all add: print_line_def)

lemma acknowledge_simps [simp]:
  "ack (acknowledge b h) = ack h" "conn_id (acknowledge b h) = conn_id h" "flags (acknowledge b h) = flags h"
  by (simp_all add: acknowledge_def)

lemma reply_packet_simps [simp]:
  "seq (pack_header (reply_packet b c)) = htonl (seq (conn_header c))"
  "ack (pack_header (reply_packet b c)) = htonl (ack (conn_header c))"
  "conn_id (pack_header (reply_packet b c)) = htons (conn_id (conn_header c))"
  "flags (pack_header (reply_packet b c)) = htons (flags (conn_header c))"
  "packet_wf (reply_packet b c) = packet_wf b"
  by (simp_all add: reply_packet_def Let_def)

section \<open>The shape of the array\<close>

text \<open>A connection in use: its number is its place plus one, its file is the one named by it.\<close>

definition conn_taken :: "string \<Rightarrow> nat \<Rightarrow> connection_info \<Rightarrow> bool" where
  "conn_taken file_dir i c \<longleftrightarrow>
     conn_id (conn_header c) = of_nat (Suc i) \<and> sa_family (src_addr c) = AF_INET \<and>
     of_open (myfile c) \<in> {None, Some (file_path file_dir i)} \<and> is_FIN c \<in> {0, 1}"

definition conn_free :: "connection_info \<Rightarrow> bool" where
  "conn_free c \<longleftrightarrow>
     conn_id (conn_header c) = 0 \<and> src_addr c = no_addr \<and> addrlen c = 0 \<and> of_open (myfile c) = None \<and>
     is_FIN c \<in> {0, 1}"

text \<open>Exactly the first \<open>k\<close> connections are in use.\<close>

definition server_inv :: "string \<Rightarrow> nat \<Rightarrow> server \<Rightarrow> bool" where
  "server_inv file_dir k s \<longleftrightarrow>
     length (all_connection s) = 10 \<and> k \<le> 10 \<and>
     (\<forall>i < k. conn_taken file_dir i (all_connection s ! i)) \<and>
     (\<forall>i. k \<le> i \<and> i < 10 \<longrightarrow> conn_free (all_connection s ! i))"

lemma server_init_inv: "server_inv file_dir 0 (server_init fs)"
  by (simp add: server_inv_def server_init_def conn_free_def no_connection_def zero_packet_def ofstream_init_def)

lemma server_inv_taken: "server_inv file_dir k s \<Longrightarrow> i < k \<Longrightarrow> conn_taken file_dir i (all_connection s ! i)"
  by (simp add: server_inv_def)

lemma server_inv_free: "server_inv file_dir k s \<Longrightarrow> k \<le> i \<Longrightarrow> i < 10 \<Longrightarrow> conn_free (all_connection s ! i)"
  by (simp add: server_inv_def)

lemma server_inv_length [simp]: "server_inv file_dir k s \<Longrightarrow> length (all_connection s) = 10"
  by (simp add: server_inv_def)

lemma server_inv_le: "server_inv file_dir k s \<Longrightarrow> k \<le> 10"
  by (simp add: server_inv_def)

text \<open>Only the array matters to the invariant.\<close>

lemma server_inv_same: "all_connection t = all_connection s \<Longrightarrow> server_inv file_dir k t = server_inv file_dir k s"
  by (simp add: server_inv_def)

lemma server_inv_print [simp]: "server_inv file_dir k (print_line m b s) = server_inv file_dir k s"
  and server_inv_sendto [simp]: "server_inv file_dir k (sendto b c s) = server_inv file_dir k s"
  by (simp_all add: server_inv_def)

lemma server_inv_set_conn:
  assumes "server_inv file_dir k s" and "i < 10"
    and "i < k \<Longrightarrow> conn_taken file_dir i c" and "k \<le> i \<Longrightarrow> conn_free c"
  shows "server_inv file_dir k (set_conn i c s)"
  using assms by (auto simp: server_inv_def nth_list_update)

lemma file_path_inject: "file_path d i = file_path d j \<longleftrightarrow> i = j"
  by (simp add: file_path_def show_nat_inject)

text \<open>The number of a connection names it.\<close>

lemma of_nat_u16_inject: "m < 65536 \<Longrightarrow> n < 65536 \<Longrightarrow> (of_nat m :: u16) = of_nat n \<longleftrightarrow> m = n"
  by (simp add: word_of_nat_eq_iff take_bit_eq_mod)

lemma find_connection_taken:
  assumes "server_inv file_dir k s" and "i < k"
  shows "find_connection (of_nat (Suc i)) s = Some i"
  unfolding find_connection_def
proof (rule find_upt_least)
  show "i < 10" using assms server_inv_le by fastforce
  show "of_nat (Suc i) = conn_id (conn_header (all_connection s ! i))"
    using server_inv_taken [OF assms] by (simp add: conn_taken_def)
  fix j assume j: "j < i"
  then have "conn_id (conn_header (all_connection s ! j)) = of_nat (Suc j)"
    using server_inv_taken [OF assms(1), of j] assms(2) by (simp add: conn_taken_def)
  moreover have "(of_nat (Suc i) :: u16) \<noteq> of_nat (Suc j)"
    using j \<open>i < 10\<close> by (subst of_nat_u16_inject) auto
  ultimately show "\<not> of_nat (Suc i) = conn_id (conn_header (all_connection s ! j))" by simp
qed

lemma find_connection_zero:
  assumes "server_inv file_dir k s" and "k < 10"
  shows "find_connection 0 s = Some k"
  unfolding find_connection_def
proof (rule find_upt_least [OF assms(2)])
  show "0 = conn_id (conn_header (all_connection s ! k))"
    using server_inv_free [OF assms(1), of k] assms(2) by (simp add: conn_free_def)
  fix j assume j: "j < k"
  then have "conn_id (conn_header (all_connection s ! j)) = of_nat (Suc j)"
    using server_inv_taken [OF assms(1)] by (simp add: conn_taken_def)
  moreover have "(of_nat (Suc j) :: u16) \<noteq> of_nat 0"
    using j assms(2) by (subst of_nat_u16_inject) auto
  ultimately show "\<not> 0 = conn_id (conn_header (all_connection s ! j))" by simp
qed

lemma find_connection_bound:
  assumes "find_connection n s = Some i"
  shows "i < 10" and "conn_id (conn_header (all_connection s ! i)) = n"
  using find_in_set [OF assms [unfolded find_connection_def]] by auto

section \<open>What a datagram does\<close>

text \<open>A \<^verbatim>\<open>SYN\<close> is sent on to the client of each connection in use, in host order, and then takes the
  first free connection, if there is one.\<close>

definition bounce :: "packet \<Rightarrow> nat list \<Rightarrow> server \<Rightarrow> server" where
  "bounce buf is s = s\<lparr>server_sent := server_sent s @
     map (\<lambda>i. (packet_bytes buf, src_addr (all_connection s ! i), addrlen (all_connection s ! i))) is\<rparr>"

lemma bounce_simps [simp]:
  "all_connection (bounce b is s) = all_connection s" "client_addr (bounce b is s) = client_addr s"
  "client_addrlen (bounce b is s) = client_addrlen s" "server_files (bounce b is s) = server_files s"
  "server_sent (bounce b is s) = server_sent s @
     map (\<lambda>i. (packet_bytes b, src_addr (all_connection s ! i), addrlen (all_connection s ! i))) is"
  by (simp_all add: bounce_def)

lemma server_inv_bounce [simp]: "server_inv file_dir k (bounce b is s) = server_inv file_dir k s"
  by (simp add: server_inv_def)

lemma bounce_sendto: "bounce b is (sendto b (all_connection s ! i) s) = bounce b (i # is) s"
  by (simp add: bounce_def sendto_def)

lemma bounce_Nil [simp]: "bounce b [] s = s"
  by (simp add: bounce_def)

lemma syn_loop_from:
  assumes "server_inv file_dir k s" and "sa_family (client_addr s) = AF_INET" and "j \<le> k"
  shows "syn_loop can_open file_dir buf [j..<10] s =
    (if k < 10 then accept_connection can_open file_dir buf k (bounce buf [j..<k] s)
     else bounce buf [j..<k] s)"
  using assms
proof (induction "k - j" arbitrary: j s)
  case 0
  then have j: "j = k" and k: "k \<le> 10" by (simp_all add: server_inv_def)
  show ?case
  proof (cases "k < 10")
    case True
    have "conn_free (all_connection s ! k)" using server_inv_free [OF "0.prems"(1) _ True] by simp
    then show ?thesis
      using True j "0.prems"(2) by (simp add: upt_conv_Cons conn_free_def no_addr_def)
  qed (use j k in simp)
next
  case (Suc n)
  then have j: "j < k" and k: "k \<le> 10" by (auto simp: server_inv_def)
  let ?s = "sendto buf (all_connection s ! j) s"
  have "sa_family (src_addr (all_connection s ! j)) = AF_INET"
    using server_inv_taken [OF Suc.prems(1) j] by (simp add: conn_taken_def)
  then have "syn_loop can_open file_dir buf [j..<10] s = syn_loop can_open file_dir buf [Suc j..<10] ?s"
    using j k Suc.prems(2) by (simp add: upt_conv_Cons)
  also have "\<dots> = (if k < 10 then accept_connection can_open file_dir buf k (bounce buf [Suc j..<k] ?s)
     else bounce buf [Suc j..<k] ?s)"
    by (rule Suc.hyps) (use Suc j in auto)
  finally show ?case using j by (simp add: bounce_sendto upt_conv_Cons)
qed

lemma accept_connection_effect:
  fixes can_open :: "string \<Rightarrow> bool" and buf :: packet
  assumes "server_inv file_dir k s" and "k < 10" and "sa_family (client_addr s) = AF_INET"
  defines "s' \<equiv> accept_connection can_open file_dir buf k s"
  shows "server_inv file_dir (Suc k) s'"
    and "i \<noteq> k \<Longrightarrow> all_connection s' ! i = all_connection s ! i"
    and "conn_header (all_connection s' ! k) =
      \<lparr>seq = 4321, ack = seq (pack_header buf) + 1, conn_id = of_nat (Suc k), flags = SYN_ACK\<rparr>"
    and "src_addr (all_connection s' ! k) = client_addr s" and "addrlen (all_connection s' ! k) = client_addrlen s"
    and "is_FIN (all_connection s' ! k) = is_FIN (all_connection s ! k)"
    and "server_sent s' = server_sent s @
      [(packet_bytes (set_header buf 4321 (seq (pack_header buf) + 1) (of_nat (Suc k)) SYN_ACK),
        client_addr s, client_addrlen s)]"
    and "path \<noteq> file_path file_dir k \<Longrightarrow> server_files s' path = server_files s path"
    and "can_open (file_path file_dir k) \<Longrightarrow> server_files s' = (server_files s)(file_path file_dir k \<mapsto> []) \<and>
      myfile (all_connection s' ! k) = \<lparr>of_open = Some (file_path file_dir k), of_fail = False\<rparr>"
proof -
  have len: "length (all_connection s) = 10" using assms(1) by simp
  have free: "conn_free (all_connection s ! k)" using server_inv_free [OF assms(1) _ assms(2)] by simp
  note accept = s'_def accept_connection_def Let_def split_beta
  have hdr: "h\<lparr>flags := 6, ack := a, seq := 4321, conn_id := n\<rparr> =
      \<lparr>seq = 4321, ack = a, conn_id = n, flags = SYN_ACK\<rparr>" for h :: header and a n
    by (cases h) simp
  show sl: "i \<noteq> k \<Longrightarrow> all_connection s' ! i = all_connection s ! i" for i
    by (simp add: accept)
  show h: "conn_header (all_connection s' ! k) =
      \<lparr>seq = 4321, ack = seq (pack_header buf) + 1, conn_id = of_nat (Suc k), flags = SYN_ACK\<rparr>"
    using assms(2) len by (simp add: accept with_header_def hdr)
  show addr: "src_addr (all_connection s' ! k) = client_addr s"
    and "addrlen (all_connection s' ! k) = client_addrlen s"
    and fin: "is_FIN (all_connection s' ! k) = is_FIN (all_connection s ! k)"
    using assms(2) len by (simp_all add: accept)
  show "server_sent s' = server_sent s @
      [(packet_bytes (set_header buf 4321 (seq (pack_header buf) + 1) (of_nat (Suc k)) SYN_ACK),
        client_addr s, client_addrlen s)]"
    by (simp add: accept reply_packet_def)
  show "path \<noteq> file_path file_dir k \<Longrightarrow> server_files s' path = server_files s path"
    by (simp add: accept ofstream_open_other)
  show "can_open (file_path file_dir k) \<Longrightarrow> server_files s' = (server_files s)(file_path file_dir k \<mapsto> []) \<and>
      myfile (all_connection s' ! k) = \<lparr>of_open = Some (file_path file_dir k), of_fail = False\<rparr>"
    using free assms(2) len by (simp add: accept conn_free_def ofstream_open_fresh)
  have "of_open (myfile (all_connection s' ! k)) \<in> {None, Some (file_path file_dir k)}"
    using free assms(2) len by (simp add: accept conn_free_def ofstream_open_def)
  with free h addr fin assms(3) have "conn_taken file_dir k (all_connection s' ! k)"
    by (simp add: conn_taken_def conn_free_def)
  moreover have "length (all_connection s') = 10" using len by (simp add: accept)
  ultimately show "server_inv file_dir (Suc k) s'"
    using assms(1,2) sl by (auto simp: server_inv_def less_Suc_eq)
qed

text \<open>Data: the fields of the connection that stay.\<close>

lemma receive_data_simps:
  "conn_id (conn_header (fst (receive_data buf n c s))) = conn_id (conn_header c)"
  "src_addr (fst (receive_data buf n c s)) = src_addr c" "addrlen (fst (receive_data buf n c s)) = addrlen c"
  "is_FIN (fst (receive_data buf n c s)) = is_FIN c"
  "of_open (myfile (fst (receive_data buf n c s))) = of_open (myfile c)"
  "all_connection (snd (receive_data buf n c s)) = all_connection s"
  "server_sent (snd (receive_data buf n c s)) = server_sent s"
  "client_addr (snd (receive_data buf n c s)) = client_addr s"
  by (simp_all add: receive_data_def Let_def split_beta)

lemma receive_data_files:
  "of_open (myfile c) \<noteq> Some path \<Longrightarrow> server_files (snd (receive_data buf n c s)) path = server_files s path"
  by (simp add: receive_data_def Let_def split_beta ofstream_write_other)

lemma conn_shape_cong:
  assumes "conn_id (conn_header d) = conn_id (conn_header c)" and "src_addr d = src_addr c"
    and "addrlen d = addrlen c" and "of_open (myfile d) \<in> {None, of_open (myfile c)}" and "is_FIN d \<in> {is_FIN c, 1}"
  shows "conn_taken file_dir i c \<Longrightarrow> conn_taken file_dir i d" and "conn_free c \<Longrightarrow> conn_free d"
proof -
  have o: "of_open (myfile d) = None \<or> of_open (myfile d) = of_open (myfile c)" using assms(4) by simp
  have f: "is_FIN d = is_FIN c \<or> is_FIN d = 1" using assms(5) by simp
  show "conn_taken file_dir i c \<Longrightarrow> conn_taken file_dir i d"
    unfolding conn_taken_def assms(1-3) using o f by (elim disjE) simp_all
  show "conn_free c \<Longrightarrow> conn_free d"
    unfolding conn_free_def assms(1-3) using o f by (elim disjE) simp_all
qed

lemma server_inv_update:
  assumes "server_inv file_dir k s" and "i < 10"
    and "conn_id (conn_header d) = conn_id (conn_header (all_connection s ! i))"
    and "src_addr d = src_addr (all_connection s ! i)" and "addrlen d = addrlen (all_connection s ! i)"
    and "of_open (myfile d) \<in> {None, of_open (myfile (all_connection s ! i))}"
    and "is_FIN d \<in> {is_FIN (all_connection s ! i), 1}"
  shows "server_inv file_dir k (set_conn i d s)"
proof (rule server_inv_set_conn [OF assms(1,2)])
  show "i < k \<Longrightarrow> conn_taken file_dir i d"
    by (rule conn_shape_cong(1) [OF assms(3-7) server_inv_taken [OF assms(1)]])
  show "k \<le> i \<Longrightarrow> conn_free d"
    by (rule conn_shape_cong(2) [OF assms(3-7) server_inv_free [OF assms(1) _ assms(2)]])
qed

lemma handle_data_inv: "server_inv file_dir k s \<Longrightarrow> server_inv file_dir k (handle_data buf n s)"
proof (cases "find_connection (conn_id (pack_header buf)) s")
  case (Some i)
  assume inv: "server_inv file_dir k s"
  note i = find_connection_bound [OF Some]
  let ?c = "all_connection s ! i"
  let ?r = "receive_data buf n ?c s"
  have "server_inv file_dir k (snd ?r)" using inv by (simp only: server_inv_same [OF receive_data_simps(6)])
  then have "server_inv file_dir k (set_conn i (with_header (\<lambda>h. h\<lparr>flags := 4\<rparr>) (fst ?r)) (snd ?r))"
    by (rule server_inv_update) (use i in \<open>simp_all add: receive_data_simps\<close>)
  moreover have "server_inv file_dir k (set_conn i (?c\<lparr>myfile := ofstream_close (myfile ?c)\<rparr>) s)"
    by (rule server_inv_update [OF inv i(1)]) simp_all
  ultimately show ?thesis using Some by (simp add: handle_data_def Let_def split_beta)
qed (simp add: handle_data_def)

lemma handle_fin_inv: "server_inv file_dir k s \<Longrightarrow> server_inv file_dir k (handle_fin buf s)"
proof (cases "find_connection (conn_id (pack_header buf)) s")
  case (Some i)
  assume inv: "server_inv file_dir k s"
  note i = find_connection_bound(1) [OF Some]
  let ?c = "all_connection s ! i"
  let ?d = "with_header (\<lambda>h. h\<lparr>flags := 4\<rparr>)
    (if seq (pack_header buf) = ack (conn_header ?c) then with_header (\<lambda>h. h\<lparr>ack := ack h + 1\<rparr>) ?c else ?c)"
  have "server_inv file_dir k (set_conn i ?d s)"
    by (rule server_inv_update [OF inv i]) simp_all
  then have "server_inv file_dir k (set_conn i (?d\<lparr>is_FIN := 1\<rparr>) (set_conn i ?d s))"
    by (rule server_inv_update) (use i inv in simp_all)
  then have "server_inv file_dir k (set_conn i (?d\<lparr>is_FIN := 1\<rparr>)
      (print_line m q (sendto q' c (print_line m' r (sendto r' c' (set_conn i ?d s))))))" for m q q' c m' r r' c'
    by (simp add: server_inv_def)
  then show ?thesis using Some by (simp add: handle_fin_def Let_def)
qed (simp add: handle_fin_def)

text \<open>The number of connections in use after a datagram.\<close>

definition inet_event :: "recv_event \<Rightarrow> bool" where
  "inet_event ev = (case ev of Datagram d addr len \<Rightarrow> sa_family addr = AF_INET | RecvError \<Rightarrow> True)"

definition event_packet :: "recv_event \<Rightarrow> packet" where
  "event_packet ev = ntoh_reorder (case ev of Datagram d addr len \<Rightarrow> recv_into d zero_packet | RecvError \<Rightarrow> zero_packet)"

definition event_count :: "recv_event \<Rightarrow> int" where
  "event_count ev = (case ev of Datagram d addr len \<Rightarrow> int (recv_count d) | RecvError \<Rightarrow> - 1)"

declare serve_one.simps [simp del]

text \<open>The server when it starts on the packet: the address taken over, the packet printed.\<close>

definition event_state :: "recv_event \<Rightarrow> server \<Rightarrow> server" where
  "event_state ev s = print_line ''RECV'' (event_packet ev)
     (case ev of Datagram d addr len \<Rightarrow> s\<lparr>client_addr := addr, client_addrlen := len\<rparr> | RecvError \<Rightarrow> s)"

lemma serve_one_cases:
  "serve_one can_open file_dir ev s =
     (let buf = event_packet ev; f = flags (pack_header buf); t = event_state ev s in
      if f = SYN then syn_loop can_open file_dir buf [0..<10] t
      else if f = ACK \<or> f = 0 then handle_data buf (event_count ev) t
      else if f = FIN then handle_fin buf t
      else t)"
  by (cases ev) (simp_all add: serve_one.simps dispatch_def event_packet_def event_count_def event_state_def Let_def)

lemma event_state_simps [simp]:
  "all_connection (event_state ev s) = all_connection s" "server_files (event_state ev s) = server_files s"
  "server_sent (event_state ev s) = server_sent s"
  by (cases ev; simp add: event_state_def)+

lemma event_state_inv [simp]: "server_inv file_dir k (event_state ev s) = server_inv file_dir k s"
  by (rule server_inv_same) simp

lemma flags_zero_packet [simp]: "flags (pack_header zero_packet) = 0"
  by (simp add: zero_packet_def)

lemma htons_0 [simp]: "htons 0 = 0"
  by (simp add: htons_def)

lemma event_family:
  "inet_event ev \<Longrightarrow> flags (pack_header (event_packet ev)) = SYN \<Longrightarrow>
   sa_family (client_addr (event_state ev s)) = AF_INET"
  by (cases ev) (simp_all add: inet_event_def event_packet_def event_state_def)

definition taken_after :: "recv_event \<Rightarrow> nat \<Rightarrow> nat" where
  "taken_after ev k = (if flags (pack_header (event_packet ev)) = SYN \<and> k < 10 then Suc k else k)"

lemma serve_one_inv:
  assumes "server_inv file_dir k s" and "inet_event ev"
  shows "server_inv file_dir (taken_after ev k) (serve_one can_open file_dir ev s)"
proof -
  let ?t = "event_state ev s"
  let ?b = "event_packet ev"
  have t: "server_inv file_dir k ?t" using assms(1) by simp
  show ?thesis
  proof (cases "flags (pack_header ?b) = SYN")
    case True
    have fam: "sa_family (client_addr ?t) = AF_INET" by (rule event_family [OF assms(2) True])
    have b: "server_inv file_dir k (bounce ?b [0..<k] ?t)" using t by simp
    have "server_inv file_dir (Suc k) (accept_connection can_open file_dir ?b k (bounce ?b [0..<k] ?t))" if "k < 10"
      by (rule accept_connection_effect(1) [OF b that]) (use fam in simp)
    with True b syn_loop_from [OF t fam, of 0] show ?thesis
      by (simp add: serve_one_cases taken_after_def Let_def)
  next
    case False
    with handle_data_inv [OF t] handle_fin_inv [OF t] t show ?thesis
      by (simp add: serve_one_cases taken_after_def Let_def)
  qed
qed

lemma taken_after_mono: "k \<le> taken_after ev k"
  by (simp add: taken_after_def)

text \<open>So the array has its shape in every state the server can get into.\<close>

interpretation server: stable_system "\<lambda>ev s t. t = serve_one can_open file_dir ev s" "\<lambda>ev s. inet_event ev"
    "\<lambda>s. \<exists>k. server_inv file_dir k s" for can_open file_dir
  by unfold_locales (use serve_one_inv in blast)+

lemma serve_is_run:
  "\<forall>ev \<in> set evs. inet_event ev \<Longrightarrow> server.run can_open file_dir s evs (serve can_open file_dir evs s)"
  by (induction evs arbitrary: s) (auto intro: server.run_Nil server.run_Cons)

lemma serve_inv:
  "\<forall>ev \<in> set evs. inet_event ev \<Longrightarrow> \<exists>k. server_inv file_dir k (serve can_open file_dir evs (server_init fs))"
  using server.run_good [OF serve_is_run] server_init_inv by blast

section \<open>One connection\<close>

text \<open>The file of a connection can only be changed through that connection.\<close>

lemma other_file:
  assumes "server_inv file_dir k s" and "j < 10" and "j \<noteq> i"
  shows "of_open (myfile (all_connection s ! j)) \<noteq> Some (file_path file_dir i)"
proof (cases "j < k")
  case True
  then show ?thesis
    using server_inv_taken [OF assms(1) True] assms(3) by (auto simp: conn_taken_def file_path_inject)
next
  case False
  then show ?thesis
    using server_inv_free [OF assms(1) _ assms(2)] by (simp add: conn_free_def)
qed

lemma handle_data_other:
  assumes "server_inv file_dir k s" and "find_connection (conn_id (pack_header buf)) s \<noteq> Some i"
  shows "all_connection (handle_data buf n s) ! i = all_connection s ! i"
    and "server_files (handle_data buf n s) (file_path file_dir i) = server_files s (file_path file_dir i)"
proof -
  have "all_connection (handle_data buf n s) ! i = all_connection s ! i \<and>
    server_files (handle_data buf n s) (file_path file_dir i) = server_files s (file_path file_dir i)"
  proof (cases "find_connection (conn_id (pack_header buf)) s")
    case (Some j)
    then have "j \<noteq> i" and "j < 10" using assms(2) find_connection_bound by auto
    with other_file [OF assms(1)] Some show ?thesis
      by (simp add: handle_data_def Let_def split_beta receive_data_simps receive_data_files)
  qed (simp add: handle_data_def)
  then show "all_connection (handle_data buf n s) ! i = all_connection s ! i"
    and "server_files (handle_data buf n s) (file_path file_dir i) = server_files s (file_path file_dir i)" by auto
qed

lemma handle_fin_other:
  assumes "find_connection (conn_id (pack_header buf)) s \<noteq> Some i"
  shows "all_connection (handle_fin buf s) ! i = all_connection s ! i"
  using assms by (auto simp: handle_fin_def Let_def split: option.split)

lemma handle_fin_files [simp]: "server_files (handle_fin buf s) = server_files s"
  by (simp add: handle_fin_def Let_def split: option.split)

lemma serve_syn:
  assumes "server_inv file_dir k s" and "inet_event ev" and "flags (pack_header (event_packet ev)) = SYN"
  shows "serve_one can_open file_dir ev s =
    (let t = bounce (event_packet ev) [0..<k] (event_state ev s)
     in if k < 10 then accept_connection can_open file_dir (event_packet ev) k t else t)"
proof -
  have t: "server_inv file_dir k (event_state ev s)" using assms(1) by simp
  show ?thesis
    using syn_loop_from [OF t event_family [OF assms(2,3)], of 0] assms(3) by (simp add: serve_one_cases Let_def)
qed

lemma serve_one_other:
  assumes "server_inv file_dir k s" and "i < k" and "inet_event ev"
    and "flags (pack_header (event_packet ev)) = SYN \<or> conn_id (pack_header (event_packet ev)) \<noteq> of_nat (Suc i) \<or>
      flags (pack_header (event_packet ev)) \<notin> {0, ACK, FIN}"
  shows "all_connection (serve_one can_open file_dir ev s) ! i = all_connection s ! i"
    and "server_files (serve_one can_open file_dir ev s) (file_path file_dir i) = server_files s (file_path file_dir i)"
proof -
  let ?b = "event_packet ev" and ?t = "event_state ev s"
  have t: "server_inv file_dir k ?t" using assms(1) by simp
  have i: "i < 10" using assms(2) server_inv_le [OF assms(1)] by simp
  have "all_connection (serve_one can_open file_dir ev s) ! i = all_connection s ! i \<and>
    server_files (serve_one can_open file_dir ev s) (file_path file_dir i) = server_files s (file_path file_dir i)"
  proof (cases "flags (pack_header ?b) = SYN")
    case True
    have b: "server_inv file_dir k (bounce ?b [0..<k] ?t)" using t by simp
    have "sa_family (client_addr (bounce ?b [0..<k] ?t)) = AF_INET" using event_family [OF assms(3) True] by simp
    from accept_connection_effect(2,8) [OF b _ this] assms(2) show ?thesis
      by (simp add: serve_syn [OF assms(1,3) True] Let_def file_path_inject)
  next
    case False
    show ?thesis
    proof (cases "conn_id (pack_header ?b) = of_nat (Suc i)")
      case True
      then show ?thesis using assms(4) False by (auto simp: serve_one_cases Let_def)
    next
      case neq: False
      have "find_connection (conn_id (pack_header ?b)) ?t \<noteq> Some i"
        using find_connection_bound(2) [of "conn_id (pack_header ?b)" ?t i] neq server_inv_taken [OF assms(1,2)]
        by (auto simp: conn_taken_def)
      with False handle_data_other [OF t this] handle_fin_other [OF this] show ?thesis
        by (simp add: serve_one_cases Let_def)
    qed
  qed
  then show "all_connection (serve_one can_open file_dir ev s) ! i = all_connection s ! i"
    and "server_files (serve_one can_open file_dir ev s) (file_path file_dir i) = server_files s (file_path file_dir i)"
    by auto
qed

text \<open>Data for connection \<open>i\<close>, while it is open.\<close>

definition stored_file :: "string \<Rightarrow> nat \<Rightarrow> server \<Rightarrow> buffer" where
  "stored_file file_dir i s = the (server_files s (file_path file_dir i))"

definition conn_closed :: "nat \<Rightarrow> server \<Rightarrow> bool" where
  "conn_closed i s \<longleftrightarrow> is_FIN (all_connection s ! i) = 1"

definition expected_seq :: "nat \<Rightarrow> server \<Rightarrow> u32" where
  "expected_seq i s = ack (conn_header (all_connection s ! i))"

definition conn_valid :: "string \<Rightarrow> nat \<Rightarrow> server \<Rightarrow> bool" where
  "conn_valid file_dir i s \<longleftrightarrow>
     (\<exists>k. server_inv file_dir k s \<and> i < k) \<and>
     (\<not> conn_closed i s \<longrightarrow> myfile (all_connection s ! i) = \<lparr>of_open = Some (file_path file_dir i), of_fail = False\<rparr>) \<and>
     server_files s (file_path file_dir i) \<noteq> None"

definition segment_for :: "nat \<Rightarrow> recv_event \<Rightarrow> (u32 \<times> buffer) option" where
  "segment_for i ev =
     (let h = pack_header (event_packet ev) in
      if conn_id h = of_nat (Suc i) \<and> flags h \<in> {0, ACK}
      then Some (seq h, take (nat (event_count ev - 12)) (data (event_packet ev))) else None)"

text \<open>Events from the socket; a datagram that counts as data has at least a whole header.\<close>

definition conn_event :: "nat \<Rightarrow> recv_event \<Rightarrow> bool" where
  "conn_event i ev \<longleftrightarrow> inet_event ev \<and> (segment_for i ev \<noteq> None \<longrightarrow> 12 \<le> event_count ev)"

lemma word_of_int_count:
  assumes "12 \<le> event_count ev"
  shows "(word_of_int (event_count ev - 12) :: u32) =
    of_nat (length (take (nat (event_count ev - 12)) (data (event_packet ev))))"
proof -
  have "length (data (event_packet ev)) = data_size"
    using recv_into_wf [OF zero_packet_wf] zero_packet_wf
    by (cases ev) (simp_all add: event_packet_def packet_wf_def)
  moreover have "event_count ev \<le> 524" by (cases ev) (simp_all add: event_count_def recv_count_def)
  ultimately have "length (take (nat (event_count ev - 12)) (data (event_packet ev))) = nat (event_count ev - 12)"
    by simp
  then show ?thesis using assms by (simp add: of_nat_nat)
qed

lemma handle_data_here:
  assumes "server_inv file_dir k s" and "i < k" and "conn_id (pack_header buf) = of_nat (Suc i)"
    and "is_FIN (all_connection s ! i) \<noteq> 1"
  shows "all_connection (handle_data buf n s) ! i =
      with_header (\<lambda>h. h\<lparr>flags := 4\<rparr>) (fst (receive_data buf n (all_connection s ! i) s))"
    and "server_files (handle_data buf n s) = server_files (snd (receive_data buf n (all_connection s ! i) s))"
    and "server_sent (handle_data buf n s) = server_sent s @
      [(packet_bytes (reply_packet buf (all_connection (handle_data buf n s) ! i)),
        src_addr (all_connection s ! i), addrlen (all_connection s ! i))]"
proof -
  have "i < length (all_connection s)" using assms(2) server_inv_le [OF assms(1)] server_inv_length [OF assms(1)] by simp
  moreover have "find_connection (conn_id (pack_header buf)) s = Some i"
    using find_connection_taken [OF assms(1,2)] assms(3) by simp
  ultimately show "all_connection (handle_data buf n s) ! i =
      with_header (\<lambda>h. h\<lparr>flags := 4\<rparr>) (fst (receive_data buf n (all_connection s ! i) s))"
    and "server_files (handle_data buf n s) = server_files (snd (receive_data buf n (all_connection s ! i) s))"
    and "server_sent (handle_data buf n s) = server_sent s @
      [(packet_bytes (reply_packet buf (all_connection (handle_data buf n s) ! i)),
        src_addr (all_connection s ! i), addrlen (all_connection s ! i))]"
    using assms(4) by (simp_all add: handle_data_def Let_def split_beta receive_data_simps)
qed

lemma handle_fin_here:
  assumes "server_inv file_dir k s" and "i < k" and "conn_id (pack_header buf) = of_nat (Suc i)"
  shows "is_FIN (all_connection (handle_fin buf s) ! i) = 1"
    and "myfile (all_connection (handle_fin buf s) ! i) = myfile (all_connection s ! i)"
proof -
  have "i < length (all_connection s)" using assms(2) server_inv_le [OF assms(1)] server_inv_length [OF assms(1)] by simp
  moreover have "find_connection (conn_id (pack_header buf)) s = Some i"
    using find_connection_taken [OF assms(1,2)] assms(3) by simp
  ultimately show "is_FIN (all_connection (handle_fin buf s) ! i) = 1"
    and "myfile (all_connection (handle_fin buf s) ! i) = myfile (all_connection s ! i)"
    by (simp_all add: handle_fin_def Let_def)
qed

lemma closed_ignores_data:
  assumes "server_inv file_dir k s" and "i < k" and "conn_id (pack_header buf) = of_nat (Suc i)"
    and "is_FIN (all_connection s ! i) = 1"
  shows "is_FIN (all_connection (handle_data buf n s) ! i) = 1" and "server_files (handle_data buf n s) = server_files s"
    and "server_sent (handle_data buf n s) = server_sent s"
proof -
  have "i < length (all_connection s)" using assms(2) server_inv_le [OF assms(1)] server_inv_length [OF assms(1)] by simp
  moreover have "find_connection (conn_id (pack_header buf)) s = Some i"
    using find_connection_taken [OF assms(1,2)] assms(3) by simp
  ultimately show "is_FIN (all_connection (handle_data buf n s) ! i) = 1" and
      "server_files (handle_data buf n s) = server_files s" and "server_sent (handle_data buf n s) = server_sent s"
    using assms(4) by (simp_all add: handle_data_def Let_def)
qed

text \<open>What an event does to connection \<open>i\<close>, by what the event is for it.\<close>

lemma serve_data:
  fixes can_open :: "string \<Rightarrow> bool"
  assumes "conn_valid file_dir i s" and "conn_event i ev" and "segment_for i ev = Some (q, b)"
    and "\<not> conn_closed i s"
  defines "s' \<equiv> serve_one can_open file_dir ev s"
  shows "conn_valid file_dir i s' \<and> \<not> conn_closed i s' \<and>
    (if q = expected_seq i s
     then expected_seq i s' = (expected_seq i s + of_nat (length b)) mod 102401 \<and>
       stored_file file_dir i s' = stored_file file_dir i s @ b
     else expected_seq i s' = expected_seq i s \<and> stored_file file_dir i s' = stored_file file_dir i s)"
proof -
  obtain k where inv: "server_inv file_dir k s" "i < k" using assms(1) by (auto simp: conn_valid_def)
  let ?b = "event_packet ev" and ?t = "event_state ev s" and ?c = "all_connection s ! i"
  let ?n = "event_count ev"
  obtain f where f: "server_files s (file_path file_dir i) = Some f" using assms(1) by (auto simp: conn_valid_def)
  have open_c: "myfile ?c = \<lparr>of_open = Some (file_path file_dir i), of_fail = False\<rparr>"
    using assms(1,4) by (simp add: conn_valid_def)
  have n: "12 \<le> ?n" and ev: "inet_event ev" using assms(2,3) by (auto simp: conn_event_def)
  have seg: "conn_id (pack_header ?b) = of_nat (Suc i)" "flags (pack_header ?b) \<in> {0, ACK}"
      "q = seq (pack_header ?b)" "b = take (nat (?n - 12)) (data ?b)"
    using assms(3) by (auto simp: segment_for_def Let_def split: if_splits)
  then have s': "s' = handle_data ?b ?n ?t" by (auto simp: s'_def serve_one_cases Let_def)
  have t: "server_inv file_dir k ?t" using inv by simp
  have fin: "is_FIN (all_connection ?t ! i) \<noteq> 1" using assms(4) by (simp add: conn_closed_def)
  note here = handle_data_here [OF t inv(2) seg(1) fin, of ?n]
  have fin': "\<not> conn_closed i s'" using fin by (simp add: s' conn_closed_def here(1) receive_data_simps)
  have w: "ofstream_write (data ?b) (?n - 12) (myfile ?c, server_files s) =
      (myfile ?c, (server_files s)(file_path file_dir i \<mapsto> f @ b))"
    using ofstream_write_good [of "myfile ?c" "file_path file_dir i" "server_files s" f "data ?b" "nat (?n - 12)"]
      open_c f n seg(4) by simp
  have "server_inv file_dir k s'" using handle_data_inv [OF t] by (simp add: s')
  moreover have "myfile (all_connection s' ! i) = myfile ?c"
    by (simp add: s' here(1) receive_data_def Let_def w)
  moreover have "server_files s' (file_path file_dir i) =
      Some (if q = expected_seq i s then f @ b else f)"
    using seg(3) by (simp add: s' here(2) receive_data_def Let_def w expected_seq_def f)
  moreover have "expected_seq i s' = (if q = expected_seq i s
      then (expected_seq i s + of_nat (length b)) mod 102401 else expected_seq i s)"
    using seg(3) word_of_int_count [OF n] seg(4)
    by (simp add: s' expected_seq_def here(1) receive_data_def Let_def split_beta)
  ultimately show ?thesis
    using fin' inv(2) open_c f by (auto simp: conn_valid_def stored_file_def)
qed

lemma serve_not_data:
  fixes can_open :: "string \<Rightarrow> bool"
  assumes "conn_valid file_dir i s" and "conn_event i ev" and "segment_for i ev = None"
  defines "s' \<equiv> serve_one can_open file_dir ev s"
  shows "conn_valid file_dir i s' \<and> stored_file file_dir i s' = stored_file file_dir i s \<and>
    (conn_closed i s \<longrightarrow> conn_closed i s') \<and> (conn_closed i s' \<or> expected_seq i s' = expected_seq i s)"
proof -
  obtain k where inv: "server_inv file_dir k s" "i < k" using assms(1) by (auto simp: conn_valid_def)
  let ?b = "event_packet ev" and ?t = "event_state ev s"
  have t: "server_inv file_dir k ?t" using inv by simp
  have ev: "inet_event ev" using assms(2) by (simp add: conn_event_def)
  have inv': "\<exists>k. server_inv file_dir k s' \<and> i < k"
    using serve_one_inv [OF inv(1) ev] taken_after_mono [of k ev] inv(2) unfolding s'_def
    by (meson order_less_le_trans)
  show ?thesis
  proof (cases "conn_id (pack_header ?b) = of_nat (Suc i) \<and> flags (pack_header ?b) = FIN")
    case True
    then have "s' = handle_fin ?b ?t" by (simp add: s'_def serve_one_cases Let_def)
    moreover have "is_FIN (all_connection (handle_fin ?b ?t) ! i) = 1"
      using handle_fin_here(1) [OF t inv(2)] True by blast
    ultimately show ?thesis
      using assms(1) inv' by (auto simp: conn_valid_def conn_closed_def stored_file_def)
  next
    case False
    then have "flags (pack_header ?b) = SYN \<or> conn_id (pack_header ?b) \<noteq> of_nat (Suc i) \<or>
        flags (pack_header ?b) \<notin> {0, ACK, FIN}"
      using assms(3) by (auto simp: segment_for_def Let_def split: if_splits)
    note other = serve_one_other [OF inv ev this, of can_open]
    show ?thesis
      using assms(1) inv' other
      by (auto simp: s'_def conn_valid_def conn_closed_def stored_file_def expected_seq_def)
  qed
qed

lemma serve_closed:
  fixes can_open :: "string \<Rightarrow> bool"
  assumes "conn_valid file_dir i s" and "conn_event i ev" and "conn_closed i s"
  defines "s' \<equiv> serve_one can_open file_dir ev s"
  shows "conn_valid file_dir i s' \<and> conn_closed i s' \<and> stored_file file_dir i s' = stored_file file_dir i s"
proof (cases "segment_for i ev")
  case None
  then show ?thesis using serve_not_data [OF assms(1,2), of can_open] assms(3) by (simp add: s'_def)
next
  case (Some x)
  obtain k where inv: "server_inv file_dir k s" "i < k" using assms(1) by (auto simp: conn_valid_def)
  let ?b = "event_packet ev" and ?t = "event_state ev s"
  have t: "server_inv file_dir k ?t" using inv by simp
  have seg: "conn_id (pack_header ?b) = of_nat (Suc i)" "flags (pack_header ?b) \<in> {0, ACK}"
    using Some by (auto simp: segment_for_def Let_def split: if_splits)
  then have s': "s' = handle_data ?b (event_count ev) ?t" by (auto simp: s'_def serve_one_cases Let_def)
  have "is_FIN (all_connection ?t ! i) = 1" using assms(3) by (simp add: conn_closed_def)
  note ign = closed_ignores_data [OF t inv(2) seg(1) this, of "event_count ev"]
  have "server_inv file_dir k s'" using handle_data_inv [OF t] by (simp add: s')
  then show ?thesis
    using ign inv(2) assms(1) by (auto simp: s' conn_valid_def conn_closed_def stored_file_def)
qed

interpretation gbn: in_order_receiver "serve_one can_open file_dir" "conn_event i" "segment_for i"
    "conn_valid file_dir i" "conn_closed i" "expected_seq i" "stored_file file_dir i" for can_open file_dir i
proof
  fix s e
  assume v: "conn_valid file_dir i s" "conn_event i e"
  show "conn_valid file_dir i (serve_one can_open file_dir e s)"
  proof (cases "segment_for i e")
    case (Some x)
    then show ?thesis
      using serve_closed [OF v, of can_open] serve_data [OF v, of "fst x" "snd x" can_open] by (cases "conn_closed i s") auto
  qed (use serve_not_data [OF v, of can_open] in simp)
  show "conn_closed i s \<Longrightarrow> conn_closed i (serve_one can_open file_dir e s) \<and>
      stored_file file_dir i (serve_one can_open file_dir e s) = stored_file file_dir i s"
    using serve_closed [OF v, of can_open] by blast
  show "\<not> conn_closed i s \<Longrightarrow> segment_for i e = None \<Longrightarrow>
      stored_file file_dir i (serve_one can_open file_dir e s) = stored_file file_dir i s \<and>
      (conn_closed i (serve_one can_open file_dir e s) \<or>
       expected_seq i (serve_one can_open file_dir e s) = expected_seq i s)"
    using serve_not_data [OF v, of can_open] by blast
  fix q b
  show "\<not> conn_closed i s \<Longrightarrow> segment_for i e = Some (expected_seq i s, b) \<Longrightarrow>
      \<not> conn_closed i (serve_one can_open file_dir e s) \<and>
      expected_seq i (serve_one can_open file_dir e s) = (expected_seq i s + of_nat (length b)) mod 102401 \<and>
      stored_file file_dir i (serve_one can_open file_dir e s) = stored_file file_dir i s @ b"
    using serve_data [OF v, of "expected_seq i s" b can_open] by simp
  show "\<not> conn_closed i s \<Longrightarrow> segment_for i e = Some (q, b) \<Longrightarrow> q \<noteq> expected_seq i s \<Longrightarrow>
      \<not> conn_closed i (serve_one can_open file_dir e s) \<and>
      expected_seq i (serve_one can_open file_dir e s) = expected_seq i s \<and>
      stored_file file_dir i (serve_one can_open file_dir e s) = stored_file file_dir i s"
    using serve_data [OF v, of q b can_open] by simp
qed

end
