(* ===== verification/ConfundoTransfer.thy ===== *)
theory ConfundoTransfer
  imports ConfundoClient ConfundoServer
begin

text \<open>
  The two programs together. The network may lose, repeat, delay and reorder datagrams: a
  datagram that was ever sent may arrive at any time, any number of times. \<open>reaches\<close> are the
  states of a client in its transfer and of the server that talks to it, starting from a pair of
  states; other clients may talk to the server as well, as long as they do not use the
  connection of this one.

  The invariant: the server's file is a prefix of the client's, each acknowledgement on the way
  to the client names a place of that prefix, and a client that has read its whole file and has
  an empty log was told that all of it arrived. It holds for files of at most 90054 bytes, for
  which the sequence numbers do not wrap.
\<close>

section \<open>The system\<close>

text \<open>A reply, if there is one, is a datagram that the server sent to the address of the client.\<close>

definition reply_from :: "sockaddr \<Rightarrow> server \<Rightarrow> buffer option \<Rightarrow> bool" where
  "reply_from A s reply \<longleftrightarrow> (\<forall>d. reply = Some d \<longrightarrow> (\<exists>l. (d, A, l) \<in> set (server_sent s)))"

text \<open>
  What others may send: a \<^verbatim>\<open>SYN\<close> as the client program makes it (its acknowledgement number is
  zero; one from the address of this client is its own), and packets for connections that are
  neither this one nor belong to the same address.
\<close>

definition foreign :: "nat \<Rightarrow> sockaddr \<Rightarrow> server \<Rightarrow> recv_event \<Rightarrow> bool" where
  "foreign i A s ev \<longleftrightarrow>
     (let h = pack_header (event_packet ev) in
      inet_event ev \<and>
      (if flags h = SYN then ack h = 0 \<and> (client_addr (event_state ev s) = A \<longrightarrow> seq h = 12345)
       else conn_id h \<noteq> of_nat (Suc i) \<and>
         (\<forall>j < 10. conn_id (conn_header (all_connection s ! j)) = conn_id h \<longrightarrow> src_addr (all_connection s ! j) \<noteq> A)))"

inductive reaches ::
  "(string \<Rightarrow> bool) \<Rightarrow> string \<Rightarrow> nat \<Rightarrow> sockaddr \<Rightarrow> sending \<Rightarrow> server \<Rightarrow> sending \<Rightarrow> server \<Rightarrow> bool"
  for can_open file_dir i A c\<^sub>0 s\<^sub>0 where
  start: "reaches can_open file_dir i A c\<^sub>0 s\<^sub>0 c\<^sub>0 s\<^sub>0"
| pass: "reaches can_open file_dir i A c\<^sub>0 s\<^sub>0 c s \<Longrightarrow> reply_from A s reply \<Longrightarrow>
    transfer_pass clk reply c = Next c' \<Longrightarrow> reaches can_open file_dir i A c\<^sub>0 s\<^sub>0 c' s"
| deliver: "reaches can_open file_dir i A c\<^sub>0 s\<^sub>0 c s \<Longrightarrow> d \<in> set (client_sent c) \<Longrightarrow>
    reaches can_open file_dir i A c\<^sub>0 s\<^sub>0 c (serve_one can_open file_dir (Datagram d A 16) s)"
| other: "reaches can_open file_dir i A c\<^sub>0 s\<^sub>0 c s \<Longrightarrow> foreign i A s ev \<Longrightarrow>
    reaches can_open file_dir i A c\<^sub>0 s\<^sub>0 c (serve_one can_open file_dir ev s)"

section \<open>Datagrams\<close>

text \<open>The acknowledgement number a client reads in a reply.\<close>

definition ack_of :: "buffer \<Rightarrow> u32" where
  "ack_of d = ntohl (ack (pack_header (packet_of_bytes d)))"

lemma ack_of_packet [simp]: "ack_of (packet_bytes p) = ntohl (ack (pack_header p))"
  by (simp add: ack_of_def packet_of_bytes_packet)

lemma ack_of_recv:
  assumes "length d = packet_size" and "packet_wf old"
  shows "ntohl (ack (pack_header (recv_into d old))) = ack_of d"
  using assms by (simp add: recv_into_def ack_of_def put_def length_packet_bytes)

definition syn_datagram :: buffer where
  "syn_datagram = packet_bytes (set_header zero_packet 12345 0 0 SYN)"

lemma event_packet_wf [simp]: "packet_wf (event_packet ev)"
  by (cases ev) (simp_all add: event_packet_def recv_into_wf)

lemma event_syn_datagram:
  "event_packet (Datagram syn_datagram A l) = zero_packet\<lparr>pack_header := \<lparr>seq = 12345, ack = 0, conn_id = 0, flags = SYN\<rparr>\<rparr>"
proof -
  let ?p = "set_header zero_packet 12345 0 0 SYN"
  have "recv_into (packet_bytes ?p) zero_packet = ?p" by (rule recv_into_whole) simp_all
  then show ?thesis
    by (simp add: event_packet_def syn_datagram_def ntoh_reorder_def Let_def set_header_def htonl_htonl htons_htons)
qed

text \<open>A data datagram arrives as the segment it was sent as.\<close>

lemma event_data_datagram:
  assumes "carries (of_nat (Suc i)) q b d" and "length b \<le> data_size"
  shows "segment_for i (Datagram d A l) = Some (q, b)" and "12 \<le> event_count (Datagram d A l)"
    and "flags (pack_header (event_packet (Datagram d A l))) \<in> {0, ACK}"
    and "conn_id (pack_header (event_packet (Datagram d A l))) = of_nat (Suc i)"
proof -
  obtain h where d: "d = header_bytes h @ b" "conn_id h = htons (of_nat (Suc i))"
      "flags h \<in> {htons 0, htons ACK}" "ntohl (seq h) = q"
    using assms(1) by (auto simp: carries_def)
  let ?p = "\<lparr>pack_header = h, data = b @ replicate (data_size - length b) 0\<rparr>"
  have wf: "packet_wf ?p" using assms(2) by (simp add: packet_wf_def)
  have "d = take (header_size + length b) (packet_bytes ?p)"
    by (simp add: d(1) packet_bytes_def)
  then have r: "recv_into d zero_packet = \<lparr>pack_header = h, data = b @ drop (length b) (data zero_packet)\<rparr>"
    using recv_into_packet [OF wf zero_packet_wf assms(2)] by simp
  have n: "event_count (Datagram d A l) = 12 + int (length b)"
    using assms(2) by (simp add: event_count_def recv_count_def d(1))
  show "segment_for i (Datagram d A l) = Some (q, b)"
    using d(2-4) by (auto simp: segment_for_def event_packet_def r n htons_htons Let_def)
  show "12 \<le> event_count (Datagram d A l)"
    and "flags (pack_header (event_packet (Datagram d A l))) \<in> {0, ACK}"
    and "conn_id (pack_header (event_packet (Datagram d A l))) = of_nat (Suc i)"
    using d(2,3) n by (auto simp: event_packet_def r htons_htons)
qed

section \<open>What the server sends\<close>

lemma handle_data_sent:
  assumes "x \<in> set (server_sent (handle_data buf n s))"
  shows "x \<in> set (server_sent s) \<or>
    (\<exists>j < 10. conn_id (conn_header (all_connection s ! j)) = conn_id (pack_header buf) \<and>
      fst (snd x) = src_addr (all_connection s ! j))"
  using assms find_connection_bound [of "conn_id (pack_header buf)" s]
  by (auto simp: handle_data_def Let_def split_beta receive_data_simps split: option.splits if_splits)

lemma handle_fin_sent:
  assumes "x \<in> set (server_sent (handle_fin buf s))"
  shows "x \<in> set (server_sent s) \<or>
    (\<exists>j < 10. conn_id (conn_header (all_connection s ! j)) = conn_id (pack_header buf) \<and>
      fst (snd x) = src_addr (all_connection s ! j))"
  using assms find_connection_bound [of "conn_id (pack_header buf)" s]
  by (auto simp: handle_fin_def Let_def split: option.splits if_splits)

lemma serve_one_sent:
  assumes "flags (pack_header (event_packet ev)) \<noteq> SYN" and "x \<in> set (server_sent (serve_one can_open file_dir ev s))"
  shows "x \<in> set (server_sent s) \<or>
    (\<exists>j < 10. conn_id (conn_header (all_connection s ! j)) = conn_id (pack_header (event_packet ev)) \<and>
      fst (snd x) = src_addr (all_connection s ! j))"
  using assms handle_data_sent [of x "event_packet ev" "event_count ev" "event_state ev s"]
    handle_fin_sent [of x "event_packet ev" "event_state ev s"]
  by (auto simp: serve_one_cases Let_def split: if_splits)

lemma serve_one_addr:
  assumes "conn_valid file_dir i s" and "inet_event ev"
  shows "src_addr (all_connection (serve_one can_open file_dir ev s) ! i) = src_addr (all_connection s ! i)"
proof -
  obtain k where inv: "server_inv file_dir k s" "i < k" using assms(1) by (auto simp: conn_valid_def)
  have i: "i < length (all_connection s)" using inv(2) server_inv_le [OF inv(1)] server_inv_length [OF inv(1)] by simp
  show ?thesis
  proof (cases "flags (pack_header (event_packet ev)) = SYN")
    case True
    then show ?thesis using serve_one_other(1) [OF inv assms(2)] by simp
  next
    case False
    have "src_addr (all_connection (handle_data b n t) ! i) = src_addr (all_connection t ! i)"
      if "i < length (all_connection t)" for b n t
      using that by (auto simp: handle_data_def Let_def split_beta receive_data_simps nth_update_at
          split: option.split)
    moreover have "src_addr (all_connection (handle_fin b t) ! i) = src_addr (all_connection t ! i)"
      if "i < length (all_connection t)" for b t
      using that by (auto simp: handle_fin_def Let_def nth_update_at split: option.split)
    ultimately show ?thesis using False i by (simp add: serve_one_cases Let_def)
  qed
qed

text \<open>The acknowledgement numbers of all replies on their way to address \<open>A\<close>.\<close>

definition replies_in :: "u32 set \<Rightarrow> sockaddr \<Rightarrow> server \<Rightarrow> bool" where
  "replies_in R A s \<longleftrightarrow> (\<forall>(d, a, l) \<in> set (server_sent s). a = A \<longrightarrow> length d = packet_size \<and> ack_of d \<in> R)"

text \<open>They acknowledge at most \<open>m\<close> bytes; 0 stands for a \<^verbatim>\<open>SYN\<close> that the server sent on.\<close>

definition acks_upto :: "nat \<Rightarrow> u32 set" where
  "acks_upto m = insert 0 (seq_at ` {..m})"

abbreviation replies_ok :: "nat \<Rightarrow> sockaddr \<Rightarrow> server \<Rightarrow> bool" where
  "replies_ok m \<equiv> replies_in (acks_upto m)"

lemma acks_upto_simps [simp]: "0 \<in> acks_upto m" "seq_at 0 \<in> acks_upto m" "seq_at m \<in> acks_upto m"
  by (simp_all add: acks_upto_def)

lemma acks_upto_mono: "m \<le> n \<Longrightarrow> acks_upto m \<subseteq> acks_upto n"
  by (auto simp: acks_upto_def)

lemma replies_inD: "replies_in R A s \<Longrightarrow> (d, A, l) \<in> set (server_sent s) \<Longrightarrow> length d = packet_size \<and> ack_of d \<in> R"
  by (auto simp: replies_in_def)

lemma replies_okD:
  "replies_ok m A s \<Longrightarrow> (d, A, l) \<in> set (server_sent s) \<Longrightarrow>
   length d = packet_size \<and> (ack_of d = 0 \<or> (\<exists>j \<le> m. ack_of d = seq_at j))"
  by (drule (1) replies_inD) (auto simp: acks_upto_def)

lemma replies_in_step:
  assumes "replies_in R A s" and "R \<subseteq> R'"
    and "\<And>d l. (d, A, l) \<in> set (server_sent t) \<Longrightarrow> (d, A, l) \<in> set (server_sent s) \<or> length d = packet_size \<and> ack_of d \<in> R'"
  shows "replies_in R' A t"
  unfolding replies_in_def
proof (clarify)
  fix d l
  assume "(d, A, l) \<in> set (server_sent t)"
  from assms(3) [OF this] show "length d = packet_size \<and> ack_of d \<in> R'"
    using replies_inD [OF assms(1)] assms(2) by blast
qed

lemma length_packet_bytes_event [simp]: "length (packet_bytes (event_packet ev)) = packet_size"
  by (rule length_packet_bytes) simp

lemma htonl_0 [simp]: "htonl 0 = 0"
  by (simp add: htonl_def)

text \<open>A \<^verbatim>\<open>SYN\<close> with acknowledgement number zero makes only harmless replies.\<close>

lemma replies_syn:
  assumes "server_inv file_dir k s" and "inet_event ev" and "flags (pack_header (event_packet ev)) = SYN"
    and "ack (pack_header (event_packet ev)) = 0"
    and "client_addr (event_state ev s) = A \<Longrightarrow> seq (pack_header (event_packet ev)) = 12345"
    and "replies_in R A s" and "0 \<in> R" and "seq_at 0 \<in> R"
  shows "replies_in R A (serve_one can_open file_dir ev s)"
proof (rule replies_in_step [OF assms(6) order_refl])
  fix d l
  assume d: "(d, A, l) \<in> set (server_sent (serve_one can_open file_dir ev s))"
  let ?b = "event_packet ev" and ?t = "event_state ev s"
  let ?u = "bounce ?b [0..<k] ?t"
  have b: "server_inv file_dir k ?u" using assms(1) by simp
  have fam: "sa_family (client_addr ?u) = AF_INET" using event_family [OF assms(2,3)] by simp
  have bounced: "length d = packet_size \<and> ack_of d = 0 \<or> (d, A, l) \<in> set (server_sent s)"
    if "(d, A, l) \<in> set (server_sent ?u)"
    using that assms(4) by (auto simp: image_iff)
  have "(d, A, l) \<in> set (server_sent ?u) \<or>
    d = packet_bytes (set_header ?b 4321 (seq (pack_header ?b) + 1) (of_nat (Suc k)) SYN_ACK) \<and> A = client_addr ?t"
    using d accept_connection_effect(7) [OF b _ fam] serve_syn [OF assms(1-3), of can_open]
    by (auto simp: Let_def split: if_splits)
  then show "(d, A, l) \<in> set (server_sent s) \<or> length d = packet_size \<and> ack_of d \<in> R"
  proof
    assume "d = packet_bytes (set_header ?b 4321 (seq (pack_header ?b) + 1) (of_nat (Suc k)) SYN_ACK) \<and> A = client_addr ?t"
    then have "ack_of d = seq_at 0" and "length d = packet_size"
      using assms(5) by (simp_all add: htonl_htonl seq_at_def length_packet_bytes)
    then show ?thesis using assms(8) by simp
  qed (use bounced assms(7) in auto)
qed

text \<open>So do the datagrams of other clients.\<close>

lemma foreign_not_syn:
  assumes "foreign i A s ev" and "flags (pack_header (event_packet ev)) \<noteq> SYN"
  shows "inet_event ev" and "conn_id (pack_header (event_packet ev)) \<noteq> of_nat (Suc i)"
    and "j < 10 \<Longrightarrow> conn_id (conn_header (all_connection s ! j)) = conn_id (pack_header (event_packet ev)) \<Longrightarrow>
      src_addr (all_connection s ! j) \<noteq> A"
  using assms by (auto simp: foreign_def Let_def)

lemma replies_foreign:
  assumes "server_inv file_dir k s" and "foreign i A s ev" and "replies_in R A s" and "0 \<in> R" and "seq_at 0 \<in> R"
  shows "replies_in R A (serve_one can_open file_dir ev s)"
proof (cases "flags (pack_header (event_packet ev)) = SYN")
  case True
  then show ?thesis
    using assms(2) by (intro replies_syn [OF assms(1) _ True _ _ assms(3-5)]) (simp_all add: foreign_def Let_def)
next
  case False
  show ?thesis
  proof (rule replies_in_step [OF assms(3) order_refl])
    fix d l
    assume "(d, A, l) \<in> set (server_sent (serve_one can_open file_dir ev s))"
    from serve_one_sent [OF False this] foreign_not_syn(3) [OF assms(2) False]
    show "(d, A, l) \<in> set (server_sent s) \<or> length d = packet_size \<and> ack_of d \<in> R" by auto
  qed
qed

section \<open>The invariant\<close>

text \<open>The client's half: what it sends, and what an empty log at the end of the file means.\<close>

definition client_side :: "nat \<Rightarrow> buffer \<Rightarrow> nat \<Rightarrow> sending \<Rightarrow> bool" where
  "client_side i file m c \<longleftrightarrow>
     sending_inv file (of_nat (Suc i)) c \<and>
     (\<forall>d \<in> set (client_sent c). data_datagram file (of_nat (Suc i)) d \<or> d = syn_datagram) \<and>
     (eofbit (infile c) \<and> CWND_logs c = [] \<longrightarrow> m = length file)"

definition server_side :: "string \<Rightarrow> nat \<Rightarrow> sockaddr \<Rightarrow> buffer \<Rightarrow> nat \<Rightarrow> server \<Rightarrow> bool" where
  "server_side file_dir i A file m s \<longleftrightarrow>
     conn_valid file_dir i s \<and> \<not> conn_closed i s \<and> m \<le> length file \<and> stored_file file_dir i s = take m file \<and>
     expected_seq i s = seq_at m \<and> src_addr (all_connection s ! i) = A \<and> replies_ok m A s"

lemma client_side_check_timeout:
  assumes "client_side i file m c"
  shows "client_side i file m (check_timeout T c)"
proof -
  have "eofbit (infile (check_timeout T c)) \<and> CWND_logs (check_timeout T c) = [] \<longrightarrow> m = length file"
    using assms by (auto simp: client_side_def check_timeout_def ifstream_rewind split: list.split)
  moreover have "sending_inv file (of_nat (Suc i)) c" using assms by (simp add: client_side_def)
  note check_timeout_inv [OF this, of T]
  ultimately show ?thesis using assms by (simp add: client_side_def)
qed

lemma client_side_send_data:
  assumes "client_side i file m c" and "\<not> eofbit (infile c)"
  obtains c' where "send_data now c = Next c'" and "client_side i file m c'"
proof -
  have "sending_inv file (of_nat (Suc i)) c" using assms(1) by (simp add: client_side_def)
  from send_data_effect [OF this assms(2), of now] obtain c' d where
    "send_data now c = Next c'" "sending_inv file (of_nat (Suc i)) c'" "CWND_logs c' \<noteq> []"
    "client_sent c' = client_sent c @ [d]" "data_datagram file (of_nat (Suc i)) d" by (metis append_is_Nil_conv list.distinct(1))
  then show ?thesis using that assms(1) by (auto simp: client_side_def)
qed

lemma client_side_receive:
  assumes "client_side i file m c" and "receive_ack reply now c = Next c'" and "reply_from A s reply"
    and "replies_ok m A s" and "m \<le> length file" and "length file \<le> 90054"
  shows "client_side i file m c'"
proof -
  have inv: "sending_inv file (of_nat (Suc i)) c" using assms(1) by (simp add: client_side_def)
  note r = receive_ack_effect [OF inv assms(2)]
  have "m = length file" if "eofbit (infile c')" and "CWND_logs c' = []"
  proof (cases "CWND_logs c = []")
    case True
    with that(1) r(3) assms(1) show ?thesis by (simp add: client_side_def)
  next
    case False
    with r(4) that(2) obtain d where d: "reply = Some d"
        "acked (ntohl (ack (pack_header (recv_into d (recv_packet c))))) (CWND_logs c) = []" by auto
    obtain l where l: "(d, A, l) \<in> set (server_sent s)" using assms(3) d(1) by (auto simp: reply_from_def)
    have "packet_wf (recv_packet c)" using inv by (simp add: sending_inv_def Let_def)
    then have "ntohl (ack (pack_header (recv_into d (recv_packet c)))) = ack_of d"
      using ack_of_recv replies_okD [OF assms(4) l] by blast
    with process_ack_empty [OF inv _ False] d(2) that(1) r(3) have "ack_of d = seq_at (length file)" by simp
    then obtain j where "j \<le> m" "seq_at (length file) = seq_at j"
      using replies_okD [OF assms(4) l] seq_at_nonzero [OF assms(6)] by auto
    then show ?thesis using seq_at_inject [of "length file" j] assms(5,6) by simp
  qed
  then show ?thesis using r(1,2) assms(1) by (simp add: client_side_def)
qed

lemma client_side_pass:
  assumes "client_side i file m c" and "reply_from A s reply" and "replies_ok m A s"
    and "m \<le> length file" and "length file \<le> 90054"
  shows "transfer_pass clk reply c = Next c' \<Longrightarrow> client_side i file m c'"
    and "transfer_pass clk reply c = Stop c' \<Longrightarrow> m = length file"
    and "transfer_pass clk reply c = Stop c' \<Longrightarrow> client_side i file m c' \<and> eofbit (infile c')"
proof -
  let ?c = "check_timeout (clk 0) c"
  let ?send = "if CWND_space ?c > 0 \<and> \<not> eofbit (infile ?c) then send_data (clk 1) ?c else Next ?c"
  have c: "client_side i file m ?c" by (rule client_side_check_timeout [OF assms(1)])
  have "\<exists>c2. ?send = Next c2 \<and> client_side i file m c2"
  proof (cases "CWND_space ?c > 0 \<and> \<not> eofbit (infile ?c)")
    case True
    then have "\<not> eofbit (infile ?c)" by simp
    from client_side_send_data [OF c this, where now = "clk 1"] True show ?thesis by metis
  next
    case False
    then show ?thesis using c by auto
  qed
  then obtain c2 where c2: "?send = Next c2" "client_side i file m c2" by blast
  then have eq: "transfer_pass clk reply c = then_do (receive_ack reply (clk 2) c2)
      (\<lambda>s. if ifstream_tellg (infile s) = - 1 \<and> CWND_logs s = [] then Stop s else Next s)"
    by (simp add: transfer_pass_def Let_def)
  have "client_side i file m c' \<and> (transfer_pass clk reply c = Stop c' \<longrightarrow> m = length file \<and> eofbit (infile c'))"
    if "transfer_pass clk reply c \<in> {Next c', Stop c'}"
  proof (cases "receive_ack reply (clk 2) c2")
    case (Next c3)
    note c3 = client_side_receive [OF c2(2) Next assms(2-5)]
    have "failbit (infile c3) = eofbit (infile c3)" using c3 by (simp add: client_side_def sending_inv_def Let_def)
    with c3 that show ?thesis
      by (auto simp: eq Next client_side_def ifstream_tellg_def split: if_splits)
  next
    case (Stop c3)
    then show ?thesis using receive_ack_not_Stop by blast
  next
    case (ExitFailure e c3)
    then show ?thesis using that by (simp add: eq)
  qed
  then show "transfer_pass clk reply c = Next c' \<Longrightarrow> client_side i file m c'"
    and "transfer_pass clk reply c = Stop c' \<Longrightarrow> m = length file"
    and "transfer_pass clk reply c = Stop c' \<Longrightarrow> client_side i file m c' \<and> eofbit (infile c')" by blast+
qed

text \<open>The server's half.\<close>

lemma server_side_unaffected:
  assumes "server_side file_dir i A file m s" and "inet_event ev"
    and "flags (pack_header (event_packet ev)) = SYN \<or> conn_id (pack_header (event_packet ev)) \<noteq> of_nat (Suc i)"
    and "replies_ok m A (serve_one can_open file_dir ev s)"
  shows "server_side file_dir i A file m (serve_one can_open file_dir ev s)"
proof -
  have v: "conn_valid file_dir i s" using assms(1) by (simp add: server_side_def)
  then obtain k where inv: "server_inv file_dir k s" "i < k" by (auto simp: conn_valid_def)
  have "segment_for i ev = None" using assms(3) by (auto simp: segment_for_def Let_def)
  then have ev: "conn_event i ev" using assms(2) by (simp add: conn_event_def)
  have "flags (pack_header (event_packet ev)) = SYN \<or> conn_id (pack_header (event_packet ev)) \<noteq> of_nat (Suc i) \<or>
      flags (pack_header (event_packet ev)) \<notin> {0, ACK, FIN}" using assms(3) by blast
  note same = serve_one_other [OF inv assms(2) this, of can_open]
  from assms(4) gbn.valid [OF v ev] same assms(1) show ?thesis
    by (simp add: server_side_def conn_closed_def expected_seq_def stored_file_def)
qed

lemma server_side_inv:
  assumes "server_side file_dir i A file m s"
  obtains k where "server_inv file_dir k s" and "i < k"
  using assms by (auto simp: server_side_def conn_valid_def)

lemma server_side_foreign:
  assumes "server_side file_dir i A file m s" and "foreign i A s ev"
  shows "server_side file_dir i A file m (serve_one can_open file_dir ev s)"
proof (rule server_side_unaffected [OF assms(1)])
  show "inet_event ev" and "flags (pack_header (event_packet ev)) = SYN \<or> conn_id (pack_header (event_packet ev)) \<noteq> of_nat (Suc i)"
    using assms(2) by (auto simp: foreign_def Let_def)
  obtain k where inv: "server_inv file_dir k s" by (rule server_side_inv [OF assms(1)])
  have "replies_ok m A s" using assms(1) by (simp add: server_side_def)
  then show "replies_ok m A (serve_one can_open file_dir ev s)" by (intro replies_foreign [OF inv assms(2)]) simp_all
qed

text \<open>A segment that arrives, in order or not, is answered with the place reached.\<close>

lemma server_side_data:
  assumes "server_side file_dir i A file m s" and "carries (of_nat (Suc i)) q b d" and "segment_of file q b"
    and "sa_family A = AF_INET" and "length file \<le> 102400"
  defines "n \<equiv> if q = seq_at m then m + length b else m"
  shows "server_side file_dir i A file n (serve_one can_open file_dir (Datagram d A 16) s)"
    and "\<exists>e l. (e, A, l) \<in> set (server_sent (serve_one can_open file_dir (Datagram d A 16) s)) \<and> ack_of e = seq_at n"
    and "replies_in R A s \<Longrightarrow> replies_in (insert (seq_at n) R) A (serve_one can_open file_dir (Datagram d A 16) s)"
proof -
  let ?ev = "Datagram d A 16"
  let ?s = "serve_one can_open file_dir ?ev s"
  let ?t = "event_state ?ev s"
  have "length b \<le> data_size" using assms(3) by (auto simp: segment_of_def)
  note seg = event_data_datagram [OF assms(2) this, of A 16]
  have inet: "inet_event ?ev" using assms(4) by (simp add: inet_event_def)
  then have ev: "conn_event i ?ev" using seg(2) by (simp add: conn_event_def)
  have v: "conn_valid file_dir i s" and open_s: "\<not> conn_closed i s" and m: "m \<le> length file" "stored_file file_dir i s = take m file"
      "expected_seq i s = seq_at m" and addr: "src_addr (all_connection s ! i) = A" and rep: "replies_ok m A s"
    using assms(1) by (simp_all add: server_side_def)
  note data = serve_data [OF v ev seg(1) open_s, of can_open]
  have n: "n \<ge> m" "n \<le> length file" "stored_file file_dir i ?s = take n file" "expected_seq i ?s = seq_at n"
  proof -
    have "n \<ge> m \<and> n \<le> length file \<and> stored_file file_dir i ?s = take n file \<and> expected_seq i ?s = seq_at n"
    proof (cases "q = seq_at m")
      case True
      note ext = segment_extends [OF assms(3) [unfolded True] m(1) assms(5)]
      have "(seq_at m + of_nat (length b)) mod 102401 = seq_at (m + length b)" using seq_at_advance ext(3) by simp
      then show ?thesis using True data m ext by (simp add: n_def)
    next
      case False
      then show ?thesis using data m by (simp add: n_def)
    qed
    then show "n \<ge> m" "n \<le> length file" "stored_file file_dir i ?s = take n file" "expected_seq i ?s = seq_at n"
      by blast+
  qed
  obtain k where inv: "server_inv file_dir k ?t" "i < k" using v by (auto simp: conn_valid_def)
  have fin: "is_FIN (all_connection ?t ! i) \<noteq> 1" using open_s by (simp add: conn_closed_def)
  have s: "?s = handle_data (event_packet ?ev) (event_count ?ev) ?t"
    using seg(3) by (auto simp: serve_one_cases Let_def)
  let ?r = "packet_bytes (reply_packet (event_packet ?ev) (all_connection ?s ! i))"
  note sent = handle_data_here(3) [OF inv seg(4) fin, of "event_count ?ev", folded s]
  have reply: "ack_of ?r = seq_at n" using n(4) by (simp add: htonl_htonl expected_seq_def)
  with sent addr show "\<exists>e l. (e, A, l) \<in> set (server_sent ?s) \<and> ack_of e = seq_at n" by auto
  have replies: "replies_in (insert (seq_at n) R) A ?s" if "replies_in R A s" for R
  proof (rule replies_in_step [OF that])
    fix e l
    assume "(e, A, l) \<in> set (server_sent ?s)"
    then have "(e, A, l) \<in> set (server_sent s) \<or> e = ?r" using sent by auto
    with reply show "(e, A, l) \<in> set (server_sent s) \<or> length e = packet_size \<and> ack_of e \<in> insert (seq_at n) R"
      by (auto simp: length_packet_bytes)
  qed auto
  then show "replies_in R A s \<Longrightarrow> replies_in (insert (seq_at n) R) A ?s" .
  have "insert (seq_at n) (acks_upto m) \<subseteq> acks_upto n" using acks_upto_mono [OF n(1)] by simp
  with replies [OF rep] have "replies_ok n A ?s" by (auto simp: replies_in_def)
  moreover have "src_addr (all_connection ?s ! i) = A" using serve_one_addr [OF v inet] addr by simp
  ultimately show "server_side file_dir i A file n ?s"
    using data n by (simp add: server_side_def)
qed

lemma replies_own_syn:
  assumes "server_inv file_dir k s" and "sa_family A = AF_INET" and "replies_in R A s" and "0 \<in> R" and "seq_at 0 \<in> R"
  shows "replies_in R A (serve_one can_open file_dir (Datagram syn_datagram A 16) s)"
  by (rule replies_syn [OF assms(1) _ _ _ _ assms(3-5)])
    (use assms(2) in \<open>simp_all add: inet_event_def event_syn_datagram\<close>)

lemma server_side_own_syn:
  assumes "server_side file_dir i A file m s" and "sa_family A = AF_INET"
  shows "server_side file_dir i A file m (serve_one can_open file_dir (Datagram syn_datagram A 16) s)"
proof (rule server_side_unaffected [OF assms(1)])
  obtain k where inv: "server_inv file_dir k s" by (rule server_side_inv [OF assms(1)])
  have "replies_ok m A s" using assms(1) by (simp add: server_side_def)
  then show "replies_ok m A (serve_one can_open file_dir (Datagram syn_datagram A 16) s)"
    by (intro replies_own_syn [OF inv assms(2)]) simp_all
qed (use assms(2) in \<open>simp_all add: inet_event_def event_syn_datagram\<close>)

lemma server_side_family:
  assumes "server_side file_dir i A file m s"
  shows "sa_family A = AF_INET"
proof -
  obtain k where "server_inv file_dir k s" "i < k" using assms by (auto simp: server_side_def conn_valid_def)
  from server_inv_taken [OF this] assms show ?thesis by (simp add: server_side_def conn_taken_def)
qed

text \<open>A client that starts its transfer on a connection the server has just opened for it.\<close>

definition established :: "string \<Rightarrow> nat \<Rightarrow> sockaddr \<Rightarrow> buffer \<Rightarrow> sending \<Rightarrow> server \<Rightarrow> bool" where
  "established file_dir i A file c s \<longleftrightarrow>
     length file \<le> 90054 \<and> client_side i file 0 c \<and> server_side file_dir i A file 0 s"

theorem reaches_from:
  assumes "reaches can_open file_dir i A c\<^sub>0 s\<^sub>0 c s" and "client_side i file n c\<^sub>0" and "server_side file_dir i A file n s\<^sub>0"
    and len: "length file \<le> 90054"
  obtains m where "client_side i file m c" and "server_side file_dir i A file m s"
proof -
  have "\<exists>m. client_side i file m c \<and> server_side file_dir i A file m s"
    using assms(1)
  proof (induction rule: reaches.induct)
    case start
    then show ?case using assms(2,3) by blast
  next
    case (pass c s reply clk c')
    then obtain m where m: "client_side i file m c" "server_side file_dir i A file m s" by blast
    then have "replies_ok m A s" "m \<le> length file" by (simp_all add: server_side_def)
    from client_side_pass(1) [OF m(1) pass.hyps(2) this len pass.hyps(3)] m(2) show ?case by blast
  next
    case (deliver c s d)
    then obtain m where m: "client_side i file m c" "server_side file_dir i A file m s" by blast
    then have "data_datagram file (of_nat (Suc i)) d \<or> d = syn_datagram" using deliver.hyps(2) by (simp add: client_side_def)
    then show ?case
    proof
      assume d: "data_datagram file (of_nat (Suc i)) d"
      then obtain q b where d: "carries (of_nat (Suc i)) q b d" "segment_of file q b" by (auto simp: data_datagram_def)
      from len have "length file \<le> 102400" by simp
      from server_side_data(1) [OF m(2) d server_side_family [OF m(2)] this, of can_open] obtain n where
        n: "n \<ge> m" "server_side file_dir i A file n (serve_one can_open file_dir (Datagram d A 16) s)"
        by (metis le_add1 order_refl)
      moreover have "n \<le> length file" using n(2) by (simp add: server_side_def)
      moreover have "client_side i file n c" using m(1) \<open>n \<le> length file\<close> n(1) by (auto simp: client_side_def)
      ultimately show ?thesis by blast
    qed (use m server_side_own_syn [OF m(2) server_side_family [OF m(2)]] in blast)
  next
    case (other c s ev)
    then show ?case using server_side_foreign by blast
  qed
  then show ?thesis using that by blast
qed

theorem reaches_inv:
  assumes "reaches can_open file_dir i A c\<^sub>0 s\<^sub>0 c s" and "established file_dir i A file c\<^sub>0 s\<^sub>0"
  obtains m where "client_side i file m c" and "server_side file_dir i A file m s"
  using reaches_from [OF assms(1)] assms(2) unfolding established_def by blast

section \<open>From the handshake to the transfer\<close>

lemma recv_polls_silent:
  "recv_polls a (replicate n None @ polls) pkt c = recv_polls a polls pkt c"
  by (induction n) simp_all

text \<open>The \<^verbatim>\<open>SYN\<close> of the client takes the first free connection, and the answer starts the client on
  it.\<close>

definition syn_ack :: "nat \<Rightarrow> packet" where
  "syn_ack k = set_header zero_packet 4321 12346 (of_nat (Suc k)) SYN_ACK"

lemma syn_ack_arrives:
  "ntoh_reorder (recv_into (packet_bytes (syn_ack k)) zero_packet) =
    zero_packet\<lparr>pack_header := \<lparr>seq = 4321, ack = 12346, conn_id = of_nat (Suc k), flags = SYN_ACK\<rparr>\<rparr>"
proof -
  have "recv_into (packet_bytes (syn_ack k)) zero_packet = syn_ack k"
    by (rule recv_into_whole) (simp_all add: syn_ack_def)
  then show ?thesis
    by (simp add: ntoh_reorder_def Let_def syn_ack_def set_header_def htonl_htonl htons_htons)
qed

lemma handshake_client:
  assumes "duration_seconds (t\<^sub>1 - t\<^sub>0) < 10"
  obtains c where "handshake t\<^sub>0 [(t\<^sub>1, replicate n None @ [Some (packet_bytes (syn_ack k))], t\<^sub>2)] client_init = Stop c"
    and "seq_num c = 12346" and "ack_num c = 4322" and "id_num c = ucast (of_nat (Suc k) :: u16)" and "CWND_logs c = []"
    and "client_sent c = [syn_datagram]" and "CWND c = 1024" and "SS_THRESH c = 10000"
  using assms that
  by (simp add: handshake_def recv_pack_def recv_polls_silent syn_ack_arrives client_init_def Let_def
      syn_datagram_def length_packet_bytes)

lemma handshake_server:
  fixes l :: nat and can_open :: "string \<Rightarrow> bool"
  assumes "server_inv file_dir k s" and "k < 10" and "is_FIN (all_connection s ! k) = 0"
    and "can_open (file_path file_dir k)" and "sa_family A = AF_INET" and "replies_ok 0 A s"
  defines "s' \<equiv> serve_one can_open file_dir (Datagram syn_datagram A l) s"
  shows "server_side file_dir k A file 0 s'" and "(packet_bytes (syn_ack k), A, l) \<in> set (server_sent s')"
proof -
  let ?ev = "Datagram syn_datagram A l"
  let ?b = "event_packet ?ev"
  let ?u = "bounce ?b [0..<k] (event_state ?ev s)"
  have inet: "inet_event ?ev" using assms(5) by (simp add: inet_event_def)
  have b: "pack_header ?b = \<lparr>seq = 12345, ack = 0, conn_id = 0, flags = SYN\<rparr>"
    by (simp add: event_syn_datagram)
  then have syn: "flags (pack_header ?b) = SYN" by simp
  have addr: "client_addr ?u = A" "client_addrlen ?u = l" by (simp_all add: event_state_def)
  have u: "server_inv file_dir k ?u" using assms(1) by simp
  have s': "s' = accept_connection can_open file_dir ?b k ?u"
    using serve_syn [OF assms(1) inet syn, of can_open] assms(2) by (simp add: s'_def Let_def)
  have fam: "sa_family (client_addr ?u) = AF_INET" using addr assms(5) by simp
  note acc = accept_connection_effect [OF u assms(2) fam, where can_open = can_open and buf = ?b, folded s']
  have "set_header ?b 4321 (seq (pack_header ?b) + 1) (of_nat (Suc k)) SYN_ACK = syn_ack k"
    by (simp add: b syn_ack_def set_header_def event_syn_datagram)
  then show "(packet_bytes (syn_ack k), A, l) \<in> set (server_sent s')"
    using acc(7) addr by simp
  have "replies_ok 0 A s'"
    unfolding s'_def by (rule replies_syn [OF assms(1) inet syn _ _ assms(6)]) (simp_all add: b)
  moreover have "expected_seq k s' = seq_at 0" using acc(3) by (simp add: expected_seq_def b seq_at_def)
  moreover have "conn_valid file_dir k s'" "\<not> conn_closed k s'" "stored_file file_dir k s' = []"
    using acc(1,6,9) assms(3,4) by (auto simp: conn_valid_def conn_closed_def stored_file_def)
  ultimately show "server_side file_dir k A file 0 s'"
    using acc(4) addr by (simp add: server_side_def)
qed

lemma open_transfer_small:
  assumes "length file \<le> 100 * 1024 * 1024"
  obtains s where "open_transfer stack (Some file) c = Next s" and "infile s = ifstream_open file"
    and "CWND s = CWND c" and "SS_THRESH s = SS_THRESH c" and "seq_num s = seq_num c" and "id_num s = id_num c"
    and "CWND_logs s = CWND_logs c" and "client_sent s = client_sent c" and "next_flags s = ACK"
    and "CWND_space s = CWND c div 512" and "send_packet s = stack" and "recv_packet s = stack"
    and "timer_flag s = 0" and "timeout_check s = 0"
proof -
  have "sint (word_of_int n :: 32 word) = n" if "0 \<le> n" "n < 2 ^ 31" for n
    using that by transfer (simp add: signed_take_bit_int_eq_self)
  from this [of "int (length file)"] assms have "sint (word_of_int (int (length file)) :: 32 word) = int (length file)"
    by (simp del: of_int_of_nat_eq)
  then have "sint (word_of_int (int (length file)) :: 32 word) \<le> 100 * 1024 * 1024" using assms by simp
  then show ?thesis
    by (intro that [of "client.extend (c\<lparr>timer_flag := 0\<rparr>)
        \<lparr>CWND_space = CWND c div 512, last_seq = 0, next_flags = 4, timeout_check = 0,
         infile = ifstream_open file, send_packet = stack, recv_packet = stack\<rparr>"])
      (simp_all add: open_transfer_def Let_def client.defs)
qed

lemma handshake_establishes:
  assumes "server_inv file_dir k s" and "k < 10" and "is_FIN (all_connection s ! k) = 0"
    and "can_open (file_path file_dir k)" and "sa_family A = AF_INET" and "replies_ok 0 A s"
    and "duration_seconds (t\<^sub>1 - t\<^sub>0) < 10" and "length file \<le> 90054" and "packet_wf stack"
  obtains c s' reply c' where "s' = serve_one can_open file_dir (Datagram syn_datagram A l) s"
    and "(reply, A, l) \<in> set (server_sent s')"
    and "handshake t\<^sub>0 [(t\<^sub>1, replicate n None @ [Some reply], t\<^sub>2)] client_init = Stop c"
    and "open_transfer stack (Some file) c = Next c'" and "established file_dir k A file c' s'"
    and "CWND c' = 1024" and "SS_THRESH c' = 10000" and "CWND_space c' = 2" and "CWND_logs c' = []"
    and "timer_flag c' = 0" and "timeout_check c' = 0" and "infile c' = ifstream_open file"
proof -
  note server = handshake_server [where can_open = can_open and l = l, OF assms(1-6)]
  obtain c where c: "handshake t\<^sub>0 [(t\<^sub>1, replicate n None @ [Some (packet_bytes (syn_ack k))], t\<^sub>2)] client_init = Stop c"
      "seq_num c = 12346" "id_num c = ucast (of_nat (Suc k) :: u16)" "CWND_logs c = []"
      "client_sent c = [syn_datagram]" "CWND c = 1024" "SS_THRESH c = 10000"
    by (rule handshake_client [OF assms(7), of n k t\<^sub>2])
  obtain c' where c': "open_transfer stack (Some file) c = Next c'" "infile c' = ifstream_open file"
      "CWND c' = CWND c" "SS_THRESH c' = SS_THRESH c" "seq_num c' = seq_num c" "id_num c' = id_num c"
      "CWND_logs c' = CWND_logs c" "client_sent c' = client_sent c" "next_flags c' = ACK"
      "CWND_space c' = CWND c div 512" "send_packet c' = stack" "recv_packet c' = stack"
      "timer_flag c' = 0" "timeout_check c' = 0"
    by (rule open_transfer_small [of "file"]) (use assms(8) in simp)
  have "ucast (ucast x :: u32) = x" for x :: u16
    by transfer (simp add: take_bit_take_bit)
  then have "client_side k file 0 c'"
    using assms(9) c by (simp add: client_side_def sending_inv_def Let_def c'(2-12) ifstream_open_def seq_at_def)
  then have "established file_dir k A file c' (serve_one can_open file_dir (Datagram syn_datagram A l) s)"
    using server(1) assms(8) by (simp add: established_def)
  from that [OF refl server(2) c(1) c'(1) this] c c' show ?thesis by simp
qed

end
