(* ===== verification/ConfundoDelivery.thy ===== *)
theory ConfundoDelivery
  imports ConfundoTransfer
begin

text \<open>
  What the client of \<^verbatim>\<open>client.cpp\<close> and the server of \<^verbatim>\<open>server.cpp\<close> achieve together when the
  network is good, and the bounds of the congestion window. On a network that loses nothing the
  client's loop ends, with the whole file on the server: the run sends one piece after the other
  and brings its acknowledgement back. The measure is twice the bytes still to read, plus one
  while the end of the file has not been seen.
\<close>

section \<open>One acknowledgement\<close>

lemma grow_window_space:
  "CWND_space (grow_window s) \<in> {CWND_space s + 1, CWND_space s + 2}"
  "timeout_check (grow_window s) = timeout_check s"
  "CWND s < SS_THRESH s \<Longrightarrow> CWND (grow_window s) = CWND s + 512 \<and> CWND_space (grow_window s) = CWND_space s + 2"
  by (simp_all add: grow_window_def Let_def)

text \<open>It is found in the log, or not.\<close>

lemma receive_ack_found:
  assumes "length d = packet_size" and "packet_wf (recv_packet c)" and "\<exists>l \<in> set (CWND_logs c). E_ACK l = ack_of d"
  obtains c' where "receive_ack (Some d) now c = Next c'" and "CWND_logs c' = acked (ack_of d) (CWND_logs c)"
    and "infile c' = infile c" and "timeout_check c' = now" and "client_sent c' = client_sent c"
    and "CWND_space c' \<in> {CWND_space c + 1, CWND_space c + 2}" and "SS_THRESH c' = SS_THRESH c"
    and "CWND c < SS_THRESH c \<Longrightarrow> CWND c' = CWND c + 512 \<and> CWND_space c' = CWND_space c + 2"
proof -
  obtain x e where d: "d = x # e" using assms(1) by (cases d) simp_all
  define t where "t = c\<lparr>recv_packet := ntoh_reorder (recv_into d (recv_packet c)), timeout_check := now\<rparr>"
  have a: "ack (pack_header (recv_packet t)) = ack_of d" using ack_of_recv [OF assms(1,2)] by (simp add: t_def)
  define u where "u = (put_line (CHR ''R'') (recv_packet t) t)\<lparr>CWND_logs := tl (dropWhile (\<lambda>l. E_ACK l \<noteq> ack_of d) (CWND_logs c))\<rparr>"
  have "process_ack t = grow_window u"
    using assms(3) a by (simp add: process_ack_def Let_def u_def t_def)
  moreover have "receive_ack (Some d) now c = Next (process_ack t)"
    by (simp add: receive_ack_def d t_def)
  moreover have "CWND_logs u = acked (ack_of d) (CWND_logs c)" using assms(3) by (simp add: u_def acked_def)
  moreover have "infile u = infile c" "timeout_check u = now" "client_sent u = client_sent c" "CWND_space u = CWND_space c"
      "CWND u = CWND c" "SS_THRESH u = SS_THRESH c"
    by (simp_all add: u_def t_def)
  ultimately show ?thesis using that [of "grow_window u"] grow_window_space [of u] by simp
qed

lemma receive_ack_unmatched:
  assumes "\<And>d. reply = Some d \<Longrightarrow> length d = packet_size \<and> (\<forall>l \<in> set (CWND_logs c). E_ACK l \<noteq> ack_of d)"
    and "packet_wf (recv_packet c)" and "receive_ack reply now c = Next c'"
  shows "CWND_logs c' = CWND_logs c" and "infile c' = infile c" and "CWND_space c' = CWND_space c"
    and "client_sent c' = client_sent c"
proof -
  have "CWND_logs c' = CWND_logs c \<and> infile c' = infile c \<and> CWND_space c' = CWND_space c \<and> client_sent c' = client_sent c"
  proof (cases reply)
    case (Some d)
    obtain x e where d: "d = x # e" using assms(1) [OF Some] by (cases d) simp_all
    have a: "ntohl (ack (pack_header (recv_into (x # e) (recv_packet c)))) = ack_of d"
      using ack_of_recv [OF _ assms(2)] assms(1) [OF Some] d by simp
    then have "\<not> (\<exists>l \<in> set (CWND_logs c). E_ACK l = ack_of d)" using assms(1) [OF Some] by blast
    with assms(3) a show ?thesis by (auto simp: Some d receive_ack_def process_ack_def Let_def)
  qed (use assms(3) in \<open>auto simp: receive_ack_def split: if_splits\<close>)
  then show "CWND_logs c' = CWND_logs c" and "infile c' = infile c" and "CWND_space c' = CWND_space c"
    and "client_sent c' = client_sent c" by auto
qed

section \<open>A network that loses nothing\<close>

text \<open>All clock readings of the run are \<open>T\<close>; no timer has expired.\<close>

definition calm :: "time_point \<Rightarrow> sending \<Rightarrow> bool" where
  "calm T c \<longleftrightarrow> duration_seconds (T - timeout_check c) < 10 \<and> (\<forall>l \<in> set (CWND_logs c). send_time l = T)"

lemma duration_0 [simp]: "duration_millis 0 = 0" "duration_seconds 0 = 0"
  by (simp_all add: duration_millis_def duration_seconds_def)

lemma check_timeout_calm: "calm T c \<Longrightarrow> check_timeout T c = c"
  by (auto simp: check_timeout_def calm_def split: list.split)

lemma receive_nothing: "calm T c \<Longrightarrow> receive_ack None T c = Next c"
  by (simp add: receive_ack_def calm_def)

text \<open>Everything sent has been acknowledged; or one piece is on its way back.\<close>

definition ready :: "time_point \<Rightarrow> string \<Rightarrow> nat \<Rightarrow> sockaddr \<Rightarrow> buffer \<Rightarrow> sending \<Rightarrow> server \<Rightarrow> bool" where
  "ready T file_dir i A file c s \<longleftrightarrow>
     client_side i file (pos (infile c)) c \<and> server_side file_dir i A file (pos (infile c)) s \<and> calm T c \<and>
     CWND_logs c = [] \<and> CWND_space c > 0 \<and> \<not> eofbit (infile c)"

definition flying :: "time_point \<Rightarrow> string \<Rightarrow> nat \<Rightarrow> sockaddr \<Rightarrow> buffer \<Rightarrow> sending \<Rightarrow> server \<Rightarrow> bool" where
  "flying T file_dir i A file c s \<longleftrightarrow>
     client_side i file (pos (infile c)) c \<and> server_side file_dir i A file (pos (infile c)) s \<and> calm T c \<and>
     (\<exists>l. CWND_logs c = [l] \<and> E_ACK l = seq_at (pos (infile c))) \<and>
     (\<exists>e l. (e, A, l) \<in> set (server_sent s) \<and> ack_of e = seq_at (pos (infile c)))"

definition to_read :: "buffer \<Rightarrow> sending \<Rightarrow> nat" where
  "to_read file c = 2 * (length file - pos (infile c)) + (if eofbit (infile c) then 0 else 1)"

text \<open>The next piece arrives in order and is acknowledged.\<close>

lemma send_and_deliver:
  fixes can_open :: "string \<Rightarrow> bool"
  assumes "client_side i file m c" and "server_side file_dir i A file m s" and "m = pos (infile c)"
    and "\<not> eofbit (infile c)" and "length file \<le> 90054"
  obtains c' d where "send_data T c = Next c'" and "client_side i file m c'" and "calm T c \<Longrightarrow> calm T c'"
    and "timeout_check c' \<in> {T, timeout_check c}"
    and "CWND_logs c' = CWND_logs c @ [\<lparr>E_ACK = seq_at (pos (infile c')), log_seq = seq_at m, send_time = T, file_pos = m\<rparr>]"
    and "CWND_space c' = CWND_space c - 1" and "d \<in> set (client_sent c')"
    and "to_read file c' < to_read file c"
    and "server_side file_dir i A file (pos (infile c')) (serve_one can_open file_dir (Datagram d A 16) s)"
    and "\<exists>e l. (e, A, l) \<in> set (server_sent (serve_one can_open file_dir (Datagram d A 16) s)) \<and>
      ack_of e = seq_at (pos (infile c'))"
proof -
  have inv: "sending_inv file (of_nat (Suc i)) c" using assms(1) by (simp add: client_side_def)
  let ?b = "chunk m data_size file"
  obtain c' where c': "send_data T c = Next c'"
      "CWND_logs c' = CWND_logs c @ [\<lparr>E_ACK = seq_at (m + length ?b), log_seq = seq_at m, send_time = T, file_pos = m\<rparr>]"
      "pos (infile c') = m + length ?b" "eofbit (infile c') = (length ?b < data_size)"
      "CWND_space c' = CWND_space c - 1" "timeout_check c' = (if timer_flag c = 0 then T else timeout_check c)"
      "\<exists>d. client_sent c' = client_sent c @ [d] \<and> carries (of_nat (Suc i)) (seq_at m) ?b d \<and>
        data_datagram file (of_nat (Suc i)) d"
    using send_data_effect [OF inv assms(4), where now = T] unfolding assms(3) by metis
  obtain d where d: "client_sent c' = client_sent c @ [d]" "carries (of_nat (Suc i)) (seq_at m) ?b d"
      "data_datagram file (of_nat (Suc i)) d" using c'(7) by blast
  have m: "m \<le> length file" using assms(2) by (simp add: server_side_def)
  have seg: "segment_of file (seq_at m) ?b"
    unfolding segment_of_def using m by (intro exI [of _ m]) (simp add: chunk_def take_is_prefix)
  have "length file \<le> 102400" using assms(5) by simp
  note server = server_side_data [OF assms(2) d(2) seg server_side_family [OF assms(2)] this, where can_open = can_open]
  have "client_side i file m c'"
    using client_side_send_data [OF assms(1,4), of T] c'(1) by auto
  moreover have "calm T c'" if "calm T c" using that c'(2,6) by (simp add: calm_def)
  moreover have "to_read file c' < to_read file c"
    using m assms(4) c'(3,4) by (auto simp: to_read_def assms(3) [symmetric] length_chunk)
  ultimately show ?thesis
    using that [of c' d] c' d(1) server by simp
qed

lemma transfer_pass_sends:
  assumes "calm T c" and "CWND_space c > 0" and "\<not> eofbit (infile c)" and "send_data T c = Next c'"
  shows "transfer_pass (\<lambda>_. T) reply c = then_do (receive_ack reply T c')
    (\<lambda>s. if ifstream_tellg (infile s) = - 1 \<and> CWND_logs s = [] then Stop s else Next s)"
  using assms by (simp add: transfer_pass_def check_timeout_calm Let_def)

lemma transfer_pass_waits:
  assumes "calm T c" and "CWND_space c = 0 \<or> eofbit (infile c)"
  shows "transfer_pass (\<lambda>_. T) reply c = then_do (receive_ack reply T c)
    (\<lambda>s. if ifstream_tellg (infile s) = - 1 \<and> CWND_logs s = [] then Stop s else Next s)"
  using assms by (auto simp: transfer_pass_def check_timeout_calm Let_def)

text \<open>The acknowledgement of the oldest piece.\<close>

lemma acked_front [simp]: "acked a (l # ls) = ls" if "E_ACK l = a"
  using that by (simp add: acked_def)

lemma client_side_later: "client_side i file m c \<Longrightarrow> CWND_logs c \<noteq> [] \<Longrightarrow> client_side i file n c"
  by (simp add: client_side_def)

lemma ready_step:
  assumes "reaches can_open file_dir i A c\<^sub>0 s\<^sub>0 c s" and "ready T file_dir i A file c s" and "length file \<le> 90054"
  obtains c' s' where "reaches can_open file_dir i A c\<^sub>0 s\<^sub>0 c' s'" and "flying T file_dir i A file c' s'"
    and "to_read file c' < to_read file c"
proof -
  have c: "client_side i file (pos (infile c)) c" "server_side file_dir i A file (pos (infile c)) s" "calm T c"
      "CWND_logs c = []" "CWND_space c > 0" "\<not> eofbit (infile c)" using assms(2) by (simp_all add: ready_def)
  obtain c' d where c': "send_data T c = Next c'" "client_side i file (pos (infile c)) c'" "calm T c'"
      "CWND_logs c' = CWND_logs c @
        [\<lparr>E_ACK = seq_at (pos (infile c')), log_seq = seq_at (pos (infile c)), send_time = T, file_pos = pos (infile c)\<rparr>]"
      "d \<in> set (client_sent c')" "to_read file c' < to_read file c"
      "server_side file_dir i A file (pos (infile c')) (serve_one can_open file_dir (Datagram d A 16) s)"
      "\<exists>e l. (e, A, l) \<in> set (server_sent (serve_one can_open file_dir (Datagram d A 16) s)) \<and>
        ack_of e = seq_at (pos (infile c'))"
    by (rule send_and_deliver [OF c(1,2) refl c(6) assms(3), where T = T and can_open = can_open]) (use c(3) in blast)
  have "transfer_pass (\<lambda>_. T) None c = Next c'"
    using transfer_pass_sends [OF c(3,5,6) c'(1), of None] c'(3,4) by (simp add: receive_nothing)
  from reaches.deliver [OF reaches.pass [OF assms(1) _ this] c'(5)]
  have "reaches can_open file_dir i A c\<^sub>0 s\<^sub>0 c' (serve_one can_open file_dir (Datagram d A 16) s)"
    by (simp add: reply_from_def)
  moreover have "client_side i file (pos (infile c')) c'"
    using client_side_later [OF c'(2)] c'(4) by simp
  ultimately show ?thesis
    using that c'(3,4,6-8) c(4) by (simp add: flying_def)
qed

text \<open>The acknowledgement comes back: the client is finished, or goes on with the next piece.\<close>

lemma flying_step:
  assumes "reaches can_open file_dir i A c\<^sub>0 s\<^sub>0 c s" and "flying T file_dir i A file c s" and "length file \<le> 90054"
  shows "(\<exists>reply c'. reply_from A s reply \<and> transfer_pass (\<lambda>_. T) reply c = Stop c') \<or>
    (\<exists>c' s'. reaches can_open file_dir i A c\<^sub>0 s\<^sub>0 c' s' \<and> flying T file_dir i A file c' s' \<and> to_read file c' < to_read file c)"
proof -
  let ?m = "pos (infile c)"
  have c: "client_side i file ?m c" "server_side file_dir i A file ?m s" "calm T c"
    using assms(2) by (simp_all add: flying_def)
  obtain l where l: "CWND_logs c = [l]" "E_ACK l = seq_at ?m" using assms(2) by (auto simp: flying_def)
  obtain e al where e: "(e, A, al) \<in> set (server_sent s)" "ack_of e = seq_at ?m" using assms(2) by (auto simp: flying_def)
  have m: "?m \<le> length file" and rep: "replies_ok ?m A s" using c(2) by (simp_all add: server_side_def)
  have len: "length e = packet_size" using replies_okD [OF rep e(1)] by simp
  have src: "reply_from A s (Some e)" using e(1) by (auto simp: reply_from_def)
  have wf: "packet_wf (recv_packet c)" and bits: "failbit (infile c) = eofbit (infile c)"
    using c(1) by (simp_all add: client_side_def sending_inv_def Let_def)
  show ?thesis
  proof (cases "CWND_space c > 0 \<and> \<not> eofbit (infile c)")
    case False
    then have w: "CWND_space c = 0 \<or> eofbit (infile c)" using word_neq_0_conv [of "CWND_space c"] by blast
    obtain c' where c': "receive_ack (Some e) T c = Next c'" "CWND_logs c' = []" "infile c' = infile c"
        "timeout_check c' = T" "CWND_space c' \<in> {CWND_space c + 1, CWND_space c + 2}"
      by (rule receive_ack_found [OF len wf, of T]) (use l e(2) in auto)
    show ?thesis
    proof (cases "eofbit (infile c)")
      case True
      then have "transfer_pass (\<lambda>_. T) (Some e) c = Stop c'"
        using transfer_pass_waits [OF c(3) w, of "Some e"] c' bits by (simp add: ifstream_tellg_def)
      with src show ?thesis by blast
    next
      case open_file: False
      then have "transfer_pass (\<lambda>_. T) (Some e) c = Next c'"
        using transfer_pass_waits [OF c(3) w, of "Some e"] c' bits by (simp add: ifstream_tellg_def)
      note p = this client_side_pass(1) [OF c(1) src rep m assms(3) this]
      have "CWND_space c' > 0" using c'(5) w open_file by auto
      then have "ready T file_dir i A file c' s"
        using p(2) c(2) c' open_file by (simp add: ready_def calm_def)
      from ready_step [OF reaches.pass [OF assms(1) src p(1)] this assms(3)] obtain c2 s2 where
        "reaches can_open file_dir i A c\<^sub>0 s\<^sub>0 c2 s2" "flying T file_dir i A file c2 s2" "to_read file c2 < to_read file c'" .
      moreover have "to_read file c' = to_read file c" by (simp add: to_read_def c'(3))
      ultimately show ?thesis by auto
    qed
  next
    case True
    then have sp: "CWND_space c > 0" "\<not> eofbit (infile c)" by simp_all
    obtain c1 d where c1: "send_data T c = Next c1" "client_side i file ?m c1" "calm T c1"
        "CWND_logs c1 = CWND_logs c @
          [\<lparr>E_ACK = seq_at (pos (infile c1)), log_seq = seq_at ?m, send_time = T, file_pos = ?m\<rparr>]"
        "d \<in> set (client_sent c1)" "to_read file c1 < to_read file c"
        "server_side file_dir i A file (pos (infile c1)) (serve_one can_open file_dir (Datagram d A 16) s)"
        "\<exists>e l. (e, A, l) \<in> set (server_sent (serve_one can_open file_dir (Datagram d A 16) s)) \<and>
          ack_of e = seq_at (pos (infile c1))"
      by (rule send_and_deliver [OF c(1,2) refl sp(2) assms(3), where T = T and can_open = can_open]) (use c(3) in blast)
    have wf1: "packet_wf (recv_packet c1)" using c1(2) by (simp add: client_side_def sending_inv_def Let_def)
    obtain c2 where c2: "receive_ack (Some e) T c1 = Next c2" "CWND_logs c2 = tl (CWND_logs c1)" "infile c2 = infile c1"
        "timeout_check c2 = T" "client_sent c2 = client_sent c1"
      by (rule receive_ack_found [OF len wf1, of T]) (use l e(2) c1(4) in auto)
    have p: "transfer_pass (\<lambda>_. T) (Some e) c = Next c2"
      using transfer_pass_sends [OF c(3) sp c1(1), of "Some e"] c2 c1(4) l by simp
    have "d \<in> set (client_sent c2)" using c1(5) c2(5) by simp
    from reaches.deliver [OF reaches.pass [OF assms(1) src p] this]
    have r: "reaches can_open file_dir i A c\<^sub>0 s\<^sub>0 c2 (serve_one can_open file_dir (Datagram d A 16) s)" .
    have logs: "CWND_logs c2 = [\<lparr>E_ACK = seq_at (pos (infile c1)), log_seq = seq_at ?m, send_time = T, file_pos = ?m\<rparr>]"
      using c2(2) c1(4) l by simp
    have "client_side i file (pos (infile c2)) c2"
      using client_side_later [OF client_side_pass(1) [OF c(1) src rep m assms(3) p]] logs by simp
    then have "flying T file_dir i A file c2 (serve_one can_open file_dir (Datagram d A 16) s)"
      using c1(7,8) logs c2(3,4) by (simp add: flying_def calm_def)
    moreover have "to_read file c2 < to_read file c" using c1(6) c2(3) by (simp add: to_read_def)
    ultimately show ?thesis using r by blast
  qed
qed

lemma flying_finishes:
  assumes "reaches can_open file_dir i A c\<^sub>0 s\<^sub>0 c s" and "flying T file_dir i A file c s" and "length file \<le> 90054"
  shows "\<exists>c s reply c'. reaches can_open file_dir i A c\<^sub>0 s\<^sub>0 c s \<and> reply_from A s reply \<and>
    transfer_pass (\<lambda>_. T) reply c = Stop c'"
  using assms
proof (induction "to_read file c" arbitrary: c s rule: less_induct)
  case less
  from flying_step [OF less.prems] show ?case
    using less.hyps less.prems(1,3) by blast
qed

lemma ready_finishes:
  assumes "reaches can_open file_dir i A c\<^sub>0 s\<^sub>0 c s" and "ready T file_dir i A file c s" and "length file \<le> 90054"
  shows "\<exists>c s reply c'. reaches can_open file_dir i A c\<^sub>0 s\<^sub>0 c s \<and> reply_from A s reply \<and>
    transfer_pass (\<lambda>_. T) reply c = Stop c'"
  by (rule ready_step [OF assms]) (use flying_finishes assms(3) in blast)

lemma transfer_can_finish:
  assumes "established file_dir i A file c\<^sub>0 s\<^sub>0" and "CWND_logs c\<^sub>0 = []" and "CWND_space c\<^sub>0 > 0"
    and "timeout_check c\<^sub>0 = 0" and "infile c\<^sub>0 = ifstream_open file"
  shows "\<exists>c s reply c'. reaches can_open file_dir i A c\<^sub>0 s\<^sub>0 c s \<and> reply_from A s reply \<and>
    transfer_pass (\<lambda>_. 0) reply c = Stop c'"
proof (rule ready_finishes [OF reaches.start])
  show "ready 0 file_dir i A file c\<^sub>0 s\<^sub>0"
    using assms by (simp add: established_def ready_def calm_def ifstream_open_def)
  show "length file \<le> 90054" using assms(1) by (simp add: established_def)
qed

end
