(* ===== verification/ConfundoClosing.thy ===== *)
theory ConfundoClosing
  imports ConfundoTransfer
begin

text \<open>
  The end of a connection. The client's \<^verbatim>\<open>FIN\<close> is answered with an \<^verbatim>\<open>ACK\<close> and a \<^verbatim>\<open>FIN\<close>, which the
  client acknowledges; the connection of the server is closed then and stores nothing any more.
  Any \<^verbatim>\<open>FIN\<close> has that effect, also one that overtakes data, and one for connection 0 has it on
  the next client.
\<close>

section \<open>FIN at the server\<close>

definition fin_datagram :: "u32 \<Rightarrow> u16 \<Rightarrow> buffer" where
  "fin_datagram q n = packet_bytes (set_header zero_packet q 0 n FIN)"

lemma event_fin_datagram:
  "event_packet (Datagram (fin_datagram q n) A l) =
    zero_packet\<lparr>pack_header := \<lparr>seq = q, ack = 0, conn_id = n, flags = FIN\<rparr>\<rparr>"
proof -
  let ?p = "set_header zero_packet q 0 n FIN"
  have "recv_into (packet_bytes ?p) zero_packet = ?p" by (rule recv_into_whole) simp_all
  then show ?thesis
    by (simp add: event_packet_def fin_datagram_def ntoh_reorder_def Let_def set_header_def htonl_htonl htons_htons)
qed

text \<open>A \<^verbatim>\<open>FIN\<close> for connection \<open>i\<close>: both answers, and the connection is closed.\<close>

definition fin_replies :: "packet \<Rightarrow> connection_info \<Rightarrow> packet \<times> packet" where
  "fin_replies buf c =
     (let h = conn_header c; a = (if seq (pack_header buf) = ack h then ack h + 1 else ack h)
      in (set_header buf (seq h) a (conn_id h) ACK, set_header buf (seq h) 0 (conn_id h) FIN))"

lemma set_header_again [simp]: "set_header (set_header b S A I F) S' A' I' F' = set_header b S' A' I' F'"
  by (simp add: set_header_def)

lemma handle_fin_sends:
  assumes "server_inv file_dir k s" and "i < k" and "conn_id (pack_header buf) = of_nat (Suc i)"
  defines "c \<equiv> all_connection s ! i"
  shows "server_sent (handle_fin buf s) = server_sent s @
    [(packet_bytes (fst (fin_replies buf c)), src_addr c, addrlen c),
     (packet_bytes (snd (fin_replies buf c)), src_addr c, addrlen c)]"
proof -
  have "find_connection (conn_id (pack_header buf)) s = Some i"
    using find_connection_taken [OF assms(1,2)] assms(3) by simp
  then show ?thesis
    by (simp add: handle_fin_def Let_def reply_packet_def fin_replies_def c_def)
qed

lemma serve_fin:
  assumes "flags (pack_header (event_packet ev)) = FIN"
  shows "serve_one can_open file_dir ev s = handle_fin (event_packet ev) (event_state ev s)"
  using assms by (simp add: serve_one_cases Let_def)

text \<open>Once closed, the file stays as it is.\<close>

lemma serve_foldl: "serve can_open file_dir evs s = foldl (\<lambda>s e. serve_one can_open file_dir e s) s evs"
  by (induction evs arbitrary: s) simp_all

lemma closed_stays:
  assumes "conn_valid file_dir i s" and "conn_closed i s" and "\<forall>ev \<in> set evs. conn_event i ev"
  shows "stored_file file_dir i (serve can_open file_dir evs s) = stored_file file_dir i s"
  using assms
proof (induction evs arbitrary: s)
  case (Cons ev evs)
  then have ev: "conn_event i ev" by simp
  note step = gbn.valid [OF Cons.prems(1) ev, of can_open] gbn.closed [OF Cons.prems(1) ev Cons.prems(2), of can_open]
  with Cons show ?case by simp
qed simp

lemma fin_closes:
  fixes can_open :: "string \<Rightarrow> bool"
  assumes "conn_valid file_dir i s" and "conn_event i ev"
    and "flags (pack_header (event_packet ev)) = FIN" and "conn_id (pack_header (event_packet ev)) = of_nat (Suc i)"
  defines "s' \<equiv> serve_one can_open file_dir ev s"
  shows "conn_valid file_dir i s'" and "conn_closed i s'" and "server_files s' = server_files s"
proof -
  obtain k where inv: "server_inv file_dir k s" "i < k" using assms(1) by (auto simp: conn_valid_def)
  have t: "server_inv file_dir k (event_state ev s)" using inv by simp
  have s': "s' = handle_fin (event_packet ev) (event_state ev s)" by (simp add: s'_def serve_fin [OF assms(3)])
  show "conn_valid file_dir i s'" unfolding s'_def by (rule gbn.valid [OF assms(1,2)])
  show "conn_closed i s'" using handle_fin_here(1) [OF t inv(2) assms(4)] by (simp add: s' conn_closed_def)
  show "server_files s' = server_files s" by (simp add: s')
qed

text \<open>A \<^verbatim>\<open>FIN\<close> for connection 0 marks the first free connection.\<close>

lemma fin_zero:
  fixes can_open :: "string \<Rightarrow> bool"
  assumes "server_inv file_dir k s" and "k < 10" and "flags (pack_header (event_packet ev)) = FIN"
    and "conn_id (pack_header (event_packet ev)) = 0"
  defines "s' \<equiv> serve_one can_open file_dir ev s"
  shows "server_inv file_dir k s'" and "is_FIN (all_connection s' ! k) = 1"
proof -
  let ?t = "event_state ev s"
  have t: "server_inv file_dir k ?t" using assms(1) by simp
  have s': "s' = handle_fin (event_packet ev) ?t" by (simp add: s'_def serve_fin [OF assms(3)])
  show "server_inv file_dir k s'" unfolding s' by (rule handle_fin_inv [OF t])
  have "k < length (all_connection ?t)" using server_inv_length [OF t] assms(2) by simp
  moreover have "find_connection (conn_id (pack_header (event_packet ev))) ?t = Some k"
    using find_connection_zero [OF t assms(2)] assms(4) by simp
  ultimately show "is_FIN (all_connection s' ! k) = 1" by (simp add: s' handle_fin_def Let_def)
qed

lemma syn_keeps_mark:
  assumes "server_inv file_dir k s" and "k < 10" and "is_FIN (all_connection s ! k) = 1"
    and "inet_event ev" and "flags (pack_header (event_packet ev)) = SYN" and "can_open (file_path file_dir k)"
  defines "s' \<equiv> serve_one can_open file_dir ev s"
  shows "conn_valid file_dir k s'" and "conn_closed k s'" and "stored_file file_dir k s' = []"
proof -
  let ?u = "bounce (event_packet ev) [0..<k] (event_state ev s)"
  have u: "server_inv file_dir k ?u" using assms(1) by simp
  have fam: "sa_family (client_addr ?u) = AF_INET" using event_family [OF assms(4,5)] by simp
  have s': "s' = accept_connection can_open file_dir (event_packet ev) k ?u"
    using serve_syn [OF assms(1,4,5), of can_open] assms(2) by (simp add: s'_def Let_def)
  note acc = accept_connection_effect [OF u assms(2) fam, where can_open = can_open and buf = "event_packet ev", folded s']
  have "is_FIN (all_connection s' ! k) = 1" using acc(6) assms(3) by simp
  then show "conn_valid file_dir k s'" and "conn_closed k s'" and "stored_file file_dir k s' = []"
    using acc(1,9) assms(6) by (auto simp: conn_valid_def conn_closed_def stored_file_def)
qed

section \<open>FIN at the client\<close>

text \<open>The replies as the client reads them.\<close>

lemma reply_arrives:
  assumes "packet_wf buf" and "packet_wf old"
  shows "ntoh_reorder (recv_into (packet_bytes (set_header buf S A I F)) old) =
    buf\<lparr>pack_header := \<lparr>seq = S, ack = A, conn_id = I, flags = F\<rparr>\<rparr>"
proof -
  have "recv_into (packet_bytes (set_header buf S A I F)) old = set_header buf S A I F"
    using assms by (intro recv_into_whole) simp_all
  then show ?thesis
    by (simp add: ntoh_reorder_def Let_def set_header_def htonl_htonl htons_htons)
qed

lemma packet_bytes_Cons: "\<exists>x d. packet_bytes p = x # d"
  by (simp add: packet_bytes_def header_bytes_def u32_bytes_def)

text \<open>The acknowledgement, then the \<^verbatim>\<open>FIN\<close>, then two seconds of silence.\<close>

lemma ending_exchange:
  assumes "packet_wf buf" and "A = seq_num c + 1"
    and "duration_seconds (clk\<^sub>1 0 - t\<^sub>0) < 10" and "duration_seconds (clk\<^sub>1 1 - t\<^sub>1) < 1"
    and "duration_seconds (clk\<^sub>2 0 - clk\<^sub>1 3) < 10" and "duration_seconds (clk\<^sub>2 1 - t\<^sub>1) < 1"
    and "2 \<le> duration_seconds (clk\<^sub>3 0 - clk\<^sub>2 4)"
  shows "\<exists>c'. ending t\<^sub>0 t\<^sub>1
      [(clk\<^sub>1, Some (packet_bytes (set_header buf S A n ACK))), (clk\<^sub>2, Some (packet_bytes (set_header buf S 0 n FIN))), (clk\<^sub>3, None)] c
      = Stop c' \<and>
    client_sent c' = client_sent c @ [fin_datagram (seq_num c) (ucast (id_num c)),
      packet_bytes (set_header zero_packet (seq_num c) (S + 1) (ucast (id_num c)) ACK)]"
proof -
  obtain x d where a: "packet_bytes (set_header buf S A n ACK) = x # d" using packet_bytes_Cons by blast
  obtain y e where f: "packet_bytes (set_header buf S 0 n FIN) = y # e" using packet_bytes_Cons by blast
  have ra: "ntoh_reorder (recv_into (x # d) old) = buf\<lparr>pack_header := \<lparr>seq = S, ack = A, conn_id = n, flags = ACK\<rparr>\<rparr>"
    if "packet_wf old" for old using reply_arrives [OF assms(1) that, of S A n ACK] a by simp
  have rf: "ntoh_reorder (recv_into (y # e) old) = buf\<lparr>pack_header := \<lparr>seq = S, ack = 0, conn_id = n, flags = FIN\<rparr>\<rparr>"
    if "packet_wf old" for old using reply_arrives [OF assms(1) that, of S 0 n FIN] f by simp
  have wf: "packet_wf (buf\<lparr>pack_header := h\<rparr>)" for h using assms(1) by (simp add: packet_wf_def)
  have "ending_loop [(clk\<^sub>1, Some (x # d)), (clk\<^sub>2, Some (y # e)), (clk\<^sub>3, None)] t\<^sub>0 t\<^sub>1 pkt zero_packet c1 =
      Stop (put_line (CHR ''S'') (set_header pkt (seq_num c1) (S + 1) (ucast (id_num c1)) ACK)
        (send_bytes packet_size (set_header pkt (seq_num c1) (S + 1) (ucast (id_num c1)) ACK)
          ((put_line (CHR ''R'') (buf\<lparr>pack_header := \<lparr>seq = S, ack = 0, conn_id = n, flags = FIN\<rparr>\<rparr>)
            (put_line (CHR ''R'') (buf\<lparr>pack_header := \<lparr>seq = S, ack = A, conn_id = n, flags = ACK\<rparr>\<rparr>) c1))\<lparr>ack_num := S + 1\<rparr>)))"
    if "seq_num c1 = seq_num c" for c1 pkt
    using that assms(2-7) by (simp add: Let_def ra rf wf del: ntoh_reorder_simps)
  then show ?thesis
    by (simp add: ending_def Let_def a f fin_datagram_def length_packet_bytes)
qed

text \<open>Both halves: the server answers the \<^verbatim>\<open>FIN\<close>, and its answers end the client.\<close>

lemma fin_closes_session:
  assumes "server_inv file_dir k s" and "i < k" and "expected_seq i s = seq_num c"
    and "ucast (id_num c) = (of_nat (Suc i) :: u16)"
    and "duration_seconds (clk\<^sub>1 0 - t\<^sub>0) < 10" and "duration_seconds (clk\<^sub>1 1 - t\<^sub>1) < 1"
    and "duration_seconds (clk\<^sub>2 0 - clk\<^sub>1 3) < 10" and "duration_seconds (clk\<^sub>2 1 - t\<^sub>1) < 1"
    and "2 \<le> duration_seconds (clk\<^sub>3 0 - clk\<^sub>2 4)"
  shows "let fin = fin_datagram (seq_num c) (of_nat (Suc i)); s' = serve_one can_open file_dir (Datagram fin A l) s in
    conn_closed i s' \<and> server_files s' = server_files s \<and>
    (\<exists>a f c'. map fst (server_sent s') = map fst (server_sent s) @ [a, f] \<and>
      ending t\<^sub>0 t\<^sub>1 [(clk\<^sub>1, Some a), (clk\<^sub>2, Some f), (clk\<^sub>3, None)] c = Stop c' \<and>
      client_sent c' = client_sent c @ [fin, packet_bytes (set_header zero_packet (seq_num c)
        (seq (conn_header (all_connection s ! i)) + 1) (of_nat (Suc i)) ACK)])"
proof -
  let ?fin = "fin_datagram (seq_num c) (of_nat (Suc i))"
  let ?ev = "Datagram ?fin A l"
  let ?t = "event_state ?ev s" and ?b = "event_packet ?ev" and ?c = "all_connection s ! i"
  have q: "seq (pack_header ?b) = seq_num c" by (simp add: event_fin_datagram)
  have t: "server_inv file_dir k ?t" using assms(1) by simp
  have s': "serve_one can_open file_dir ?ev s = handle_fin ?b ?t" by (rule serve_fin) (simp add: event_fin_datagram)
  have id: "conn_id (pack_header ?b) = of_nat (Suc i)" by (simp add: event_fin_datagram)
  have ci: "conn_id (conn_header ?c) = of_nat (Suc i)" using server_inv_taken [OF assms(1,2)] by (simp add: conn_taken_def)
  have r: "fin_replies ?b ?c = (set_header ?b (seq (conn_header ?c)) (seq_num c + 1) (of_nat (Suc i)) ACK,
      set_header ?b (seq (conn_header ?c)) 0 (of_nat (Suc i)) FIN)"
    using assms(3) ci q by (simp add: fin_replies_def expected_seq_def Let_def)
  note sent = handle_fin_sends [OF t assms(2) id]
  let ?a = "packet_bytes (set_header ?b (seq (conn_header ?c)) (seq_num c + 1) (of_nat (Suc i)) ACK)"
    and ?f = "packet_bytes (set_header ?b (seq (conn_header ?c)) 0 (of_nat (Suc i)) FIN)"
  have replies: "map fst (server_sent (handle_fin ?b ?t)) = map fst (server_sent s) @ [?a, ?f]"
    using sent r by simp
  have closed: "conn_closed i (handle_fin ?b ?t)"
    using handle_fin_here(1) [OF t assms(2) id] by (simp add: conn_closed_def)
  obtain c' where c': "ending t\<^sub>0 t\<^sub>1 [(clk\<^sub>1, Some ?a), (clk\<^sub>2, Some ?f), (clk\<^sub>3, None)] c = Stop c'"
      "client_sent c' = client_sent c @ [?fin, packet_bytes (set_header zero_packet (seq_num c)
        (seq (conn_header ?c) + 1) (of_nat (Suc i)) ACK)]"
    using ending_exchange [where buf = ?b and c = c and A = "seq_num c + 1" and S = "seq (conn_header ?c)"
      and n = "of_nat (Suc i)" and clk\<^sub>1 = clk\<^sub>1 and clk\<^sub>2 = clk\<^sub>2 and clk\<^sub>3 = clk\<^sub>3 and t\<^sub>0 = t\<^sub>0 and t\<^sub>1 = t\<^sub>1,
      OF event_packet_wf refl assms(5-9)] unfolding assms(4) by blast
  show ?thesis
    unfolding Let_def s' using closed replies c' by (intro conjI exI) simp_all
qed

section \<open>A datagram without a whole header\<close>

text \<open>A stream that will not write any more: in error, or closed.\<close>

definition no_write :: "connection_info \<Rightarrow> bool" where
  "no_write c \<longleftrightarrow> of_fail (myfile c) \<or> of_open (myfile c) = None"

lemma ofstream_write_dead:
  "of_fail f \<or> of_open f = None \<Longrightarrow>
   snd (ofstream_write b n (f, fs)) = fs \<and>
   (of_fail (fst (ofstream_write b n (f, fs))) \<or> of_open (fst (ofstream_write b n (f, fs))) = None)"
  by (auto simp: ofstream_write_def split: option.split)

lemma receive_data_dead:
  assumes "no_write c"
  shows "no_write (fst (receive_data buf n c s))" and "server_files (snd (receive_data buf n c s)) = server_files s"
  using assms ofstream_write_dead [of "myfile c" "data buf" "n - 12" "server_files s"]
  by (simp_all add: receive_data_def no_write_def Let_def split_beta)

lemma serve_dead:
  assumes "server_inv file_dir k s" and "i < k" and "inet_event ev" and "no_write (all_connection s ! i)"
  shows "no_write (all_connection (serve_one can_open file_dir ev s) ! i)"
    and "server_files (serve_one can_open file_dir ev s) (file_path file_dir i) = server_files s (file_path file_dir i)"
proof -
  let ?b = "event_packet ev" and ?t = "event_state ev s"
  let ?s = "serve_one can_open file_dir ev s"
  have t: "server_inv file_dir k ?t" using assms(1) by simp
  have "no_write (all_connection ?s ! i) \<and> server_files ?s (file_path file_dir i) = server_files s (file_path file_dir i)"
  proof (cases "conn_id (pack_header ?b) = of_nat (Suc i) \<and> flags (pack_header ?b) \<in> {0, ACK, FIN}")
    case False
    then have "flags (pack_header ?b) = SYN \<or> conn_id (pack_header ?b) \<noteq> of_nat (Suc i) \<or> flags (pack_header ?b) \<notin> {0, ACK, FIN}"
      by blast
    from serve_one_other [OF assms(1-3) this, of can_open] assms(4) show ?thesis by simp
  next
    case True
    then have id: "conn_id (pack_header ?b) = of_nat (Suc i)" by simp
    show ?thesis
    proof (cases "flags (pack_header ?b) = FIN")
      case True
      then show ?thesis
        using serve_fin [OF True, of can_open file_dir s] handle_fin_here(2) [OF t assms(2) id] assms(4) by (simp add: no_write_def)
    next
      case data: False
      then have s: "?s = handle_data ?b (event_count ev) ?t" using True by (auto simp: serve_one_cases Let_def)
      have i: "i < length (all_connection ?t)" using assms(2) server_inv_le [OF t] server_inv_length [OF t] by simp
      show ?thesis
      proof (cases "is_FIN (all_connection ?t ! i) = 1")
        case True
        have "find_connection (conn_id (pack_header ?b)) ?t = Some i"
          using find_connection_taken [OF t assms(2)] id by simp
        with True i show ?thesis by (simp add: s handle_data_def Let_def no_write_def)
      next
        case False
        note here = handle_data_here [OF t assms(2) id False, of "event_count ev"]
        have "no_write (all_connection ?t ! i)" using assms(4) by simp
        from receive_data_dead [OF this] here show ?thesis by (simp add: s no_write_def)
      qed
    qed
  qed
  then show "no_write (all_connection ?s ! i)" and
    "server_files ?s (file_path file_dir i) = server_files s (file_path file_dir i)" by auto
qed

lemma serve_dead_run:
  assumes "server_inv file_dir k s" and "i < k" and "\<forall>ev \<in> set evs. inet_event ev" and "no_write (all_connection s ! i)"
  shows "server_files (serve can_open file_dir evs s) (file_path file_dir i) = server_files s (file_path file_dir i)"
  using assms
proof (induction evs arbitrary: k s)
  case (Cons ev evs)
  then have ev: "inet_event ev" by simp
  have "i < taken_after ev k" using Cons.prems(2) taken_after_mono [of k ev] by simp
  from Cons.IH [OF serve_one_inv [OF Cons.prems(1) ev] this] serve_dead [OF Cons.prems(1,2) ev Cons.prems(4), of can_open] Cons.prems(3)
  show ?case by simp
qed simp

text \<open>The negative count is an error of the stream, and the connection goes on without it.\<close>

lemma short_datagram:
  assumes "server_inv file_dir k s" and "i < k" and "\<not> conn_closed i s"
    and "of_open (myfile (all_connection s ! i)) \<noteq> None"
    and "conn_id (pack_header (event_packet ev)) = of_nat (Suc i)" and "flags (pack_header (event_packet ev)) \<in> {0, ACK}"
    and "seq (pack_header (event_packet ev)) = expected_seq i s" and "event_count ev < 12"
  shows "no_write (all_connection (serve_one can_open file_dir ev s) ! i)"
    and "server_files (serve_one can_open file_dir ev s) = server_files s"
    and "\<not> conn_closed i (serve_one can_open file_dir ev s)"
proof -
  let ?b = "event_packet ev" and ?t = "event_state ev s" and ?c = "all_connection s ! i"
  have t: "server_inv file_dir k ?t" using assms(1) by simp
  have s: "serve_one can_open file_dir ev s = handle_data ?b (event_count ev) ?t"
    using assms(6) by (auto simp: serve_one_cases Let_def)
  have fin: "is_FIN (all_connection ?t ! i) \<noteq> 1" using assms(3) by (simp add: conn_closed_def)
  note here = handle_data_here [OF t assms(2,5) fin, of "event_count ev"]
  have w: "of_fail (fst (ofstream_write b n (f, fs)))" "snd (ofstream_write b n (f, fs)) = fs"
    if "n < 0" "of_open f \<noteq> None" for b n f fs
    using that by (auto simp: ofstream_write_def split: option.split)
  have "of_fail (myfile (fst (receive_data ?b (event_count ev) ?c ?t)))"
    and "server_files (snd (receive_data ?b (event_count ev) ?c ?t)) = server_files s"
    using assms(4,7,8) w [of "event_count ev - 12" "myfile ?c"]
    by (simp_all add: receive_data_def Let_def split_beta expected_seq_def)
  then show "no_write (all_connection (serve_one can_open file_dir ev s) ! i)"
    and "server_files (serve_one can_open file_dir ev s) = server_files s"
    and "\<not> conn_closed i (serve_one can_open file_dir ev s)"
    using fin by (simp_all add: s here no_write_def conn_closed_def receive_data_simps)
qed

end
