(* ===== verification/ConfundoSession.thy ===== *)
theory ConfundoSession
  imports ConfundoDelivery ConfundoClosing
begin

text \<open>
  The client program as a whole, from its first \<^verbatim>\<open>SYN\<close> to its last acknowledgement: the three calls
  at the end of \<^verbatim>\<open>main\<close> in \<^verbatim>\<open>client.cpp\<close>, composed over the passes of each of their loops. \<open>exchange\<close> is
  \<open>reaches\<close> with the passes of the client written down, so that a run of client and server
  becomes an input of the program.
\<close>

section \<open>The client program\<close>

text \<open>
  \<^verbatim>\<open>handshake\<close>, \<^verbatim>\<open>slidingWindow_data_trans\<close> and \<^verbatim>\<open>ending\<close>. The first two return when their loops
  are left; the local variables of the second are gone then.
\<close>

definition sliding_window ::
  "packet \<Rightarrow> buffer option \<Rightarrow> (clock \<times> buffer option) list \<Rightarrow> client \<Rightarrow> client progress" where
  "sliding_window stack file passes c =
     (case then_do (open_transfer stack file c) (transfer_loop passes) of
        Next s \<Rightarrow> Next (client.truncate s)
      | Stop s \<Rightarrow> Stop (client.truncate s)
      | ExitFailure e s \<Rightarrow> ExitFailure e (client.truncate s))"

fun after :: "'s progress \<Rightarrow> ('s \<Rightarrow> 's progress) \<Rightarrow> 's progress" where
  "after (Next c) f = Next c"
| "after (Stop c) f = f c"
| "after (ExitFailure e c) f = ExitFailure e c"

definition client_session ::
  "time_point \<Rightarrow> round list \<Rightarrow> packet \<Rightarrow> buffer option \<Rightarrow> (clock \<times> buffer option) list \<Rightarrow>
   time_point \<Rightarrow> time_point \<Rightarrow> (clock \<times> buffer option) list \<Rightarrow> client progress" where
  "client_session t\<^sub>0 rounds stack file passes t\<^sub>1 t\<^sub>2 closing =
     after (after (handshake t\<^sub>0 rounds client_init) (sliding_window stack file passes)) (ending t\<^sub>1 t\<^sub>2 closing)"

lemma truncate_fields [simp]:
  "seq_num (client.truncate s) = seq_num s" "id_num (client.truncate s) = id_num s"
  "client_sent (client.truncate s) = client_sent s"
  by (simp_all add: client.defs)

text \<open>A predicate on the state a part of the program leaves behind, however it ends.\<close>

fun progress_all :: "('s \<Rightarrow> bool) \<Rightarrow> 's progress \<Rightarrow> bool" where
  "progress_all P (Next s) \<longleftrightarrow> P s"
| "progress_all P (Stop s) \<longleftrightarrow> P s"
| "progress_all P (ExitFailure e s) \<longleftrightarrow> P s"

lemma progress_all_then: "progress_all P m \<Longrightarrow> (\<And>s. P s \<Longrightarrow> progress_all P (f s)) \<Longrightarrow> progress_all P (then_do m f)"
  by (cases m) auto

lemma progress_all_after: "progress_all P m \<Longrightarrow> (\<And>s. P s \<Longrightarrow> progress_all P (f s)) \<Longrightarrow> progress_all P (after m f)"
  by (cases m) auto

lemma progress_all_mono: "progress_all P m \<Longrightarrow> (\<And>s. P s \<Longrightarrow> Q s) \<Longrightarrow> progress_all Q m"
  by (cases m) auto

section \<open>Runs with their passes\<close>

inductive exchange ::
  "(string \<Rightarrow> bool) \<Rightarrow> string \<Rightarrow> nat \<Rightarrow> sockaddr \<Rightarrow> sending \<Rightarrow> server \<Rightarrow> (clock \<times> buffer option) list \<Rightarrow>
   sending \<Rightarrow> server \<Rightarrow> bool"
  for can_open file_dir i A c\<^sub>0 s\<^sub>0 where
  start: "exchange can_open file_dir i A c\<^sub>0 s\<^sub>0 [] c\<^sub>0 s\<^sub>0"
| pass: "exchange can_open file_dir i A c\<^sub>0 s\<^sub>0 ps c s \<Longrightarrow> reply_from A s reply \<Longrightarrow>
    transfer_pass clk reply c = Next c' \<Longrightarrow> exchange can_open file_dir i A c\<^sub>0 s\<^sub>0 (ps @ [(clk, reply)]) c' s"
| deliver: "exchange can_open file_dir i A c\<^sub>0 s\<^sub>0 ps c s \<Longrightarrow> d \<in> set (client_sent c) \<Longrightarrow>
    exchange can_open file_dir i A c\<^sub>0 s\<^sub>0 ps c (serve_one can_open file_dir (Datagram d A 16) s)"
| other: "exchange can_open file_dir i A c\<^sub>0 s\<^sub>0 ps c s \<Longrightarrow> foreign i A s ev \<Longrightarrow>
    exchange can_open file_dir i A c\<^sub>0 s\<^sub>0 ps c (serve_one can_open file_dir ev s)"

lemma reaches_exchange:
  "reaches can_open file_dir i A c\<^sub>0 s\<^sub>0 c s \<longleftrightarrow> (\<exists>ps. exchange can_open file_dir i A c\<^sub>0 s\<^sub>0 ps c s)"
proof
  assume "reaches can_open file_dir i A c\<^sub>0 s\<^sub>0 c s"
  then show "\<exists>ps. exchange can_open file_dir i A c\<^sub>0 s\<^sub>0 ps c s"
    by induction (blast intro: exchange.intros)+
next
  assume "\<exists>ps. exchange can_open file_dir i A c\<^sub>0 s\<^sub>0 ps c s"
  then obtain ps where "exchange can_open file_dir i A c\<^sub>0 s\<^sub>0 ps c s" by blast
  then show "reaches can_open file_dir i A c\<^sub>0 s\<^sub>0 c s"
    by induction (blast intro: reaches.intros)+
qed

lemma transfer_loop_append:
  "transfer_loop (ps @ qs) c = then_do (transfer_loop ps c) (transfer_loop qs)"
proof (induction ps arbitrary: c)
  case (Cons x ps)
  then show ?case by (cases x; cases "transfer_pass (fst x) (snd x) c") simp_all
qed simp

lemma exchange_loop: "exchange can_open file_dir i A c\<^sub>0 s\<^sub>0 ps c s \<Longrightarrow> transfer_loop ps c\<^sub>0 = Next c"
  by (induction rule: exchange.induct) (simp_all add: transfer_loop_append)

section \<open>The end of the transfer\<close>

text \<open>When the client leaves its loop, it and the server agree on the next number.\<close>

lemma transfer_ends:
  assumes "client_side i file m c" and "server_side file_dir i A file m s" and "reply_from A s reply"
    and "length file \<le> 90054" and "transfer_pass clk reply c = Stop c'"
  shows "server_files s (file_path file_dir i) = Some file" and "expected_seq i s = seq_num c'"
    and "ucast (id_num c') = (of_nat (Suc i) :: u16)"
proof -
  have s: "m \<le> length file" "replies_ok m A s" using assms(2) by (simp_all add: server_side_def)
  note p = client_side_pass(2,3) [OF assms(1,3) s(2,1) assms(4,5)]
  then show "ucast (id_num c') = (of_nat (Suc i) :: u16)" by (simp add: client_side_def sending_inv_def Let_def)
  show "server_files s (file_path file_dir i) = Some file"
    using assms(2) p(1) by (auto simp: server_side_def conn_valid_def stored_file_def)
  show "expected_seq i s = seq_num c'"
    using assms(2) p by (simp add: server_side_def client_side_def sending_inv_def Let_def)
qed

lemma session_run:
  assumes "handshake t\<^sub>0 rounds client_init = Stop c" and "open_transfer stack (Some file) c = Next c\<^sub>0"
    and "exchange can_open file_dir i A c\<^sub>0 s\<^sub>0 ps c\<^sub>1 s\<^sub>1" and "transfer_pass clk reply c\<^sub>1 = Stop c\<^sub>2"
  shows "client_session t\<^sub>0 rounds stack (Some file) (ps @ [(clk, reply)]) t\<^sub>1 t\<^sub>2 closing =
    ending t\<^sub>1 t\<^sub>2 closing (client.truncate c\<^sub>2)"
  using exchange_loop [OF assms(3)] assms(1,2,4)
  by (simp add: client_session_def sliding_window_def transfer_loop_append)

end
