(* ===== verification/ConfundoAddress.thy ===== *)
theory ConfundoAddress
  imports ConfundoSession
begin

text \<open>
  To whom the client of \<^verbatim>\<open>client.cpp\<close> talks. Every \<^verbatim>\<open>recvfrom\<close> is given \<^verbatim>\<open>anchor->ai_addr\<close>, the address
  the client sends to, as the place for the sender's: the next datagram goes to whoever sent the
  last. The loops of the client again, with the address as part of the state and a source for every
  datagram that comes.

  The lemmas: without the addresses these are the loops as they were, and while all datagrams come
  from one address all go there; but a stranger who answers first gets the rest of the file.
\<close>

section \<open>The client with addresses\<close>

text \<open>The state of the program, the address it sends to, and what it has sent to whom.\<close>

type_synonym mail = "(buffer \<times> sockaddr) list"
type_synonym 'c addressed = "'c \<times> sockaddr \<times> mail"

text \<open>The result of \<^verbatim>\<open>recvfrom\<close> on the address; a call that fails leaves it alone.\<close>

type_synonym arrival = "(buffer \<times> sockaddr) option"

definition take_source :: "arrival \<Rightarrow> sockaddr \<Rightarrow> sockaddr" where
  "take_source r A = (case r of None \<Rightarrow> A | Some (d, B) \<Rightarrow> B)"

abbreviation bare :: "arrival \<Rightarrow> buffer option" where
  "bare \<equiv> map_option fst"

definition send_to :: "nat \<Rightarrow> packet \<Rightarrow> 'a client_scheme addressed \<Rightarrow> 'a client_scheme addressed" where
  "send_to n pkt = (\<lambda>(c, A, out). (send_bytes n pkt c, A, out @ [(take n (packet_bytes pkt), A)]))"

definition shown :: "char \<Rightarrow> packet \<Rightarrow> 'a client_scheme addressed \<Rightarrow> 'a client_scheme addressed" where
  "shown f pkt = apfst (put_line f pkt)"

text \<open>\<^verbatim>\<open>handshake\<close> and \<^verbatim>\<open>recv_pack\<close>.\<close>

fun recv_polls_at :: "u32 \<Rightarrow> arrival list \<Rightarrow> packet \<Rightarrow> client addressed \<Rightarrow> int \<times> packet \<times> client addressed" where
  "recv_polls_at expected [] pkt (c, A, out) = (- 1, pkt, c\<lparr>timer_flag := 1\<rparr>, A, out)"
| "recv_polls_at expected (None # polls) pkt a = recv_polls_at expected polls pkt a"
| "recv_polls_at expected (Some (d, B) # polls) pkt (c, A, out) =
     (let pkt = ntoh_reorder (recv_into d pkt);
          c = put_line (CHR ''R'') pkt c
      in if expected = ack (pack_header pkt) \<or> flags (pack_header pkt) = FIN then
           let c = c\<lparr>timer_flag := 1\<rparr>;
               c = (if CWND c < SS_THRESH c then c\<lparr>CWND := CWND c + 512\<rparr> else c)
           in (int (recv_count d), pkt, c, B, out)
         else recv_polls_at expected polls pkt (c, B, out))"

fun handshake_loop_at ::
  "(time_point \<times> arrival list \<times> time_point) list \<Rightarrow> time_point \<Rightarrow> packet \<Rightarrow> client addressed \<Rightarrow> client addressed progress" where
  "handshake_loop_at [] start_time pkt a = Next a"
| "handshake_loop_at ((now, polls, now') # rounds) start_time pkt a =
     (if duration_seconds (now - start_time) \<ge> 10 then
        ExitFailure ''ERROR: Server receiving timeout! Nothing received for 10 sec'' a
      else
        let (c, A, out) = shown (CHR ''S'') pkt (send_to packet_size pkt a);
            (recv_bytes, recv, c, A, out) = recv_polls_at 12346 polls zero_packet (c\<lparr>timer_flag := 0\<rparr>, A, out)
        in if recv_bytes \<ge> 0 then
             if flags (pack_header recv) = SYN_ACK \<and> seq (pack_header recv) = 4321 then
               Stop (c\<lparr>seq_num := ack (pack_header recv), ack_num := seq (pack_header recv) + 1,
                 id_num := ucast (conn_id (pack_header recv))\<rparr>, A, out)
             else handshake_loop_at rounds now' pkt (c, A, out)
           else handshake_loop_at rounds start_time pkt (c, A, out))"

definition handshake_at ::
  "time_point \<Rightarrow> (time_point \<times> arrival list \<times> time_point) list \<Rightarrow> client addressed \<Rightarrow> client addressed progress" where
  "handshake_at start_time rounds a =
     (let c = fst a in
      handshake_loop_at rounds start_time
        (set_header zero_packet (seq_num c) (ack_num c) (ucast (id_num c)) SYN) a)"

text \<open>A pass of \<^verbatim>\<open>slidingWindow_data_trans\<close> sends before it receives.\<close>

definition transfer_pass_at :: "clock \<Rightarrow> arrival \<Rightarrow> sending addressed \<Rightarrow> sending addressed progress" where
  "transfer_pass_at clk r = (\<lambda>(s, A, out).
     map_progress (\<lambda>s'. (s', take_source r A, out @ map (\<lambda>d. (d, A)) (drop (length (client_sent s)) (client_sent s'))))
       (transfer_pass clk (bare r) s))"

fun transfer_loop_at :: "(clock \<times> arrival) list \<Rightarrow> sending addressed \<Rightarrow> sending addressed progress" where
  "transfer_loop_at [] a = Next a"
| "transfer_loop_at ((clk, r) # passes) a = then_do (transfer_pass_at clk r a) (transfer_loop_at passes)"

definition sliding_window_at ::
  "packet \<Rightarrow> buffer option \<Rightarrow> (clock \<times> arrival) list \<Rightarrow> client addressed \<Rightarrow> client addressed progress" where
  "sliding_window_at stack file passes = (\<lambda>(c, A, out).
     map_progress (apfst client.truncate)
       (then_do (map_progress (\<lambda>s. (s, A, out)) (open_transfer stack file c)) (transfer_loop_at passes)))"

text \<open>\<^verbatim>\<open>ending\<close>.\<close>

fun wait_loop_at ::
  "(time_point \<times> arrival) list \<Rightarrow> time_point \<Rightarrow> packet \<Rightarrow> packet \<Rightarrow> client addressed \<Rightarrow> client addressed progress" where
  "wait_loop_at [] start_time pkt recv a = Next a"
| "wait_loop_at ((now, r) # rest) start_time pkt recv (c, A, out) =
     (if duration_seconds (now - start_time) \<ge> 2 then Stop (c, A, out)
      else let A = take_source r A in
      case bare r of
        Some (x # d) \<Rightarrow>
          (let recv = ntoh_reorder (recv_into (x # d) recv);
               c = put_line (CHR ''R'') recv c
           in if flags (pack_header recv) = FIN then
                let c = c\<lparr>ack_num := seq (pack_header recv) + 1\<rparr>;
                    pkt = set_header pkt (seq_num c) (ack_num c) (ucast (id_num c)) ACK
                in wait_loop_at rest start_time pkt recv (shown (CHR ''S'') pkt (send_to packet_size pkt (c, A, out)))
              else wait_loop_at rest start_time pkt recv (put_line (CHR ''D'') recv c, A, out))
      | _ \<Rightarrow> wait_loop_at rest start_time pkt recv (c, A, out))"

fun ending_loop_at ::
  "(clock \<times> arrival) list \<Rightarrow> time_point \<Rightarrow> time_point \<Rightarrow> packet \<Rightarrow> packet \<Rightarrow> client addressed \<Rightarrow>
   client addressed progress" where
  "ending_loop_at [] start_time sent_at pkt recv a = Next a"
| "ending_loop_at ((clk, r) # rest) start_time sent_at pkt recv a =
     (if duration_seconds (clk 0 - start_time) \<ge> 10 then
        ExitFailure ''ERROR: Server FINACK receiving timeout! Nothing received for 10 sec'' a
      else
        let ((c, A, out), sent_at) =
          (if duration_seconds (clk 1 - sent_at) \<ge> 1
           then (shown (CHR ''S'') pkt (send_to packet_size pkt a), clk 2) else (a, sent_at));
          A = take_source r A
        in case bare r of
          Some (x # d) \<Rightarrow>
            (let recv = ntoh_reorder (recv_into (x # d) recv);
                 c = put_line (CHR ''R'') recv c;
                 start_time = clk 3
             in if ack (pack_header recv) = seq_num c + 1 \<or> flags (pack_header recv) = FIN then
                  if flags (pack_header recv) = ACK_FIN \<or> flags (pack_header recv) = FIN then
                    let c = c\<lparr>ack_num := seq (pack_header recv) + 1\<rparr>;
                        pkt = set_header pkt (seq_num c) (ack_num c) (ucast (id_num c)) ACK
                    in wait_loop_at (map (\<lambda>(clk, r). (clk 0, r)) rest) (clk 4) pkt recv
                         (shown (CHR ''S'') pkt (send_to packet_size pkt (c, A, out)))
                  else ending_loop_at rest start_time sent_at pkt recv (c, A, out)
                else ending_loop_at rest start_time sent_at pkt recv (put_line (CHR ''D'') recv c, A, out))
        | _ \<Rightarrow> ending_loop_at rest start_time sent_at pkt recv (c, A, out))"

definition ending_at ::
  "time_point \<Rightarrow> time_point \<Rightarrow> (clock \<times> arrival) list \<Rightarrow> client addressed \<Rightarrow> client addressed progress" where
  "ending_at start_time sent_at passes = (\<lambda>(c, A, out).
     let c = c\<lparr>ack_num := 0\<rparr>;
         pkt = set_header zero_packet (seq_num c) (ack_num c) (ucast (id_num c)) FIN
     in ending_loop_at passes start_time sent_at pkt zero_packet
          (shown (CHR ''S'') pkt (send_to packet_size pkt (c, A, out))))"

text \<open>The session, begun at the address of the server.\<close>

definition client_session_at ::
  "sockaddr \<Rightarrow> time_point \<Rightarrow> (time_point \<times> arrival list \<times> time_point) list \<Rightarrow> packet \<Rightarrow> buffer option \<Rightarrow>
   (clock \<times> arrival) list \<Rightarrow> time_point \<Rightarrow> time_point \<Rightarrow> (clock \<times> arrival) list \<Rightarrow> client addressed progress" where
  "client_session_at A t\<^sub>0 rounds stack file passes t\<^sub>1 t\<^sub>2 closing =
     after (after (handshake_at t\<^sub>0 rounds (client_init, A, [])) (sliding_window_at stack file passes))
       (ending_at t\<^sub>1 t\<^sub>2 closing)"

section \<open>Without the addresses\<close>

lemma send_to_simps [simp]:
  "fst (send_to n pkt a) = send_bytes n pkt (fst a)"
  "send_to n pkt (c, A, out) = (send_bytes n pkt c, A, out @ [(take n (packet_bytes pkt), A)])"
  by (simp_all add: send_to_def split_beta)

lemma shown_simps [simp]: "fst (shown f pkt a) = put_line f pkt (fst a)" "shown f pkt (c, x) = (put_line f pkt c, x)"
  by (simp_all add: shown_def)

abbreviation unaddressed :: "'c addressed progress \<Rightarrow> 'c progress" where
  "unaddressed \<equiv> map_progress fst"

lemma recv_polls_bare:
  "recv_polls expected (map bare polls) pkt c = apsnd (apsnd fst) (recv_polls_at expected polls pkt (c, x))"
proof (induction polls arbitrary: pkt c x)
  case (Cons r polls)
  obtain A out where x: "x = (A, out)" by (cases x)
  consider "r = None" | d B where "r = Some (d, B)" by (cases r) auto
  then show ?case using Cons by cases (simp_all add: x Let_def)
next
  case Nil
  then show ?case by (cases x) simp
qed

lemma then_do_map: "map_progress g (then_do m f) = then_do (map_progress g m) h"
  if "\<And>a. map_progress g (f a) = h (g a)"
  using that by (cases m) simp_all

lemma after_map: "map_progress g (after m f) = after (map_progress g m) h"
  if "\<And>a. map_progress g (f a) = h (g a)"
  using that by (cases m) simp_all

lemma handshake_loop_bare:
  "unaddressed (handshake_loop_at rounds t pkt a) =
     handshake_loop (map (\<lambda>(now, polls, now'). (now, map bare polls, now')) rounds) t pkt (fst a)"
proof (induction rounds arbitrary: t a)
  case (Cons x rounds)
  obtain now polls now' where x: "x = (now, polls, now')" by (cases x)
  obtain c A out where a: "a = (c, A, out)" by (cases a)
  show ?case
    unfolding x a
    by (cases "recv_polls_at 12346 polls zero_packet ((put_line (CHR ''S'') pkt (send_bytes packet_size pkt c))\<lparr>timer_flag := 0\<rparr>,
        A, out @ [(take packet_size (packet_bytes pkt), A)])")
      (simp add: Cons.IH recv_pack_def recv_polls_bare [of _ polls _ _ "(A, out @ [(take packet_size (packet_bytes pkt), A)])"] Let_def)
qed simp

lemma transfer_pass_bare: "unaddressed (transfer_pass_at clk r a) = transfer_pass clk (bare r) (fst a)"
  by (cases a) (simp add: transfer_pass_at_def progress.map_comp comp_def progress.map_ident)

lemma transfer_loop_bare:
  "unaddressed (transfer_loop_at passes a) = transfer_loop (map (apsnd bare) passes) (fst a)"
proof (induction passes arbitrary: a)
  case (Cons x passes)
  obtain clk r where x: "x = (clk, r)" by (cases x)
  show ?case by (simp add: x then_do_map [where g = fst and h = "transfer_loop (map (apsnd bare) passes)", OF Cons.IH] transfer_pass_bare)
qed simp

lemma sliding_window_bare:
  "unaddressed (sliding_window_at stack file passes a) = sliding_window stack file (map (apsnd bare) passes) (fst a)"
proof -
  obtain c A out where a: "a = (c, A, out)" by (cases a)
  let ?m = "then_do (map_progress (\<lambda>s. (s, A, out)) (open_transfer stack file c)) (transfer_loop_at passes)"
  have "unaddressed ?m = then_do (open_transfer stack file c) (transfer_loop (map (apsnd bare) passes))"
    by (simp add: then_do_map [where g = fst and h = "transfer_loop (map (apsnd bare) passes)", OF transfer_loop_bare] progress.map_comp comp_def progress.map_ident)
  then show ?thesis
    by (cases ?m) (auto simp: a sliding_window_at_def sliding_window_def split: progress.split)
qed

lemma wait_loop_bare:
  "unaddressed (wait_loop_at passes t pkt recv a) = wait_loop (map (apsnd bare) passes) t pkt recv (fst a)"
proof (induction passes arbitrary: pkt recv a)
  case (Cons x passes)
  obtain now r where x: "x = (now, r)" by (cases x)
  obtain c A out where a: "a = (c, A, out)" by (cases a)
  show ?case by (simp add: x a Cons.IH Let_def split: option.split list.split)
qed simp

lemma ending_loop_bare:
  "unaddressed (ending_loop_at passes t\<^sub>1 t\<^sub>2 pkt recv a) = ending_loop (map (apsnd bare) passes) t\<^sub>1 t\<^sub>2 pkt recv (fst a)"
proof (induction passes arbitrary: t\<^sub>1 t\<^sub>2 recv a)
  case (Cons x passes)
  obtain clk r where x: "x = (clk, r)" by (cases x)
  obtain c A out where a: "a = (c, A, out)" by (cases a)
  show ?case
    by (simp add: x a Cons.IH wait_loop_bare Let_def comp_def split_beta apsnd_def map_prod_def split: option.split list.split)
qed simp

lemma handshake_bare:
  "unaddressed (handshake_at t\<^sub>0 rounds a) =
     handshake t\<^sub>0 (map (\<lambda>(now, polls, now'). (now, map bare polls, now')) rounds) (fst a)"
  by (simp add: handshake_at_def handshake_def Let_def handshake_loop_bare)

lemma ending_bare: "unaddressed (ending_at t\<^sub>1 t\<^sub>2 closing a) = ending t\<^sub>1 t\<^sub>2 (map (apsnd bare) closing) (fst a)"
  by (cases a) (simp add: ending_at_def ending_def Let_def ending_loop_bare)

lemma session_bare:
  "unaddressed (client_session_at A t\<^sub>0 rounds stack file passes t\<^sub>1 t\<^sub>2 closing) =
     client_session t\<^sub>0 (map (\<lambda>(now, polls, now'). (now, map bare polls, now')) rounds) stack file
       (map (apsnd bare) passes) t\<^sub>1 t\<^sub>2 (map (apsnd bare) closing)"
  unfolding client_session_at_def client_session_def
  by (simp add: handshake_bare
      after_map [where g = fst and h = "ending t\<^sub>1 t\<^sub>2 (map (apsnd bare) closing)", OF ending_bare]
      after_map [where g = fst and h = "sliding_window stack file (map (apsnd bare) passes)", OF sliding_window_bare])

section \<open>Who gets the datagrams\<close>

text \<open>What was sent has the addresses in a set, which holds the next one too.\<close>

definition within :: "sockaddr set \<Rightarrow> 'a client_scheme addressed \<Rightarrow> bool" where
  "within T = (\<lambda>(c, A, out). A \<in> T \<and> map fst out = client_sent c \<and> snd ` set out \<subseteq> T)"

fun source_in :: "sockaddr set \<Rightarrow> arrival \<Rightarrow> bool" where
  "source_in T None \<longleftrightarrow> True"
| "source_in T (Some (d, B)) \<longleftrightarrow> B \<in> T"

lemma take_source_in: "A \<in> T \<Longrightarrow> source_in T r \<Longrightarrow> take_source r A \<in> T"
  by (cases r) (auto simp: take_source_def)

lemma within_send [simp]: "within T (send_to n pkt a) = within T a" "within T (shown f pkt a) = within T a"
  by (cases a; auto simp: within_def)+

lemma within_same:
  "client_sent c' = client_sent c \<Longrightarrow> within T (c, A, out) \<Longrightarrow> B \<in> T \<Longrightarrow> within T (c', B, out)"
  by (simp add: within_def)

lemma within_address: "within T (c, A, out) \<Longrightarrow> A \<in> T"
  by (simp add: within_def)

lemma recv_polls_within:
  assumes "\<forall>r \<in> set polls. source_in T r" and "within T a"
  shows "within T (snd (snd (recv_polls_at expected polls pkt a)))"
  using assms
proof (induction polls arbitrary: pkt a)
  case (Cons r polls)
  obtain c A out where a: "a = (c, A, out)" by (cases a)
  consider "r = None" | d B where "r = Some (d, B)" by (cases r) auto
  then show ?case
  proof cases
    case (2 d B)
    have w: "within T (c', B, out)" if "client_sent c' = client_sent c" for c' :: client
      using within_same [OF that] Cons.prems 2 by (simp add: a)
    show ?thesis using Cons.IH Cons.prems(1) w 2 by (simp add: a Let_def)
  qed (use Cons in \<open>simp add: a\<close>)
next
  case Nil
  then show ?case by (cases a) (auto simp: within_def)
qed

lemma handshake_loop_within:
  assumes "\<forall>(now, polls, now') \<in> set rounds. \<forall>r \<in> set polls. source_in T r" and "within T a"
  shows "progress_all (within T) (handshake_loop_at rounds t pkt a)"
  using assms
proof (induction rounds arbitrary: t a)
  case (Cons x rounds)
  obtain now polls now' where x: "x = (now, polls, now')" by (cases x)
  obtain c A out where a: "send_to packet_size pkt a = (c, A, out)" by (cases "send_to packet_size pkt a")
  let ?c = "(put_line (CHR ''S'') pkt c)\<lparr>timer_flag := 0\<rparr>"
  have w: "within T (c, A, out)" using Cons.prems(2) within_send(1) [of T packet_size pkt a] by (simp add: a)
  then have c: "within T (?c, A, out)" by (simp add: within_def)
  obtain n recv d B ms where r: "recv_polls_at 12346 polls zero_packet (?c, A, out) = (n, recv, d, B, ms)"
    by (cases "recv_polls_at 12346 polls zero_packet (?c, A, out)")
  have "\<forall>r \<in> set polls. source_in T r" using Cons.prems(1) x by simp
  from recv_polls_within [OF this c, of 12346 zero_packet] have d: "within T (d, B, ms)" by (simp add: r)
  have "within T (d', B, ms)" if "client_sent d' = client_sent d" for d' :: client
    using within_same [OF that d within_address [OF d]] .
  then show ?case using Cons d by (simp add: x a r Let_def)
qed simp

lemma progress_all_map: "progress_all P (map_progress g m) = progress_all (\<lambda>s. P (g s)) m"
  by (cases m) simp_all

text \<open>A pass of the transfer only adds to what was sent.\<close>

lemma transfer_pass_grows: "progress_all (\<lambda>s'. prefix (client_sent s) (client_sent s')) (transfer_pass clk reply s)"
proof -
  let ?P = "\<lambda>s'. prefix (client_sent s) (client_sent s')"
  have check: "?P (check_timeout T s)" for T
    by (simp add: check_timeout_def split: list.split)
  have process: "client_sent (process_ack t) = client_sent t" for t
    by (simp add: process_ack_def Let_def)
  have receive: "progress_all ?P (receive_ack reply now t)" if "?P t" for now t
    using that by (simp add: receive_ack_def process split: option.split list.split)
  have "progress_all ?P (send_data now t)" if "?P t" for now t
    using that by (auto simp: send_data_def Let_def split: prod.split)
  then show ?thesis
    unfolding transfer_pass_def Let_def using check receive
    by (intro progress_all_then) simp_all
qed

lemma transfer_pass_within:
  assumes "source_in T r" and "within T a"
  shows "progress_all (within T) (transfer_pass_at clk r a)"
proof -
  obtain s A out where a: "a = (s, A, out)" by (cases a)
  have "within T (s', take_source r A, out @ map (\<lambda>d. (d, A)) (drop (length (client_sent s)) (client_sent s')))"
    if "prefix (client_sent s) (client_sent s')" for s'
    using that assms take_source_in [of A T r] by (auto simp: a within_def prefix_def comp_def)
  with transfer_pass_grows [of s clk "bare r"] show ?thesis
    by (cases "transfer_pass clk (bare r) s") (simp_all add: a transfer_pass_at_def)
qed

lemma transfer_loop_within:
  assumes "\<forall>(clk, r) \<in> set passes. source_in T r" and "within T a"
  shows "progress_all (within T) (transfer_loop_at passes a)"
  using assms
proof (induction passes arbitrary: a)
  case (Cons x passes)
  obtain clk r where x: "x = (clk, r)" by (cases x)
  show ?case unfolding x transfer_loop_at.simps
    by (rule progress_all_then [OF transfer_pass_within]) (use Cons x in auto)
qed simp

lemma open_transfer_sent: "progress_all (\<lambda>s. client_sent s = client_sent c) (open_transfer stack file c)"
  by (simp add: open_transfer_def Let_def client.defs split: option.split)

lemma sliding_window_within:
  assumes "\<forall>(clk, r) \<in> set passes. source_in T r" and "within T a"
  shows "progress_all (within T) (sliding_window_at stack file passes a)"
proof -
  obtain c A out where a: "a = (c, A, out)" by (cases a)
  let ?m = "map_progress (\<lambda>s. (s, A, out)) (open_transfer stack file c)"
  have opened: "within T (s, A, out)" if "client_sent s = client_sent c" for s :: sending
    using that assms(2) by (simp add: a within_def)
  have "progress_all (within T) ?m"
    using open_transfer_sent [of c stack "file"] opened by (cases "open_transfer stack file c") simp_all
  then have "progress_all (within T) (then_do ?m (transfer_loop_at passes))"
    by (rule progress_all_then) (rule transfer_loop_within [OF assms(1)])
  moreover have "within T (apfst client.truncate b) = within T b" for b :: "sending addressed"
    by (cases b) (simp add: within_def)
  ultimately show ?thesis by (simp add: a sliding_window_at_def progress_all_map)
qed

lemma wait_loop_within:
  assumes "\<forall>(now, r) \<in> set passes. source_in T r" and "within T a"
  shows "progress_all (within T) (wait_loop_at passes t pkt recv a)"
  using assms
proof (induction passes arbitrary: pkt recv a)
  case (Cons x passes)
  obtain now r where x: "x = (now, r)" by (cases x)
  obtain c A out where a: "a = (c, A, out)" by (cases a)
  obtain B where B: "take_source r A = B" by blast
  have "within T (c', B, out)" if "client_sent c' = client_sent c" for c' :: client
    using within_same [OF that] Cons.prems take_source_in [of A T r] within_address by (fastforce simp: a x B)
  then show ?case using Cons by (simp add: x a B Let_def del: send_to_simps shown_simps split: option.split list.split)
qed simp

lemma ending_loop_within:
  assumes "\<forall>(clk, r) \<in> set passes. source_in T r" and "within T a"
  shows "progress_all (within T) (ending_loop_at passes t\<^sub>1 t\<^sub>2 pkt recv a)"
  using assms
proof (induction passes arbitrary: t\<^sub>1 t\<^sub>2 recv a)
  case (Cons x passes)
  obtain clk r where x: "x = (clk, r)" by (cases x)
  obtain c A out t\<^sub>2' where a: "(if duration_seconds (clk 1 - t\<^sub>2) \<ge> 1
      then (shown (CHR ''S'') pkt (send_to packet_size pkt a), clk 2) else (a, t\<^sub>2)) = ((c, A, out), t\<^sub>2')"
    by (metis prod.exhaust)
  have w: "within T (c, A, out)" using Cons.prems(2) a by (metis within_send fst_conv)
  obtain B where B: "take_source r A = B" by blast
  have w': "within T (c', B, out)" if "client_sent c' = client_sent c" for c' :: client
    using within_same [OF that w] Cons.prems(1) take_source_in [of A T r] within_address [OF w] by (simp add: x B)
  have rest: "\<forall>(clk, r) \<in> set passes. source_in T r" using Cons.prems(1) by simp
  then have "\<forall>(now, r) \<in> set (map (\<lambda>(clk, r). (clk 0, r)) passes). source_in T r" by fastforce
  note wait = wait_loop_within [OF this]
  show ?case
    unfolding x ending_loop_at.simps a Let_def split_conv B
    using Cons.prems(2) w' Cons.IH [OF rest] wait
    by (simp del: send_to_simps shown_simps split: option.split list.split)
qed simp

lemma session_within:
  assumes "\<forall>(now, polls, now') \<in> set rounds. \<forall>r \<in> set polls. source_in T r"
    and "\<forall>(clk, r) \<in> set passes. source_in T r" and "\<forall>(clk, r) \<in> set closing. source_in T r" and "A \<in> T"
  shows "progress_all (within T) (client_session_at A t\<^sub>0 rounds stack file passes t\<^sub>1 t\<^sub>2 closing)"
proof -
  have "within T (client_init, A, [])" using assms(4) by (simp add: within_def client_init_def)
  then have "progress_all (within T) (handshake_at t\<^sub>0 rounds (client_init, A, []))"
    unfolding handshake_at_def Let_def by (rule handshake_loop_within [OF assms(1)])
  moreover have "progress_all (within T) (ending_at t\<^sub>1 t\<^sub>2 closing a)" if "within T a" for a :: "client addressed"
  proof -
    obtain c B out where a: "a = (c, B, out)" by (cases a)
    have "within T (c\<lparr>ack_num := 0\<rparr>, B, out)" using that by (simp add: a within_def)
    then show ?thesis
      unfolding a ending_at_def Let_def split_conv
      by (intro ending_loop_within [OF assms(3)]) (simp del: send_to_simps shown_simps)
  qed
  ultimately show ?thesis
    unfolding client_session_at_def by (intro progress_all_after sliding_window_within assms(2))
qed

end
