(* ===== verification/ConfundoWindow.thy ===== *)
theory ConfundoWindow
  imports ConfundoClient
begin

text \<open>
  The congestion window of the client in numbers. \<open>window_ok\<close>: the window stays between 512 and
  262145 bytes and the threshold below 131073, so that no sum of \<open>grow_window\<close> wraps and no division
  is by zero. \<open>flight_ok\<close>: the packets in the log and the ones the client may still send fit in
  the window; it holds until a timeout, which shrinks the window and leaves the log as it is.
\<close>

section \<open>Bounds\<close>

definition window_ok :: "'a client_scheme \<Rightarrow> bool" where
  "window_ok c \<longleftrightarrow> 512 \<le> unat (CWND c) \<and> unat (CWND c) \<le> 262145 \<and> unat (SS_THRESH c) \<le> 131072"

definition flight_ok :: "sending \<Rightarrow> bool" where
  "flight_ok s \<longleftrightarrow> length (CWND_logs s) + unat (CWND_space s) \<le> unat (CWND s) div 512"

text \<open>In congestion avoidance the window grows by less than one packet.\<close>

lemma avoidance_bound:
  fixes w :: nat
  assumes "512 \<le> w" and "w \<le> 262145"
  shows "262144 div w \<le> 512" and "w + 262144 div w \<le> 262145"
proof -
  have w: "0 < w" using assms by simp
  have "262144 div w \<le> 262144 div 512" by (rule div_le_mono2) (use assms in simp_all)
  then show le: "262144 div w \<le> 512" by simp
  show "w + 262144 div w \<le> 262145"
  proof (cases "w \<le> 261633")
    case False
    have "262144 div w < 2" using False by (intro div_less_iff_less_mult [THEN iffD2]) simp_all
    moreover have "262144 div w = 0" if "262144 < w" using that by simp
    ultimately show ?thesis using assms(2) by (cases "262144 < w") simp_all
  qed (use le in simp)
qed

lemma unat_plus_small: "unat (x :: u32) + unat y < 2 ^ 32 \<Longrightarrow> unat (x + y) = unat x + unat y"
  by (simp add: unat_word_ariths)

lemma grow_window_CWND:
  assumes "window_ok s"
  shows "unat (CWND (grow_window s)) = unat (CWND s) +
    (if CWND s < SS_THRESH s then 512 else 262144 div unat (CWND s))"
proof (cases "CWND s < SS_THRESH s")
  case True
  then have "unat (CWND s) < 131072" using assms by (simp add: window_ok_def word_less_nat_alt)
  with True show ?thesis by (simp add: grow_window_def unat_plus_small)
next
  case False
  have b: "unat (CWND s) + 262144 div unat (CWND s) \<le> 262145"
    using assms avoidance_bound(2) by (simp add: window_ok_def)
  have d: "unat (262144 div CWND s) = 262144 div unat (CWND s)" by (simp add: unat_div_distrib)
  have "unat (CWND s + 262144 div CWND s) = unat (CWND s) + 262144 div unat (CWND s)"
    using b by (subst unat_plus_small) (simp_all add: d)
  with False show ?thesis by (simp add: grow_window_def Let_def)
qed

lemma grow_window_ok:
  assumes "window_ok s"
  shows "window_ok (grow_window s)"
proof -
  have "CWND s < SS_THRESH s \<Longrightarrow> unat (CWND s) < 131072"
    using assms by (simp add: window_ok_def word_less_nat_alt)
  then show ?thesis
    using assms avoidance_bound(2) [of "unat (CWND s)"] by (auto simp: window_ok_def grow_window_CWND [OF assms])
qed

text \<open>What the growth of the window lets the client send more.\<close>

lemma grow_window_gain:
  assumes "window_ok s" and "unat (CWND_space s) \<le> 1000"
  shows "unat (CWND_space (grow_window s)) + unat (CWND s) div 512 \<le>
    unat (CWND_space s) + 1 + unat (CWND (grow_window s)) div 512"
proof (cases "CWND s < SS_THRESH s")
  case True
  then have "CWND_space (grow_window s) = CWND_space s + 2" by (simp add: grow_window_def)
  moreover have "unat (CWND_space s + 2) = unat (CWND_space s) + 2"
    using assms(2) by (subst unat_plus_small) simp_all
  ultimately show ?thesis using True by (simp add: grow_window_CWND [OF assms(1)])
next
  case False
  let ?w = "CWND s" and ?v = "CWND (grow_window s)"
  have v: "?v = ?w + 262144 div ?w" using False by (simp add: grow_window_def Let_def)
  have le: "unat ?w \<le> unat ?v" by (simp add: grow_window_CWND [OF assms(1)])
  then have dv: "unat ?w div 512 \<le> unat ?v div 512" by (rule div_le_mono)
  have "unat (?v div 512 - ?w div 512) = unat ?v div 512 - unat ?w div 512"
    using dv by (subst unat_sub) (simp_all add: word_le_nat_alt unat_div_distrib)
  then have test: "?v div 512 - ?w div 512 \<ge> 1 \<longleftrightarrow> unat ?w div 512 < unat ?v div 512"
    by (simp add: word_le_nat_alt Suc_le_eq)
  have "CWND_space (grow_window s) = (if ?v div 512 - ?w div 512 \<ge> 1 then CWND_space s + 2 else CWND_space s + 1)"
    using False v by (simp add: grow_window_def Let_def)
  moreover have "unat (CWND_space s + 2) = unat (CWND_space s) + 2" "unat (CWND_space s + 1) = unat (CWND_space s) + 1"
    using assms(2) by (subst unat_plus_small; simp)+
  ultimately show ?thesis using test dv by simp
qed

section \<open>One pass\<close>

lemma check_timeout_window: "window_ok s \<Longrightarrow> window_ok (check_timeout T s)"
  by (auto simp: check_timeout_def window_ok_def unat_div_distrib split: list.split)

text \<open>Sending takes one off the space and adds one to the log.\<close>

lemma send_data_window:
  assumes "send_data now s = Next s'"
  shows "CWND s' = CWND s" and "SS_THRESH s' = SS_THRESH s" and "CWND_space s' = CWND_space s - 1"
    and "length (CWND_logs s') = Suc (length (CWND_logs s))"
  using assms by (auto simp: send_data_def Let_def split_beta split: if_splits)

lemma send_data_not_Stop: "send_data now s \<noteq> Stop s'"
  by (simp add: send_data_def Let_def split_beta)

lemma acked_shorter: "\<exists>l \<in> set logs. E_ACK l = a \<Longrightarrow> length (acked a logs) < length logs"
  by (erule acked_split) (metis length_append length_Cons add_Suc_right less_add_Suc2)

lemma window_ok_cong: "CWND c = CWND d \<Longrightarrow> SS_THRESH c = SS_THRESH d \<Longrightarrow> window_ok c = window_ok d"
  by (simp add: window_ok_def)

lemma process_ack_window:
  assumes "window_ok s"
  shows "window_ok (process_ack s)" and "flight_ok s \<Longrightarrow> flight_ok (process_ack s)"
proof -
  define a where "a = ack (pack_header (recv_packet s))"
  have "window_ok (process_ack s) \<and> (flight_ok s \<longrightarrow> flight_ok (process_ack s))"
  proof (cases "\<exists>l \<in> set (CWND_logs s). E_ACK l = a")
    case True
    define u where "u = (put_line (CHR ''R'') (recv_packet s) s)\<lparr>CWND_logs := tl (dropWhile (\<lambda>l. E_ACK l \<noteq> a) (CWND_logs s))\<rparr>"
    have p: "process_ack s = grow_window u" using True by (simp add: process_ack_def Let_def a_def u_def)
    have u: "window_ok u" "CWND u = CWND s" "CWND_space u = CWND_space s" "CWND_logs u = acked a (CWND_logs s)"
      using assms True by (simp_all add: u_def window_ok_def acked_def)
    have "flight_ok (grow_window u)" if f: "flight_ok s"
    proof -
      have "unat (CWND s) div 512 \<le> 262145 div 512"
        by (rule div_le_mono) (use assms in \<open>simp add: window_ok_def\<close>)
      then have "unat (CWND_space u) \<le> 1000" using f u(3) by (simp add: flight_ok_def)
      from grow_window_gain [OF u(1) this] u acked_shorter [OF True] f show ?thesis by (simp add: flight_ok_def)
    qed
    with grow_window_ok [OF u(1)] show ?thesis by (simp add: p)
  qed (use assms in \<open>auto simp: process_ack_def a_def Let_def window_ok_def flight_ok_def\<close>)
  then show "window_ok (process_ack s)" and "flight_ok s \<Longrightarrow> flight_ok (process_ack s)" by auto
qed

lemma receive_ack_window:
  assumes "receive_ack reply now s = Next s'" and "window_ok s"
  shows "window_ok s'" and "flight_ok s \<Longrightarrow> flight_ok s'"
proof -
  have "s' = s \<or> (\<exists>p. s' = process_ack (s\<lparr>recv_packet := p, timeout_check := now\<rparr>))"
    using assms(1) by (auto simp: receive_ack_def split: option.splits list.splits if_splits)
  moreover have "window_ok (s\<lparr>recv_packet := p, timeout_check := now\<rparr>)"
      "flight_ok (s\<lparr>recv_packet := p, timeout_check := now\<rparr>) = flight_ok s" for p
    using assms(2) by (simp_all add: window_ok_def flight_ok_def)
  ultimately show "window_ok s'" and "flight_ok s \<Longrightarrow> flight_ok s'"
    using assms(2) process_ack_window by metis+
qed

text \<open>The oldest packet has been waiting for at most half a second.\<close>

definition in_time :: "time_point \<Rightarrow> sending \<Rightarrow> bool" where
  "in_time T s \<longleftrightarrow> (\<forall>l ls. CWND_logs s = l # ls \<longrightarrow> duration_millis (T - send_time l) \<le> 500)"

lemma check_timeout_in_time: "in_time T s \<Longrightarrow> check_timeout T s = s"
  by (auto simp: check_timeout_def in_time_def split: list.split)

lemma transfer_pass_window:
  assumes "transfer_pass clk reply s \<in> {Next s', Stop s'}" and "window_ok s"
  shows "window_ok s'" and "in_time (clk 0) s \<Longrightarrow> flight_ok s \<Longrightarrow> flight_ok s'"
proof -
  define s1 where "s1 = check_timeout (clk 0) s"
  let ?send = "if CWND_space s1 > 0 \<and> \<not> eofbit (infile s1) then send_data (clk 1) s1 else Next s1"
  have w1: "window_ok s1" using check_timeout_window [OF assms(2)] by (simp add: s1_def)
  obtain s2 where s2: "?send = Next s2"
    using assms(1) send_data_not_Stop [of "clk 1" s1]
    by (cases ?send) (auto simp: transfer_pass_def Let_def s1_def [symmetric] split: if_splits)
  then have "transfer_pass clk reply s = then_do (receive_ack reply (clk 2) s2) (\<lambda>s.
      if ifstream_tellg (infile s) = - 1 \<and> CWND_logs s = [] then Stop s else Next s)"
    by (auto simp: transfer_pass_def Let_def s1_def split: if_splits)
  then have s': "receive_ack reply (clk 2) s2 = Next s'"
    using assms(1) receive_ack_not_Stop [of reply "clk 2" s2]
    by (cases "receive_ack reply (clk 2) s2") (auto split: if_splits)
  have w2: "window_ok s2"
    using s2 w1 send_data_window(1,2) [of "clk 1" s1 s2] window_ok_cong [of s2 s1] by (auto split: if_splits)
  show "window_ok s'" by (rule receive_ack_window(1) [OF s' w2])
  assume "in_time (clk 0) s" and f: "flight_ok s"
  then have "s1 = s" by (simp add: s1_def check_timeout_in_time)
  then have "flight_ok s2"
  proof (cases "CWND_space s > 0 \<and> \<not> eofbit (infile s)")
    case True
    with s2 \<open>s1 = s\<close> have "send_data (clk 1) s = Next s2" by simp
    note w = send_data_window [OF this]
    have "unat (CWND_space s - 1) = unat (CWND_space s) - 1" "0 < unat (CWND_space s)"
      using True by (simp_all add: unat_minus_one word_neq_0_conv unat_gt_0)
    with w f show ?thesis by (simp add: flight_ok_def)
  qed (use s2 f in auto)
  then show "flight_ok s'" by (rule receive_ack_window(2) [OF s' w2])
qed

section \<open>The whole transfer\<close>

text \<open>No packet is late in any pass.\<close>

fun all_in_time :: "(clock \<times> buffer option) list \<Rightarrow> sending \<Rightarrow> bool" where
  "all_in_time [] s = True"
| "all_in_time ((clk, reply) # passes) s =
     (in_time (clk 0) s \<and> (\<forall>s'. transfer_pass clk reply s = Next s' \<longrightarrow> all_in_time passes s'))"

lemma transfer_loop_window:
  assumes "transfer_loop passes s \<in> {Next s', Stop s'}" and "window_ok s"
  shows "window_ok s'" and "all_in_time passes s \<Longrightarrow> flight_ok s \<Longrightarrow> flight_ok s'"
proof -
  have "window_ok s' \<and> (all_in_time passes s \<longrightarrow> flight_ok s \<longrightarrow> flight_ok s')"
    using assms
  proof (induction passes arbitrary: s)
    case (Cons p passes)
    obtain clk reply where p: "p = (clk, reply)" by (cases p)
    show ?case
    proof (cases "transfer_pass clk reply s")
      case (Next t)
      then have "transfer_pass clk reply s \<in> {Next t, Stop t}" by simp
      note pass = transfer_pass_window [OF this Cons.prems(2)]
      have "transfer_loop passes t \<in> {Next s', Stop s'}" using Cons.prems(1) p Next by simp
      from Cons.IH [OF this pass(1)] pass(2) p Next show ?thesis by simp
    next
      case (Stop t)
      then have "t = s'" using Cons.prems(1) p by simp
      with Stop transfer_pass_window [OF _ Cons.prems(2), of clk reply s'] p show ?thesis by simp
    next
      case (ExitFailure e t)
      then show ?thesis using Cons.prems(1) p by simp
    qed
  qed auto
  then show "window_ok s'" and "all_in_time passes s \<Longrightarrow> flight_ok s \<Longrightarrow> flight_ok s'" by auto
qed

end
