(* ===== verification/ConfundoTimers.thy ===== *)
theory ConfundoTimers
  imports ConfundoClient
begin

text \<open>
  The timers of the client. A packet that is not acknowledged for half a second is sent again,
  with a window of one packet; when nothing at all arrives for ten seconds each phase of the
  client ends with its error message, however its passes are timed.
\<close>

section \<open>The timer thread\<close>

text \<open>
  \<^verbatim>\<open>timer\<close>, which runs beside \<^verbatim>\<open>recv_pack\<close>: in each turn it reads the flag and, when that is not set, the
  clock. It ends because the flag was set (\<open>False\<close>) or sets it itself (\<open>True\<close>).
\<close>

fun timer :: "int \<Rightarrow> time_point \<Rightarrow> (int \<times> time_point) list \<Rightarrow> bool option" where
  "timer ms time_out [] = None"
| "timer ms time_out ((flag, now) # turns) =
     (if flag = 1 then Some False
      else if duration_millis (now - time_out) \<ge> ms then Some True
      else timer ms time_out turns)"

text \<open>It never sets the flag early, and does not miss the moment.\<close>

lemma timer_early:
  "\<forall>x \<in> set turns. duration_millis (snd x - t) < ms \<Longrightarrow> timer ms t turns \<noteq> Some True"
  by (induction ms t turns rule: timer.induct) auto

lemma timer_ends:
  "x \<in> set turns \<Longrightarrow> fst x = 1 \<or> ms \<le> duration_millis (snd x - t) \<Longrightarrow> timer ms t turns \<noteq> None"
  by (induction turns) auto

section \<open>The oldest packet is late\<close>

text \<open>A pass in which nothing arrives.\<close>

definition silent :: "buffer option \<Rightarrow> bool" where
  "silent reply \<longleftrightarrow> reply = None \<or> reply = Some []"

lemma receive_silent:
  assumes "silent reply"
  shows "receive_ack reply now s =
    (if duration_seconds (now - timeout_check s) \<ge> 10
     then ExitFailure ''ERROR: nothing receive from server for 10 second'' s else Next s)"
  using assms by (auto simp: silent_def receive_ack_def)

text \<open>
  While packets are in the log a silent pass ends in the error message or goes on, and the log
  does not become empty: what a timeout takes off is sent and logged again.
\<close>

lemma silent_pass:
  assumes "sending_inv file n s" and "CWND_logs s \<noteq> []" and "timer_flag s \<noteq> 0" and "silent reply"
  obtains s' where "sending_inv file n s'" and "CWND_logs s' \<noteq> []" and "timer_flag s' \<noteq> 0"
    and "timeout_check s' = timeout_check s"
    and "transfer_pass clk reply s = (if duration_seconds (clk 2 - timeout_check s) \<ge> 10
      then ExitFailure ''ERROR: nothing receive from server for 10 second'' s' else Next s')"
proof -
  let ?t = "check_timeout (clk 0) s"
  have t: "sending_inv file n ?t" by (rule check_timeout_inv [OF assms(1)])
  have same: "timeout_check ?t = timeout_check s" "timer_flag ?t = timer_flag s"
    by (simp_all add: check_timeout_def split: list.split)
  have go: "CWND_logs ?t \<noteq> [] \<or> CWND_space ?t > 0 \<and> \<not> eofbit (infile ?t)"
    using assms(2) by (auto simp: check_timeout_def ifstream_rewind split: list.split)
  have flag: "send_data (clk 1) ?t = Next u \<Longrightarrow> timer_flag u \<noteq> 0" for u
    using assms(3) same(2)
    by (auto simp: send_data_def Let_def split_beta log_packet_def announce_def split: if_splits)
  obtain u where u: "(if CWND_space ?t > 0 \<and> \<not> eofbit (infile ?t) then send_data (clk 1) ?t else Next ?t) = Next u"
      "sending_inv file n u" "CWND_logs u \<noteq> []" "timeout_check u = timeout_check s" "timer_flag u \<noteq> 0"
  proof (cases "CWND_space ?t > 0 \<and> \<not> eofbit (infile ?t)")
    case True
    then obtain u where "send_data (clk 1) ?t = Next u" "sending_inv file n u" "CWND_logs u \<noteq> []"
        "timeout_check u = (if timer_flag ?t = 0 then clk 1 else timeout_check ?t)"
      using send_data_effect [OF t, where now = "clk 1"] by (metis append_is_Nil_conv list.distinct(1))
    with True that [of u] same assms(3) flag [of u] show ?thesis by simp
  next
    case False
    with that [of ?t] go t same assms(3) show ?thesis by auto
  qed
  have "transfer_pass clk reply s = then_do (receive_ack reply (clk 2) u)
      (\<lambda>s. if ifstream_tellg (infile s) = - 1 \<and> CWND_logs s = [] then Stop s else Next s)"
    unfolding transfer_pass_def Let_def u(1) by simp
  then show ?thesis
    using that [OF u(2,3,5,4)] u(3,4) by (simp add: receive_silent [OF assms(4)])
qed

text \<open>The number of passes does not matter.\<close>

lemma silent_passes:
  assumes "sending_inv file n s" and "CWND_logs s \<noteq> []" and "timer_flag s \<noteq> 0"
    and "\<forall>(clk, reply) \<in> set passes. silent reply"
    and "\<exists>(clk, reply) \<in> set passes. duration_seconds (clk 2 - timeout_check s) \<ge> 10"
  shows "\<exists>s'. transfer_loop passes s = ExitFailure ''ERROR: nothing receive from server for 10 second'' s'"
  using assms
proof (induction passes arbitrary: s)
  case (Cons p passes)
  obtain clk reply where p: "p = (clk, reply)" by (cases p)
  then have "silent reply" using Cons.prems(4) by simp
  from silent_pass [OF Cons.prems(1-3) this, of clk] obtain s' where s': "sending_inv file n s'" "CWND_logs s' \<noteq> []"
      "timer_flag s' \<noteq> 0" "timeout_check s' = timeout_check s"
      "transfer_pass clk reply s = (if duration_seconds (clk 2 - timeout_check s) \<ge> 10
        then ExitFailure ''ERROR: nothing receive from server for 10 second'' s' else Next s')" .
  show ?case
  proof (cases "duration_seconds (clk 2 - timeout_check s) \<ge> 10")
    case False
    with Cons.prems(4,5) s' p Cons.IH [OF s'(1-3)] show ?thesis by auto
  qed (use s' p in simp)
qed simp

section \<open>The handshake\<close>

lemma recv_polls_none: "recv_polls a (replicate n None) pkt c = (- 1, pkt, c\<lparr>timer_flag := 1\<rparr>)"
  by (induction n) simp_all

text \<open>One \<^verbatim>\<open>SYN\<close> per round, ten seconds long.\<close>

lemma handshake_silent:
  assumes "packet_wf pkt" and "\<forall>(t, polls, t') \<in> set rounds. (\<exists>n. polls = replicate n None) \<and> duration_seconds (t - t\<^sub>0) < 10"
    and "duration_seconds (t - t\<^sub>0) \<ge> 10"
  shows "\<exists>c'. handshake_loop (rounds @ [(t, polls, t')]) t\<^sub>0 pkt c =
      ExitFailure ''ERROR: Server receiving timeout! Nothing received for 10 sec'' c' \<and>
    client_sent c' = client_sent c @ replicate (length rounds) (packet_bytes pkt)"
  using assms(2)
proof (induction rounds arbitrary: c)
  case Nil
  then show ?case using assms(3) by simp
next
  case (Cons r rounds)
  obtain u n u' where r: "r = (u, replicate n None, u')" "duration_seconds (u - t\<^sub>0) < 10"
    using Cons.prems by (cases r) auto
  define c1 where "c1 = (put_line (CHR ''S'') pkt (send_bytes packet_size pkt c))\<lparr>timer_flag := 1\<rparr>"
  have "handshake_loop ((r # rounds) @ [(t, polls, t')]) t\<^sub>0 pkt c = handshake_loop (rounds @ [(t, polls, t')]) t\<^sub>0 pkt c1"
    using r(2) by (simp add: r(1) recv_pack_def recv_polls_none c1_def)
  moreover have "client_sent c1 = client_sent c @ [packet_bytes pkt]"
    using assms(1) by (simp add: c1_def length_packet_bytes)
  ultimately show ?case using Cons.IH [of c1] Cons.prems by simp
qed

section \<open>Sending again\<close>

text \<open>
  After a timeout the oldest packet alone goes out again. The packets behind it stay in the log,
  so that as many packets as before are on their way, for a window of one.
\<close>

lemma late_pass:
  assumes "sending_inv file n s" and "CWND_logs s = l # rest" and "500 < duration_millis (clk 0 - send_time l)"
    and "silent reply" and "timer_flag s \<noteq> 0" and "duration_seconds (clk 2 - timeout_check s) < 10"
  obtains s' d e where "transfer_pass clk reply s = Next s'"
    and "CWND s' = 512" and "SS_THRESH s' = CWND s div 2" and "CWND_space s' = 0"
    and "CWND_logs s' = rest @ [\<lparr>E_ACK = e, log_seq = log_seq l, send_time = clk 1, file_pos = file_pos l\<rparr>]"
    and "client_sent s' = client_sent s @ [d]" and "carries n (log_seq l) (chunk (file_pos l) data_size file) d"
proof -
  define t where "t = check_timeout (clk 0) s"
  note t_eq = check_timeout_late [OF assms(2,3), folded t_def]
  have t: "sending_inv file n t" "client_sent t = client_sent s" unfolding t_def by (rule check_timeout_inv [OF assms(1)])+
  have open_t: "\<not> eofbit (infile t)" and pos_t: "pos (infile t) = file_pos l" by (simp_all add: t_eq)
  have l: "log_seq l = seq_at (file_pos l)" using assms(1,2) by (simp add: sending_inv_def Let_def log_of_def)
  obtain u where u: "send_data (clk 1) t = Next u"
      "CWND_logs u = CWND_logs t @ [\<lparr>E_ACK = seq_at (file_pos l + length (chunk (file_pos l) data_size file)),
        log_seq = seq_at (file_pos l), send_time = clk 1, file_pos = file_pos l\<rparr>]"
      "CWND u = CWND t" "SS_THRESH u = SS_THRESH t" "CWND_space u = CWND_space t - 1"
      "timeout_check u = (if timer_flag t = 0 then clk 1 else timeout_check t)"
      "\<exists>d. client_sent u = client_sent t @ [d] \<and> carries n (seq_at (file_pos l)) (chunk (file_pos l) data_size file) d"
    using send_data_effect [OF t(1) open_t, where now = "clk 1"] unfolding pos_t by metis
  have "timeout_check u = timeout_check s" using u(6) assms(5) by (simp add: t_eq)
  then have "transfer_pass clk reply s = Next u"
    using u(1,2) open_t assms(6)
    by (simp add: transfer_pass_def Let_def t_def [symmetric] receive_silent [OF assms(4)] t_eq)
  moreover obtain d where "client_sent u = client_sent s @ [d]" "carries n (log_seq l) (chunk (file_pos l) data_size file) d"
    using u(7) t(2) l by auto
  ultimately show ?thesis using that [of u] u(2-5) l by (simp add: t_eq)
qed

end
