(* ===== verification/ConfundoProperties.thy ===== *)
theory ConfundoProperties
  imports ConfundoClosing ConfundoWindow ConfundoTimers ConfundoDelivery
begin

text \<open>
  What the server of \<^verbatim>\<open>server.cpp\<close> and the client of \<^verbatim>\<open>client.cpp\<close> each do by themselves, stated over
  the components' definitions, with concrete instances: a server that has just accepted the client
  at 10.0.0.1, and that client in the middle of sending a file of three bytes.
\<close>

section \<open>Example states\<close>

definition client_A :: sockaddr where
  "client_A = \<lparr>sa_family = 2, sa_data = [0x30, 0x39, 10, 0, 0, 1, 0, 0, 0, 0, 0, 0, 0, 0]\<rparr>"

definition start_server :: server where
  "start_server = server_init (\<lambda>_. None)"

definition one_client :: server where
  "one_client = serve_one (\<lambda>_. True) ''/save'' (Datagram syn_datagram client_A 16) start_server"

definition abc :: buffer where
  "abc = [97, 98, 99]"

definition abc_segment :: buffer where
  "abc_segment = header_bytes \<lparr>seq = htonl 12346, ack = 0, conn_id = htons 1, flags = htons 0\<rparr> @ abc"

lemma client_A_family [simp]: "sa_family client_A = AF_INET"
  by (simp add: client_A_def)

lemma start_server_inv: "server_inv ''/save'' 0 start_server"
  by (simp add: start_server_def server_init_inv)

lemma start_server_sent [simp]: "server_sent start_server = []"
  by (simp add: start_server_def server_init_def)

lemma one_client_side: "server_side ''/save'' 0 client_A file 0 one_client"
  unfolding one_client_def
  by (rule handshake_server(1) [OF start_server_inv])
    (simp_all add: start_server_def server_init_def no_connection_def replies_in_def)

lemma one_client_facts:
  "conn_valid ''/save'' 0 one_client" "\<not> conn_closed 0 one_client" "stored_file ''/save'' 0 one_client = []"
  "expected_seq 0 one_client = 12346" "src_addr (all_connection one_client ! 0) = client_A"
  using one_client_side [of abc] by (simp_all add: server_side_def seq_at_def)

lemma one_client_inv: "server_inv ''/save'' 1 one_client"
proof -
  have "inet_event (Datagram syn_datagram client_A 16)" by (simp add: inet_event_def)
  from serve_one_inv [OF start_server_inv this, of "\<lambda>_. True"] show ?thesis
    by (simp add: one_client_def taken_after_def event_syn_datagram)
qed

lemma abc_segment_carries: "carries (of_nat (Suc 0)) 12346 abc abc_segment"
  by (auto simp: carries_def abc_segment_def htonl_htonl)

lemma abc_event:
  "segment_for 0 (Datagram abc_segment client_A 16) = Some (12346, abc)"
  "conn_event 0 (Datagram abc_segment client_A 16)"
  using event_data_datagram(1,2) [OF abc_segment_carries, where A = client_A and l = 16]
  by (simp_all add: abc_def conn_event_def inet_event_def)

lemma abc_segment_of: "segment_of abc 12346 abc"
  unfolding segment_of_def by (rule exI [of _ 0]) (simp add: seq_at_def abc_def)

text \<open>The client after it has sent the only segment of its file, which started its timers.\<close>

definition sending_abc :: sending where
  "sending_abc = \<lparr>SS_THRESH = 10000, CWND = 1024, timer_flag = 1, seq_num = 12349, ack_num = 0, id_num = 1,
     CWND_logs = [\<lparr>E_ACK = 12349, log_seq = 12346, send_time = 0, file_pos = 0\<rparr>], client_sent = [abc_segment],
     client_out = [], CWND_space = 1, last_seq = 0, next_flags = 0, timeout_check = 0,
     infile = \<lparr>contents = abc, pos = 3, eofbit = True, failbit = True\<rparr>,
     send_packet = zero_packet, recv_packet = zero_packet\<rparr>"

lemma sending_abc_inv: "sending_inv abc 1 sending_abc"
proof -
  have "log_of abc \<lparr>E_ACK = 12349, log_seq = 12346, send_time = 0, file_pos = 0\<rparr>"
    unfolding log_of_def by (simp add: seq_at_def abc_def) (rule exI [of _ 3], simp)
  then show ?thesis by (simp add: sending_inv_def sending_abc_def Let_def seq_at_def abc_def)
qed

section \<open>Server\<close>

text \<open>C13: A SYN goes, in host byte order, to the client of each of the \<open>k\<close> connections in use, whoever
  sent it, and then opens the next connection, if one is left, with the number of its place and
  the sequence number after the one of the SYN; the others stay as they are. So a SYN that is
  repeated opens a second connection, and the eleventh client gets no answer.\<close>

theorem syn_effect:
  assumes "server_inv file_dir k s" and "sa_family A = AF_INET"
    and "flags (pack_header (event_packet (Datagram d A l))) = SYN"
  shows "let p = event_packet (Datagram d A l); s' = serve_one can_open file_dir (Datagram d A l) s in
    server_inv file_dir (min 10 (Suc k)) s' \<and>
    server_sent s' = server_sent s @
      map (\<lambda>i. (packet_bytes p, src_addr (all_connection s ! i), addrlen (all_connection s ! i))) [0..<k] @
      (if k < 10 then
         [(packet_bytes (set_header p 4321 (seq (pack_header p) + 1) (of_nat (Suc k)) SYN_ACK), A, l)] else []) \<and>
    (\<forall>i. i \<noteq> k \<longrightarrow> all_connection s' ! i = all_connection s ! i) \<and>
    (k < 10 \<longrightarrow> expected_seq k s' = seq (pack_header p) + 1 \<and> src_addr (all_connection s' ! k) = A)"
proof -
  let ?ev = "Datagram d A l"
  let ?u = "bounce (event_packet ?ev) [0..<k] (event_state ?ev s)"
  have inet: "inet_event ?ev" using assms(2) by (simp add: inet_event_def)
  have u: "server_inv file_dir k ?u" using assms(1) by simp
  have addr: "client_addr ?u = A" "client_addrlen ?u = l" by (simp_all add: event_state_def)
  have k: "k \<le> 10" by (rule server_inv_le [OF assms(1)])
  show ?thesis
  proof (cases "k < 10")
    case True
    have fam: "sa_family (client_addr ?u) = AF_INET" using addr assms(2) by simp
    note acc = accept_connection_effect [OF u True fam, where can_open = can_open and buf = "event_packet ?ev"]
    show ?thesis
      using True acc(1-4,7) addr serve_syn [OF assms(1) inet assms(3), of can_open]
      by (simp add: Let_def expected_seq_def)
  next
    case False
    then have "k = 10" using k by simp
    with u serve_syn [OF assms(1) inet assms(3), of can_open] show ?thesis by (simp add: Let_def)
  qed
qed

theorem syn_effect_witness:
  "server_sent (serve_one (\<lambda>_. True) ''/save'' (Datagram syn_datagram client_A 16) one_client) =
    server_sent one_client @
    [(packet_bytes (event_packet (Datagram syn_datagram client_A 16)), client_A, addrlen (all_connection one_client ! 0)),
     (packet_bytes (set_header (event_packet (Datagram syn_datagram client_A 16)) 4321 12346 2 SYN_ACK), client_A, 16)]"
proof -
  have "flags (pack_header (event_packet (Datagram syn_datagram client_A 16))) = SYN"
    and q: "seq (pack_header (event_packet (Datagram syn_datagram client_A 16))) = 12345"
    by (simp_all add: event_syn_datagram)
  from syn_effect [OF one_client_inv client_A_family this(1), of "\<lambda>_. True"] q show ?thesis
    by (simp add: Let_def one_client_facts(5))
qed

text \<open>C8: A connection receives like go-back-N: if it has stored the first \<open>m\<close> bytes of a file of at
  most 102400 bytes and expects the next one, then whatever segments of that file arrive for it, in
  any order, repeated or not, mixed with any other datagrams of any clients, it afterwards holds
  the first \<open>n\<close> bytes, for some \<open>n\<close> that is at least \<open>m\<close>, and, unless it was closed, acknowledges
  byte \<open>n\<close>.\<close>

theorem server_in_order:
  assumes "conn_valid file_dir i s" and "stored_file file_dir i s = take m file" and "m \<le> length file"
    and "\<not> conn_closed i s" and "expected_seq i s = seq_at m" and "length file \<le> 102400"
    and "\<forall>ev \<in> set evs. conn_event i ev \<and> (\<forall>q b. segment_for i ev = Some (q, b) \<longrightarrow> segment_of file q b)"
  shows "\<exists>n \<ge> m. n \<le> length file \<and>
    server_files (serve can_open file_dir evs s) (file_path file_dir i) = Some (take n file) \<and>
    (\<not> conn_closed i (serve can_open file_dir evs s) \<longrightarrow>
      expected_seq i (serve can_open file_dir evs s) = seq_at n)"
proof -
  have "gbn.holds file_dir i file m s" using assms(1-5) by (simp add: gbn.holds_def)
  from gbn.holds_run [OF this assms(6), where es = evs and can_open = can_open] assms(7)
  obtain n where n: "n \<ge> m" "gbn.holds file_dir i file n (serve can_open file_dir evs s)"
    unfolding serve_foldl by blast
  then show ?thesis by (intro exI [of _ n]) (auto simp: gbn.holds_def stored_file_def conn_valid_def)
qed

theorem server_in_order_witness:
  "\<exists>n \<le> length abc. server_files (serve (\<lambda>_. True) ''/save''
      [Datagram abc_segment client_A 16, RecvError, Datagram abc_segment client_A 16] one_client)
    (file_path ''/save'' 0) = Some (take n abc)"
proof -
  have "conn_event 0 RecvError" "segment_for 0 RecvError = None"
    by (simp_all add: conn_event_def inet_event_def segment_for_def event_packet_def zero_packet_def Let_def)
  then have "\<forall>ev \<in> set [Datagram abc_segment client_A 16, RecvError, Datagram abc_segment client_A 16].
      conn_event 0 ev \<and> (\<forall>q b. segment_for 0 ev = Some (q, b) \<longrightarrow> segment_of abc q b)"
    using abc_event abc_segment_of by auto
  from server_in_order [OF one_client_facts(1) _ _ one_client_facts(2) _ _ this, of 0 "\<lambda>_. True"] show ?thesis
    by (auto simp: one_client_facts seq_at_def abc_def)
qed

text \<open>C32: Beyond 102400 bytes the receiver is not safe. Sequence numbers repeat after 102401 bytes and
  nothing else tells two segments apart: when that much of a file has been stored, a copy of a
  segment from 102401 bytes earlier, which the network delivers late, is appended as if it were
  the next one, and the server's file is then a prefix of the client's only if the bytes happen
  to agree.\<close>

theorem late_segment_stored:
  assumes "conn_valid file_dir i s" and "\<not> conn_closed i s" and "stored_file file_dir i s = take (m + 102401) file"
    and "expected_seq i s = seq_at (m + 102401)" and "conn_event i ev" and "segment_for i ev = Some (seq_at m, b)"
  shows "stored_file file_dir i (serve_one can_open file_dir ev s) = take (m + 102401) file @ b \<and>
    (prefix (stored_file file_dir i (serve_one can_open file_dir ev s)) file \<longleftrightarrow> prefix b (drop (m + 102401) file))"
proof -
  have "12346 + (m + 102401) = 12346 + m + 1 * 102401" by simp
  then have "seq_at (m + 102401) = seq_at m" unfolding seq_at_def by (simp only: mod_mult_self1)
  then have seg: "segment_for i ev = Some (expected_seq i s, b)" using assms(4,6) by simp
  have "stored_file file_dir i (serve_one can_open file_dir ev s) = take (m + 102401) file @ b"
    using serve_data [OF assms(1,5) seg assms(2), of can_open] assms(3) by simp
  moreover have "prefix (take (m + 102401) file @ b) file \<longleftrightarrow> prefix b (drop (m + 102401) file)"
    by (metis append_take_drop_id same_prefix_prefix)
  ultimately show ?thesis by simp
qed

theorem late_segment_stored_witness:
  "\<not> prefix (stored_file ''/save'' 0 (serve_one (\<lambda>_. True) ''/save'' (Datagram abc_segment client_A 16)
      (one_client\<lparr>server_files := [file_path ''/save'' 0 \<mapsto> abc @ replicate 102398 0]\<rparr>)))
    (abc @ replicate 102398 0 @ [1])"
proof -
  let ?s = "one_client\<lparr>server_files := [file_path ''/save'' 0 \<mapsto> abc @ replicate 102398 0]\<rparr>"
  have "conn_valid ''/save'' 0 ?s" "\<not> conn_closed 0 ?s"
    using one_client_facts(1,2) by (simp_all add: conn_valid_def conn_closed_def server_inv_def)
  moreover have "stored_file ''/save'' 0 ?s = take (0 + 102401) (abc @ replicate 102398 0 @ [1])"
    by (simp add: stored_file_def abc_def)
  moreover have "expected_seq 0 ?s = seq_at (0 + 102401)"
    using one_client_facts(4) by (simp add: expected_seq_def seq_at_def)
  moreover have "segment_for 0 (Datagram abc_segment client_A 16) = Some (seq_at 0, abc)"
    using abc_event(1) by (simp add: seq_at_def)
  moreover have "\<not> prefix abc (drop (0 + 102401) (abc @ replicate 102398 0 @ [1]))"
    by (simp add: abc_def)
  ultimately show ?thesis using late_segment_stored abc_event(2) by blast
qed

text \<open>A FIN closes its connection whatever sequence number it has: also when data are missing,
  nothing that arrives later changes the file any more, although more of it is on its way.\<close>

theorem fin_stops_storing:
  assumes "conn_valid file_dir i s" and "conn_event i ev" and "flags (pack_header (event_packet ev)) = FIN"
    and "conn_id (pack_header (event_packet ev)) = of_nat (Suc i)" and "\<forall>ev \<in> set evs. conn_event i ev"
  shows "server_files (serve can_open file_dir (ev # evs) s) (file_path file_dir i) =
      server_files s (file_path file_dir i) \<and>
    conn_closed i (serve_one can_open file_dir ev s)"
proof -
  note fin = fin_closes [OF assms(1-4), of can_open]
  have v: "conn_valid file_dir i (serve can_open file_dir evs (serve_one can_open file_dir ev s))"
    using fin(1) assms(5)
  proof (induction evs arbitrary: s ev)
    case (Cons e evs)
    then show ?case using gbn.valid by simp
  qed simp
  have "stored_file file_dir i (serve can_open file_dir evs (serve_one can_open file_dir ev s)) = stored_file file_dir i s"
    using closed_stays [OF fin(1,2) assms(5), of can_open] fin(3) by (simp add: stored_file_def)
  with v assms(1) fin(2) show ?thesis by (auto simp: conn_valid_def stored_file_def)
qed

theorem fin_stops_storing_witness:
  "server_files (serve (\<lambda>_. True) ''/save''
      [Datagram (fin_datagram 99 1) client_A 16, Datagram abc_segment client_A 16] one_client) (file_path ''/save'' 0) =
    server_files one_client (file_path ''/save'' 0)"
proof -
  have "conn_event 0 (Datagram (fin_datagram 99 1) client_A 16)"
    by (simp add: conn_event_def inet_event_def segment_for_def event_fin_datagram Let_def)
  from fin_stops_storing [OF one_client_facts(1) this, of "[Datagram abc_segment client_A 16]"] abc_event(2) show ?thesis
    by (simp add: event_fin_datagram)
qed

text \<open>C34: A FIN with connection number 0 marks the first free connection, and the mark is never taken
  off: the next client that connects gets that connection, its file is created, and stays empty
  whatever the client sends.\<close>

theorem stray_fin:
  assumes "server_inv file_dir k s" and "k < 10" and "flags (pack_header (event_packet fin)) = FIN"
    and "conn_id (pack_header (event_packet fin)) = 0" and "inet_event syn"
    and "flags (pack_header (event_packet syn)) = SYN" and "can_open (file_path file_dir k)"
    and "\<forall>ev \<in> set evs. conn_event k ev"
  shows "stored_file file_dir k (serve can_open file_dir (fin # syn # evs) s) = []"
proof -
  note f = fin_zero [OF assms(1-4), of can_open]
  note c = syn_keeps_mark [where can_open = can_open, OF f(1) assms(2) f(2) assms(5-7)]
  from closed_stays [OF c(1,2) assms(8)] c(3) show ?thesis by simp
qed

theorem stray_fin_witness:
  "stored_file ''/save'' 0 (serve (\<lambda>_. True) ''/save'' [Datagram (fin_datagram 5 0) client_A 16,
     Datagram syn_datagram client_A 16, Datagram abc_segment client_A 16] start_server) = []"
  by (rule stray_fin [OF start_server_inv])
    (use abc_event(2) in \<open>simp_all add: event_fin_datagram event_syn_datagram inet_event_def\<close>)

text \<open>A datagram shorter than a header is data when its first bytes say so. In order, it makes the
  server write a negative number of bytes, which is an error of the file stream: the file stays
  as it is whatever arrives later, although the connection is not closed and goes on
  acknowledging.\<close>

theorem short_datagram_kills_file:
  assumes "server_inv file_dir k s" and "i < k" and "\<not> conn_closed i s"
    and "of_open (myfile (all_connection s ! i)) \<noteq> None" and "inet_event ev"
    and "conn_id (pack_header (event_packet ev)) = of_nat (Suc i)" and "flags (pack_header (event_packet ev)) \<in> {0, ACK}"
    and "seq (pack_header (event_packet ev)) = expected_seq i s" and "event_count ev < 12"
    and "\<forall>ev \<in> set evs. inet_event ev"
  shows "server_files (serve can_open file_dir (ev # evs) s) (file_path file_dir i) =
      server_files s (file_path file_dir i) \<and>
    \<not> conn_closed i (serve_one can_open file_dir ev s)"
proof -
  note short = short_datagram [OF assms(1-4,6-9), of can_open]
  have "i < taken_after ev k" using assms(2) taken_after_mono [of k ev] by simp
  from serve_dead_run [OF serve_one_inv [OF assms(1,5)] this assms(10) short(1)] short(2,3) show ?thesis by simp
qed

theorem short_datagram_kills_file_witness:
  "server_files (serve (\<lambda>_. True) ''/save''
      [Datagram (u32_bytes (htonl 12346) @ u32_bytes 0 @ u16_bytes (htons 1)) client_A 16,
       Datagram abc_segment client_A 16] one_client) (file_path ''/save'' 0) =
    server_files one_client (file_path ''/save'' 0)"
proof -
  let ?d = "u32_bytes (htonl 12346) @ u32_bytes 0 @ u16_bytes (htons 1)"
  let ?p = "zero_packet\<lparr>pack_header := \<lparr>seq = htonl 12346, ack = 0, conn_id = htons 1, flags = 0\<rparr>\<rparr>"
  have "put 0 (take packet_size ?d) (packet_bytes zero_packet) = packet_bytes ?p"
    by (simp add: put_def packet_bytes_def header_bytes_def zero_packet_def u16_bytes_def u32_bytes_def)
  then have p: "event_packet (Datagram ?d client_A 16) = ntoh_reorder ?p"
    by (simp only: event_packet_def recv_into_def packet_of_bytes_packet recv_event.case)
  have "of_open (myfile (all_connection one_client ! 0)) \<noteq> None"
    using one_client_facts(1,2) by (auto simp: conn_valid_def)
  from short_datagram_kills_file [OF one_client_inv _ one_client_facts(2) this, of "Datagram ?d client_A 16"
      "[Datagram abc_segment client_A 16]" "\<lambda>_. True"] show ?thesis
    by (simp add: p htonl_htonl htons_htons one_client_facts(4) inet_event_def event_count_def recv_count_def)
qed

section \<open>Client\<close>

text \<open>C14: The congestion window stays between 512 and 262145 bytes through every run of the transfer
  loop, so it is never divided by zero and never wraps; and as long as no packet waits for more
  than half a second, the packets that are not acknowledged fit in the window.\<close>

theorem window_respected:
  assumes "transfer_loop passes s \<in> {Next s', Stop s'}"
    and "512 \<le> unat (CWND s)" and "unat (CWND s) \<le> 262145" and "unat (SS_THRESH s) \<le> 131072"
  shows "512 \<le> unat (CWND s') \<and> unat (CWND s') \<le> 262145 \<and> unat (SS_THRESH s') \<le> 131072 \<and>
    (all_in_time passes s \<longrightarrow> length (CWND_logs s) + unat (CWND_space s) \<le> unat (CWND s) div 512 \<longrightarrow>
      length (CWND_logs s') \<le> unat (CWND s') div 512)"
proof -
  have "window_ok s" using assms(2-4) by (simp add: window_ok_def)
  from transfer_loop_window [OF assms(1) this] show ?thesis by (auto simp: window_ok_def flight_ok_def)
qed

theorem window_respected_witness:
  "\<exists>s'. transfer_loop [(\<lambda>_. 0, None), (\<lambda>_. 0, None)] sending_abc = Next s' \<and>
    length (CWND_logs s') \<le> unat (CWND s') div 512"
proof -
  have pass: "transfer_pass (\<lambda>_. 0) None sending_abc = Next sending_abc"
    by (simp add: transfer_pass_def sending_abc_def check_timeout_def receive_ack_def Let_def)
  then have r: "transfer_loop [(\<lambda>_. 0, None), (\<lambda>_. 0, None)] sending_abc = Next sending_abc" by simp
  have t: "all_in_time [(\<lambda>_. 0, None), (\<lambda>_. 0, None)] sending_abc"
    by (simp add: pass in_time_def) (simp add: sending_abc_def)
  from r have "transfer_loop [(\<lambda>_. 0, None), (\<lambda>_. 0, None)] sending_abc \<in> {Next sending_abc, Stop sending_abc}" by simp
  from window_respected [OF this] t r show ?thesis by (simp add: sending_abc_def)
qed

text \<open>C18: When the oldest packet has waited for more than half a second and nothing arrives in the pass, but
  the silence since the last datagram is still under ten seconds, the pass sets the threshold to half
  of the window, closes the window to one packet, sends exactly the bytes at the position
  of the oldest packet again under its old number, and moves it to the end of the log. The packets
  behind it stay in the log, so that with a window of one as many packets as before are on their
  way.\<close>

theorem timeout_resends:
  assumes "sending_inv file n s" and "CWND_logs s = l # rest" and "500 < duration_millis (clk 0 - send_time l)"
    and "timer_flag s \<noteq> 0" and "duration_seconds (clk 2 - timeout_check s) < 10"
  shows "\<exists>s' d e. transfer_pass clk None s = Next s' \<and>
    CWND s' = 512 \<and> SS_THRESH s' = CWND s div 2 \<and> CWND_space s' = 0 \<and>
    CWND_logs s' = rest @ [\<lparr>E_ACK = e, log_seq = log_seq l, send_time = clk 1, file_pos = file_pos l\<rparr>] \<and>
    client_sent s' = client_sent s @ [d] \<and> carries n (log_seq l) (chunk (file_pos l) data_size file) d"
proof -
  have "silent None" by (simp add: silent_def)
  from late_pass [OF assms(1-3) this assms(4,5)] show ?thesis by metis
qed

theorem timeout_resends_witness:
  "\<exists>s' d. transfer_pass (\<lambda>_. seconds 1) None sending_abc = Next s' \<and> length (CWND_logs s') = 1 \<and>
    client_sent s' = [abc_segment, d] \<and> carries 1 12346 abc d"
proof -
  have "CWND_logs sending_abc = \<lparr>E_ACK = 12349, log_seq = 12346, send_time = 0, file_pos = 0\<rparr> # []"
    by (simp add: sending_abc_def)
  from timeout_resends [OF sending_abc_inv this, of "\<lambda>_. seconds 1"] show ?thesis
    by (auto simp: sending_abc_def duration_millis_def duration_seconds_def abc_def chunk_def)
qed

text \<open>The transfer does not outlive its server: once a packet has been sent, if nothing arrives any
  more, the loop ends with its error message as soon as ten seconds have passed since the last
  datagram, whatever its passes do until then, and however many they are.\<close>

theorem client_gives_up:
  assumes "sending_inv file n s" and "CWND_logs s \<noteq> []" and "timer_flag s \<noteq> 0"
    and "\<forall>(clk, reply) \<in> set passes. reply = None"
    and "\<exists>(clk, reply) \<in> set passes. duration_seconds (clk 2 - timeout_check s) \<ge> 10"
  shows "\<exists>s'. transfer_loop passes s = ExitFailure ''ERROR: nothing receive from server for 10 second'' s'"
  by (rule silent_passes [OF assms(1-3)]) (use assms(4,5) in \<open>auto simp: silent_def\<close>)

theorem client_gives_up_witness:
  "\<exists>s'. transfer_loop [(\<lambda>_. 0, None), (\<lambda>_. seconds 1, None), (\<lambda>_. seconds 10, None), (\<lambda>_. seconds 11, None)] sending_abc =
    ExitFailure ''ERROR: nothing receive from server for 10 second'' s'"
  by (rule client_gives_up [OF sending_abc_inv]) (simp_all add: sending_abc_def duration_seconds_def)

end
