(* ===== verification/ConfundoRedirect.thy ===== *)
theory ConfundoRedirect
  imports ConfundoAddress ConfundoProperties
begin

text \<open>
  A stranger takes over an upload. The acknowledgements the client waits for depend on nothing but
  the length of the file, the connection number of a reply is not looked at, and the address of
  its sender becomes the client's target: whoever answers the first data datagram before the
  server does receives the others, acknowledges them, and ends the session as the server would.
\<close>

section \<open>The datagrams of the stranger\<close>

definition forged_ack :: "u32 \<Rightarrow> buffer" where
  "forged_ack a = packet_bytes (set_header zero_packet 0 a 0 ACK)"

definition forged_passes :: "sockaddr \<Rightarrow> nat \<Rightarrow> nat \<Rightarrow> (clock \<times> arrival) list" where
  "forged_passes B n k =
     map (\<lambda>j. (\<lambda>_. 0, Some (forged_ack (seq_at (min (512 * Suc j) n)), B))) [k ..< Suc (n div 512)]"

definition forged_closing :: "sockaddr \<Rightarrow> (clock \<times> arrival) list" where
  "forged_closing B = [(\<lambda>_. 0, Some (packet_bytes (set_header zero_packet 0 0 0 FIN), B)), (\<lambda>_. seconds 2, None)]"

section \<open>The transfer\<close>

text \<open>Everything sent so far has been acknowledged, in whole packets.\<close>

definition all_acked :: "buffer \<Rightarrow> u16 \<Rightarrow> nat \<Rightarrow> sending \<Rightarrow> bool" where
  "all_acked file n k s \<longleftrightarrow>
     sending_inv file n s \<and> window_ok s \<and> flight_ok s \<and> calm 0 s \<and> CWND_logs s = [] \<and> CWND_space s > 0 \<and>
     \<not> eofbit (infile s) \<and> pos (infile s) = 512 * k"

lemma forged_ack_facts [simp]: "length (forged_ack a) = packet_size" "ack_of (forged_ack a) = a"
  by (simp_all add: forged_ack_def length_packet_bytes htonl_htonl)

lemma carries_data: "carries n q b d \<Longrightarrow> drop header_size d = b"
  by (auto simp: carries_def)

lemma forged_pass:
  assumes "all_acked file n k s"
  obtains s' d where "transfer_pass (\<lambda>_. 0) (Some (forged_ack (seq_at (min (512 * Suc k) (length file))))) s =
      (if 512 * Suc k \<le> length file then Next s' else Stop s')"
    and "client_sent s' = client_sent s @ [d]" and "carries n (seq_at (512 * k)) (chunk (512 * k) 512 file) d"
    and "512 * Suc k \<le> length file \<Longrightarrow> all_acked file n (Suc k) s'"
proof -
  let ?b = "chunk (512 * k) data_size file" and ?a = "seq_at (min (512 * Suc k) (length file))"
  have s: "sending_inv file n s" "window_ok s" "flight_ok s" "calm 0 s" "CWND_logs s = []" "CWND_space s > 0"
      "\<not> eofbit (infile s)" "pos (infile s) = 512 * k"
    using assms by (simp_all add: all_acked_def)
  have le: "512 * k \<le> length file" using s(1,8) by (simp add: sending_inv_def Let_def)
  have end_of: "512 * k + length ?b = min (512 * Suc k) (length file)" using le by (simp add: length_chunk)
  obtain t where t: "send_data 0 s = Next t" "sending_inv file n t"
      "CWND_logs t = [\<lparr>E_ACK = ?a, log_seq = seq_at (512 * k), send_time = 0, file_pos = 512 * k\<rparr>]"
      "pos (infile t) = min (512 * Suc k) (length file)" "eofbit (infile t) = (length ?b < data_size)"
      "CWND_space t = CWND_space s - 1"
      "\<exists>d. client_sent t = client_sent s @ [d] \<and> carries n (seq_at (512 * k)) ?b d \<and> data_datagram file n d"
    using send_data_effect [OF s(1,7), where now = 0] s(5) unfolding s(8) end_of by (metis append_Nil)
  obtain d where d: "client_sent t = client_sent s @ [d]" "carries n (seq_at (512 * k)) ?b d" using t(7) by blast
  have wf: "packet_wf (recv_packet t)" using t(2) by (simp add: sending_inv_def Let_def)
  obtain s' where s': "receive_ack (Some (forged_ack ?a)) 0 t = Next s'" "CWND_logs s' = []" "infile s' = infile t"
      "timeout_check s' = 0" "client_sent s' = client_sent t" "CWND_space s' \<in> {CWND_space t + 1, CWND_space t + 2}"
    by (rule receive_ack_found [OF forged_ack_facts(1) wf, of ?a 0]) (use t(3) in auto)
  have bits: "failbit (infile s') = eofbit (infile s')" using t(2) s'(3) by (simp add: sending_inv_def Let_def)
  have pass: "transfer_pass (\<lambda>_. 0) (Some (forged_ack ?a)) s = (if eofbit (infile s') then Stop s' else Next s')"
    using transfer_pass_sends [OF s(4,6,7) t(1)] s'(1,2) bits by (simp add: ifstream_tellg_def)
  have eof: "eofbit (infile s') \<longleftrightarrow> \<not> 512 * Suc k \<le> length file"
    using s'(3) t(5) le by (auto simp: length_chunk)
  have "all_acked file n (Suc k) s'" if more: "512 * Suc k \<le> length file"
  proof -
    have next_pass: "transfer_pass (\<lambda>_. 0) (Some (forged_ack ?a)) s = Next s'" using pass eof more by simp
    then have "transfer_pass (\<lambda>_. 0) (Some (forged_ack ?a)) s \<in> {Next s', Stop s'}" by simp
    note w = transfer_pass_window [OF this s(2)]
    have "in_time 0 s" using s(5) by (simp add: in_time_def)
    note f = w(2) [OF this s(3)]
    have "unat (CWND s) div 512 \<le> 262145 div 512" using s(2) by (intro div_le_mono) (simp add: window_ok_def)
    then have "unat (CWND_space s) \<le> 512" using s(3) by (simp add: flight_ok_def)
    then have "1 + CWND_space s \<noteq> 0" using unat_plus_small [of 1 "CWND_space s"] by auto
    then have "CWND_space s' > 0" using s'(6) s(6) t(6) by (auto simp: word_gt_0)
    moreover have "sending_inv file n s'" by (rule receive_ack_effect(1) [OF t(2) s'(1)])
    moreover have "pos (infile s') = 512 * Suc k" using s'(3) t(4) more by simp
    ultimately show ?thesis using w(1) f s' eof more by (simp add: all_acked_def calm_def)
  qed
  then show ?thesis using that [of s' d] pass eof d s'(5) by simp
qed

lemma forged_passes_Cons:
  "512 * k \<le> n \<Longrightarrow> forged_passes B n k =
     (\<lambda>_. 0, Some (forged_ack (seq_at (min (512 * Suc k) n)), B)) # forged_passes B n (Suc k)"
proof -
  assume "512 * k \<le> n"
  then have "k < Suc (n div 512)" by (simp add: less_Suc_eq_le less_eq_div_iff_mult_less_eq mult.commute)
  then show ?thesis by (simp add: forged_passes_def upt_conv_Cons del: upt_Suc)
qed

lemma transfer_pass_from:
  "transfer_pass clk (Some d) s = m \<Longrightarrow> transfer_pass_at clk (Some (d, B)) (s, A, out) =
     map_progress (\<lambda>s'. (s', B, out @ map (\<lambda>d. (d, A)) (drop (length (client_sent s)) (client_sent s')))) m"
  by (simp add: transfer_pass_at_def take_source_def)

lemma chunk_then_drop: "chunk a n xs @ drop (a + n) xs = drop a xs"
  using append_take_drop_id [of n "drop a xs"] by (simp add: chunk_def add.commute)

text \<open>The first datagram of these passes goes to the old address, all others go to the stranger.\<close>

lemma forged_loop:
  assumes "all_acked file n k s"
  shows "\<exists>s' d ds. transfer_loop_at (forged_passes B (length file) k) (s, A, out) =
      Stop (s', B, out @ (d, A) # map (\<lambda>d. (d, B)) ds) \<and>
    carries n (seq_at (512 * k)) (chunk (512 * k) 512 file) d \<and> concat (map (drop header_size) ds) = drop (512 * Suc k) file"
  using assms
proof (induction "length file - 512 * k" arbitrary: k s A out rule: less_induct)
  case less
  have k: "512 * k \<le> length file" using less.prems by (simp add: all_acked_def sending_inv_def Let_def)
  obtain t d where t: "transfer_pass (\<lambda>_. 0) (Some (forged_ack (seq_at (min (512 * Suc k) (length file))))) s =
      (if 512 * Suc k \<le> length file then Next t else Stop t)" "client_sent t = client_sent s @ [d]"
      "carries n (seq_at (512 * k)) (chunk (512 * k) 512 file) d"
      "512 * Suc k \<le> length file \<Longrightarrow> all_acked file n (Suc k) t"
    by (rule forged_pass [OF less.prems]) blast
  note loop = forged_passes_Cons [OF k] transfer_loop_at.simps transfer_pass_from [OF t(1)]
  show ?case
  proof (cases "512 * Suc k \<le> length file")
    case True
    have "length file - 512 * Suc k < length file - 512 * k" using True by simp
    from less.hyps [OF this t(4) [OF True], of B "out @ [(d, A)]"] obtain s' d' ds where
      "transfer_loop_at (forged_passes B (length file) (Suc k)) (t, B, out @ [(d, A)]) =
        Stop (s', B, (out @ [(d, A)]) @ (d', B) # map (\<lambda>d. (d, B)) ds)"
      and d': "carries n (seq_at (512 * Suc k)) (chunk (512 * Suc k) 512 file) d'"
      and ds: "concat (map (drop header_size) ds) = drop (512 * Suc (Suc k)) file" by blast
    then have "transfer_loop_at (forged_passes B (length file) k) (s, A, out) =
        Stop (s', B, out @ (d, A) # map (\<lambda>d. (d, B)) (d' # ds))"
      using True unfolding loop by (simp add: t(2))
    moreover have "concat (map (drop header_size) (d' # ds)) = drop (512 * Suc k) file"
      using chunk_then_drop [of "512 * Suc k" 512 "file"] carries_data [OF d'] ds by (simp add: add.commute)
    ultimately show ?thesis using t(3) by blast
  next
    case False
    then have "transfer_loop_at (forged_passes B (length file) k) (s, A, out) =
        Stop (t, B, out @ (d, A) # map (\<lambda>d. (d, B)) [])"
      unfolding loop by (simp add: t(2))
    moreover have "concat (map (drop header_size) []) = drop (512 * Suc k) file" using False by simp
    ultimately show ?thesis using t(3) by blast
  qed
qed

section \<open>The session\<close>

lemma sent_pairs: "map fst out = [d] \<Longrightarrow> snd ` set out \<subseteq> {A} \<Longrightarrow> out = [(d, A)]"
  by (cases out) (auto simp: prod_eq_iff)

lemma handshake_from_server:
  obtains c where "handshake_at 0 [(0, [Some (packet_bytes (syn_ack i), S)], 0)] (client_init, S, []) =
      Stop (c, S, [(syn_datagram, S)])"
    and "seq_num c = 12346" and "id_num c = ucast (of_nat (Suc i) :: u16)" and "CWND_logs c = []"
    and "CWND c = 1024" and "SS_THRESH c = 10000"
proof -
  let ?rounds = "[(0, [Some (packet_bytes (syn_ack i), S)], 0)]"
  obtain c where c: "handshake 0 [(0, replicate 0 None @ [Some (packet_bytes (syn_ack i))], 0)] client_init = Stop c"
      "seq_num c = 12346" "id_num c = ucast (of_nat (Suc i) :: u16)" "CWND_logs c = []"
      "client_sent c = [syn_datagram]" "CWND c = 1024" "SS_THRESH c = 10000"
    by (rule handshake_client [of 0 0 0 i 0]) (auto simp: duration_seconds_def)
  let ?m = "handshake_at 0 ?rounds (client_init, S, [])"
  have "unaddressed ?m = Stop c"
    using c(1) by (simp add: handshake_bare)
  then obtain A out where m: "?m = Stop (c, A, out)" by (cases ?m) auto
  have "within {S} (client_init, S, [])" by (simp add: within_def client_init_def)
  then have "progress_all (within {S}) ?m"
    unfolding handshake_at_def Let_def by (intro handshake_loop_within) simp_all
  then have "A = S" "out = [(syn_datagram, S)]"
    using c(5) sent_pairs [of out syn_datagram S] by (simp_all add: m within_def)
  with that m c show ?thesis by simp
qed

lemma ending_with_stranger:
  "\<exists>c' fin last. ending_at 0 0 (forged_closing B) (c, B, out) = Stop (c', B, out @ [(fin, B), (last, B)])"
proof -
  obtain x d where f: "packet_bytes (set_header zero_packet 0 0 0 FIN) = x # d" using packet_bytes_Cons by blast
  have rf: "ntoh_reorder (recv_into (x # d) zero_packet) = zero_packet\<lparr>pack_header := \<lparr>seq = 0, ack = 0, conn_id = 0, flags = FIN\<rparr>\<rparr>"
    using reply_arrives [OF zero_packet_wf zero_packet_wf, of 0 0 0 FIN] f by simp
  show ?thesis
    by (simp add: ending_at_def forged_closing_def f rf Let_def take_source_def duration_seconds_def del: ntoh_reorder_simps)
qed

lemma session_hijacked:
  assumes "length file \<le> 100 * 1024 * 1024" and "packet_wf stack"
  shows "\<exists>c first rest fin last.
    client_session_at S 0 [(0, [Some (packet_bytes (syn_ack i), S)], 0)] stack (Some file)
        (forged_passes B (length file) 0) 0 0 (forged_closing B) =
      Stop (c, B, [(syn_datagram, S), (first, S)] @ map (\<lambda>d. (d, B)) (rest @ [fin, last])) \<and>
    carries (of_nat (Suc i)) (seq_at 0) (take 512 file) first \<and> concat (map (drop header_size) rest) = drop 512 file"
proof -
  obtain c where c: "handshake_at 0 [(0, [Some (packet_bytes (syn_ack i), S)], 0)] (client_init, S, []) =
      Stop (c, S, [(syn_datagram, S)])"
      "seq_num c = 12346" "id_num c = ucast (of_nat (Suc i) :: u16)" "CWND_logs c = []" "CWND c = 1024" "SS_THRESH c = 10000"
    by (rule handshake_from_server)
  obtain s where s: "open_transfer stack (Some file) c = Next s" "infile s = ifstream_open file" "CWND s = CWND c"
      "SS_THRESH s = SS_THRESH c" "seq_num s = seq_num c" "id_num s = id_num c" "CWND_logs s = CWND_logs c"
      "next_flags s = ACK" "CWND_space s = CWND c div 512" "send_packet s = stack" "recv_packet s = stack" "timeout_check s = 0"
    by (rule open_transfer_small [OF assms(1)])
  have "ucast (ucast x :: u32) = x" for x :: u16
    by transfer (simp add: take_bit_take_bit)
  then have "all_acked file (of_nat (Suc i)) 0 s"
    using c s assms(2)
    by (simp add: all_acked_def sending_inv_def Let_def window_ok_def flight_ok_def calm_def ifstream_open_def seq_at_def)
  from forged_loop [OF this, of B S "[(syn_datagram, S)]"] obtain t first rest where
    t: "transfer_loop_at (forged_passes B (length file) 0) (s, S, [(syn_datagram, S)]) =
        Stop (t, B, [(syn_datagram, S)] @ (first, S) # map (\<lambda>d. (d, B)) rest)"
    and data: "carries (of_nat (Suc i)) (seq_at 0) (take 512 file) first" "concat (map (drop header_size) rest) = drop 512 file"
    by (auto simp: chunk_def)
  obtain c' fin last where
    "ending_at 0 0 (forged_closing B) (client.truncate t, B, (syn_datagram, S) # (first, S) # map (\<lambda>d. (d, B)) rest) =
      Stop (c', B, ((syn_datagram, S) # (first, S) # map (\<lambda>d. (d, B)) rest) @ [(fin, B), (last, B)])"
    using ending_with_stranger by blast
  then have "client_session_at S 0 [(0, [Some (packet_bytes (syn_ack i), S)], 0)] stack (Some file)
        (forged_passes B (length file) 0) 0 0 (forged_closing B) =
      Stop (c', B, [(syn_datagram, S), (first, S)] @ map (\<lambda>d. (d, B)) (rest @ [fin, last]))"
    by (simp add: client_session_at_def c(1) sliding_window_at_def s(1) t)
  with data show ?thesis by blast
qed

section \<open>With addresses and without\<close>

text \<open>To leave out the addresses, as the other theories do, is exact: whatever arrives from wherever, the
  client with addresses goes through the same states and sends the same datagrams as the client
  without, and as long as all that arrives comes from the address it first sends to, all it sends goes there.\<close>

lemma addresses_agree:
  "map_progress fst (client_session_at A t\<^sub>0 rounds stack file passes t\<^sub>1 t\<^sub>2 closing) =
      client_session t\<^sub>0 (map (\<lambda>(now, polls, now'). (now, map (map_option fst) polls, now')) rounds) stack file
        (map (apsnd (map_option fst)) passes) t\<^sub>1 t\<^sub>2 (map (apsnd (map_option fst)) closing) \<and>
    progress_all (\<lambda>(c, B, out). map fst out = client_sent c)
      (client_session_at A t\<^sub>0 rounds stack file passes t\<^sub>1 t\<^sub>2 closing) \<and>
    ((\<forall>(now, polls, now') \<in> set rounds. \<forall>r \<in> set polls. source_in {A} r) \<and>
     (\<forall>(clk, r) \<in> set (passes @ closing). source_in {A} r) \<longrightarrow>
     progress_all (\<lambda>(c, B, out). \<forall>(d, to) \<in> set out. to = A)
       (client_session_at A t\<^sub>0 rounds stack file passes t\<^sub>1 t\<^sub>2 closing))"
proof (intro conjI impI)
  let ?m = "client_session_at A t\<^sub>0 rounds stack file passes t\<^sub>1 t\<^sub>2 closing"
  show "map_progress fst ?m =
      client_session t\<^sub>0 (map (\<lambda>(now, polls, now'). (now, map (map_option fst) polls, now')) rounds) stack file
        (map (apsnd (map_option fst)) passes) t\<^sub>1 t\<^sub>2 (map (apsnd (map_option fst)) closing)"
    by (rule session_bare)
  have any: "source_in UNIV r" for r by (cases r) auto
  have "progress_all (within UNIV) ?m" by (rule session_within) (use any in auto)
  then show "progress_all (\<lambda>(c, B, out). map fst out = client_sent c) ?m"
    by (cases ?m) (simp_all add: within_def split_beta)
  assume "(\<forall>(now, polls, now') \<in> set rounds. \<forall>r \<in> set polls. source_in {A} r) \<and>
     (\<forall>(clk, r) \<in> set (passes @ closing). source_in {A} r)"
  then have "progress_all (within {A}) ?m" by (intro session_within) auto
  then show "progress_all (\<lambda>(c, B, out). \<forall>(d, to) \<in> set out. to = A) ?m"
    by (cases ?m) (auto simp: within_def)
qed

section \<open>A property\<close>

text \<open>C17: Anyone can take over an upload. The client has shaken hands with the server at \<open>S\<close>; a stranger at
  \<open>B\<close>, who knows the length of the file and nothing else of the connection, answers its data before the
  server does, with acknowledgements and a FIN that are the same for every client. Then the
  client ends its session as if all were well, after its SYN and the first 512 bytes of the file
  went to the server and everything else went to the stranger: the rest of the file, byte by byte.
  The server is left with the first 512 bytes.\<close>

theorem upload_hijacked:
  assumes "server_inv file_dir i s" and "i < 10" and "is_FIN (all_connection s ! i) = 0"
    and "can_open (file_path file_dir i)" and "sa_family A = AF_INET"
    and "\<forall>(d, a, l) \<in> set (server_sent s). a \<noteq> A"
    and "length file \<le> 100 * 1024 * 1024" and "packet_wf stack"
  shows "\<exists>syn_reply c first rest fin last.
    client_session_at S 0 [(0, [Some (syn_reply, S)], 0)] stack (Some file)
        (forged_passes B (length file) 0) 0 0 (forged_closing B) =
      Stop (c, B, [(syn_datagram, S), (first, S)] @ map (\<lambda>d. (d, B)) (rest @ [fin, last])) \<and>
    concat (map (drop header_size) rest) = drop 512 file \<and>
    (let s' = serve_one can_open file_dir (Datagram syn_datagram A 16) s in
     (syn_reply, A, 16) \<in> set (server_sent s') \<and>
     stored_file file_dir i (serve_one can_open file_dir (Datagram first A 16) s') = take 512 file)"
proof -
  let ?s = "serve_one can_open file_dir (Datagram syn_datagram A 16) s" and ?b = "take 512 file"
  have "replies_ok 0 A s" using assms(6) by (auto simp: replies_in_def)
  note server = handshake_server [where can_open = can_open and l = 16, OF assms(1-5) this]
  obtain c first rest fin last where
    c: "client_session_at S 0 [(0, [Some (packet_bytes (syn_ack i), S)], 0)] stack (Some file)
        (forged_passes B (length file) 0) 0 0 (forged_closing B) =
      Stop (c, B, [(syn_datagram, S), (first, S)] @ map (\<lambda>d. (d, B)) (rest @ [fin, last]))"
    and first: "carries (of_nat (Suc i)) (seq_at 0) ?b first"
    and rest: "concat (map (drop header_size) rest) = drop 512 file"
    using session_hijacked [OF assms(7,8), of S i B] by blast
  have "server_side file_dir i A ?b 0 ?s" using server(1) by (simp add: server_side_def)
  moreover have "segment_of ?b (seq_at 0) ?b" by (auto simp: segment_of_def intro!: exI [of _ 0])
  ultimately have "server_side file_dir i A ?b (0 + length ?b) (serve_one can_open file_dir (Datagram first A 16) ?s)"
    using server_side_data(1) [OF _ first _ assms(5), where can_open = can_open] by fastforce
  then have "stored_file file_dir i (serve_one can_open file_dir (Datagram first A 16) ?s) = ?b"
    by (cases "length file \<le> 512") (simp_all add: server_side_def)
  with c rest server(2) show ?thesis unfolding Let_def by blast
qed

theorem upload_hijacked_witness:
  "\<exists>syn_reply c first rest fin last.
    client_session_at no_addr 0 [(0, [Some (syn_reply, no_addr)], 0)] zero_packet (Some (replicate 600 7))
        (forged_passes client_A 600 0) 0 0 (forged_closing client_A) =
      Stop (c, client_A, [(syn_datagram, no_addr), (first, no_addr)] @ map (\<lambda>d. (d, client_A)) (rest @ [fin, last])) \<and>
    concat (map (drop header_size) rest) = replicate 88 7"
proof -
  have "is_FIN (all_connection start_server ! 0) = 0"
    and "\<forall>(d, a, l) \<in> set (server_sent start_server). a \<noteq> client_A"
    by (simp_all add: start_server_def server_init_def no_connection_def)
  from upload_hijacked [OF start_server_inv _ this(1) _ client_A_family this(2) _ zero_packet_wf, of "\<lambda>_. True" "replicate 600 7" no_addr client_A]
  show ?thesis by (simp add: Let_def) blast
qed

end
