(* ===== verification/ConfundoWire.thy ===== *)
theory ConfundoWire
  imports ConfundoSession
begin

text \<open>
  What the client of Confundo puts on the wire, byte by byte, from its first datagram to its last and
  whatever it receives: \<^verbatim>\<open>SYN\<close> datagrams; then the blocks of its file, of 512 bytes except for the last,
  each with a header that names its place; then \<^verbatim>\<open>FIN\<close> datagrams and acknowledgements. The lemmas follow the
  list of the blocks through the passes of the transfer loop: retransmission goes back in the file, but
  never ahead of what has been sent.
\<close>

section \<open>Datagrams\<close>




text \<open>Blocks of the file, none of them before the one in front of it.\<close>

definition blocks_of :: "buffer \<Rightarrow> nat list \<Rightarrow> bool" where
  "blocks_of file ks \<longleftrightarrow>
     (\<forall>i < length ks. ks ! i \<le> length file div 512 \<and> (ks ! i = 0 \<or> ks ! i - 1 \<in> set (take i ks)))"




lemma blocks_of_Nil [simp]: "blocks_of file []"
  by (simp add: blocks_of_def)



section \<open>The handshake\<close>



section \<open>The transfer\<close>


lemma announce_ack [simp]: "ack_num (announce p s) = ack_num s"
  by (simp add: announce_def)

lemma log_packet_ack [simp]: "ack_num (log_packet t q p s) = ack_num s"
  by (simp add: log_packet_def Let_def)

lemma grow_window_ack [simp]: "ack_num (grow_window s) = ack_num s"
  by (simp add: grow_window_def Let_def)

lemma process_ack_ack [simp]: "ack_num (process_ack s) = ack_num s"
  by (simp add: process_ack_def Let_def)












section \<open>The end\<close>






section \<open>The session\<close>





section \<open>Property\<close>



end
