(* ===== verification/ConfundoTermination.thy ===== *)
theory ConfundoTermination
  imports ConfundoSession ConfundoTimers ConfundoWindow
begin

text \<open>
  Every session of the client ends, unless the network keeps talking to it. In each of its three
  phases ten seconds in which nothing arrives are enough, whatever came before, from the server or
  from others. Clock readings may come in any order; that a reading is ten seconds
  after others is said of it where it is used.
\<close>

section \<open>Handshake\<close>

lemma recv_polls_window:
  "window_ok c \<Longrightarrow> window_ok (snd (snd (recv_polls a polls pkt c)))"
proof (induction polls arbitrary: pkt c)
  case (Cons r polls)
  have grow: "window_ok (c'\<lparr>CWND := CWND c' + 512\<rparr>)" if "window_ok c'" "CWND c' < SS_THRESH c'" for c' :: client
  proof -
    have "unat (CWND c') < unat (SS_THRESH c')" using that(2) by (simp add: word_less_nat_alt)
    moreover have "unat (CWND c' + 512) = unat (CWND c') + 512"
      using that calculation by (subst unat_plus_small) (simp_all add: window_ok_def)
    ultimately show ?thesis using that(1) by (simp add: window_ok_def)
  qed
  have same: "window_ok (put_line f p c)" "window_ok (c\<lparr>timer_flag := n\<rparr>)" "window_ok ((put_line f p c)\<lparr>timer_flag := n\<rparr>)" for f p n
    using Cons.prems by (simp_all add: window_ok_def)
  show ?case
    using Cons same grow [of "(put_line _ _ c)\<lparr>timer_flag := _\<rparr>"] by (cases r) (simp_all add: Let_def)
qed (simp add: window_ok_def)

lemma handshake_loop_window: "window_ok c \<Longrightarrow> progress_all window_ok (handshake_loop rounds t pkt c)"
proof (induction rounds arbitrary: t c)
  case (Cons r rounds)
  obtain now polls now' where r: "r = (now, polls, now')" by (cases r)
  let ?c = "(put_line (CHR ''S'') pkt (send_bytes packet_size pkt c))\<lparr>timer_flag := 0\<rparr>"
  obtain n recv d where p: "recv_polls 12346 polls zero_packet ?c = (n, recv, d)"
    by (cases "recv_polls 12346 polls zero_packet ?c")
  have "window_ok ?c" using Cons.prems by (simp add: window_ok_def)
  from recv_polls_window [OF this, of 12346 polls zero_packet] have d: "window_ok d" by (simp add: p)
  then have "window_ok (d\<lparr>seq_num := x, ack_num := y, id_num := z\<rparr>)" for x y z by (simp add: window_ok_def)
  then show ?case using Cons d by (simp add: r recv_pack_def p Let_def)
qed simp

text \<open>Ten seconds after some times: of the start of the phase, or of when something came.\<close>

definition ten_seconds_after :: "time_point set \<Rightarrow> time_point \<Rightarrow> bool" where
  "ten_seconds_after ts now \<longleftrightarrow> (\<forall>t \<in> ts. 10 \<le> duration_seconds (now - t))"

definition quiet_rounds :: "time_point set \<Rightarrow> round list \<Rightarrow> bool" where
  "quiet_rounds ts rounds \<longleftrightarrow> (\<forall>(now, polls, now') \<in> set rounds. set polls \<subseteq> {None}) \<and>
     (\<exists>(now, polls, now') \<in> set rounds. ten_seconds_after ts now)"

lemma recv_polls_quiet: "set polls \<subseteq> {None} \<Longrightarrow> recv_polls a polls pkt c = (- 1, pkt, c\<lparr>timer_flag := 1\<rparr>)"
  by (induction polls) auto

lemma handshake_loop_quiet: "t \<in> ts \<Longrightarrow> quiet_rounds ts rounds \<Longrightarrow> handshake_loop rounds t pkt c \<noteq> Next c'"
proof (induction rounds arbitrary: c)
  case (Cons r rounds)
  obtain now polls now' where r: "r = (now, polls, now')" by (cases r)
  show ?case
  proof (cases "10 \<le> duration_seconds (now - t)")
    case False
    then have "\<not> ten_seconds_after ts now" using Cons.prems(1) by (auto simp: ten_seconds_after_def)
    then have "quiet_rounds ts rounds" "set polls \<subseteq> {None}" using Cons.prems(2) by (auto simp: quiet_rounds_def r)
    then show ?thesis using Cons.IH Cons.prems(1) False by (simp add: r recv_pack_def recv_polls_quiet)
  qed (simp add: r)
qed (simp add: quiet_rounds_def)

lemma handshake_loop_ends:
  "t \<in> ts \<Longrightarrow> (\<lambda>(now, polls, now'). now') ` set rounds \<subseteq> ts \<Longrightarrow> quiet_rounds ts quiet \<Longrightarrow>
   handshake_loop (rounds @ quiet) t pkt c \<noteq> Next c'"
proof (induction rounds arbitrary: t c)
  case Nil
  then show ?case using handshake_loop_quiet by simp
next
  case (Cons r rounds)
  obtain now polls now' where r: "r = (now, polls, now')" by (cases r)
  have "now' \<in> ts" using Cons.prems(2) r by simp
  then show ?case using Cons by (auto simp: r Let_def split: prod.split)
qed

section \<open>Transfer\<close>

text \<open>The ten second timer runs, since one of these times.\<close>

definition armed :: "time_point set \<Rightarrow> sending \<Rightarrow> bool" where
  "armed ts s \<longleftrightarrow> timer_flag s \<noteq> 0 \<and> timeout_check s \<in> ts"

lemma timer_fields [simp]:
  "timeout_check (check_timeout T s) = timeout_check s" "timer_flag (check_timeout T s) = timer_flag s"
  "timeout_check (process_ack s) = timeout_check s" "timer_flag (process_ack s) = timer_flag s"
  by (simp_all add: check_timeout_def process_ack_def grow_window_def Let_def split: list.split)

lemma send_data_armed:
  "send_data now s = Next s' \<Longrightarrow> armed (if timer_flag s = 0 then {now} else {timeout_check s}) s'"
  by (auto simp: armed_def send_data_def Let_def split_beta log_packet_def announce_def split: if_splits)

lemma receive_ack_armed: "receive_ack reply now s = Next s' \<Longrightarrow> armed ts s \<Longrightarrow> now \<in> ts \<Longrightarrow> armed ts s'"
  by (auto simp: armed_def receive_ack_def split: option.splits list.splits if_splits)

lemma transfer_pass_armed:
  assumes "transfer_pass clk reply s = Next s'" and "clk 1 \<in> ts" and "clk 2 \<in> ts"
    and "armed ts s \<or> timer_flag s = 0 \<and> CWND_space s > 0 \<and> \<not> eofbit (infile s)"
  shows "armed ts s'"
proof -
  let ?t = "check_timeout (clk 0) s"
  let ?sent = "if CWND_space ?t > 0 \<and> \<not> eofbit (infile ?t) then send_data (clk 1) ?t else Next ?t"
  have sends: "CWND_space ?t > 0 \<and> \<not> eofbit (infile ?t)" if "CWND_space s > 0" "\<not> eofbit (infile s)"
    using that by (auto simp: check_timeout_def ifstream_seekg_def ifstream_clear_def split: list.split)
  obtain u where u: "?sent = Next u" "receive_ack reply (clk 2) u = Next s'"
    using assms(1) receive_ack_not_Stop send_data_not_Stop
    by (cases ?sent) (auto simp: transfer_pass_def Let_def split: if_splits elim!: then_do.elims)
  have "armed ts u"
  proof (cases "CWND_space ?t > 0 \<and> \<not> eofbit (infile ?t)")
    case True
    then have "send_data (clk 1) ?t = Next u" using u(1) by simp
    from send_data_armed [OF this] assms(2,4) show ?thesis by (auto simp: armed_def split: if_splits)
  next
    case False
    then show ?thesis using assms(4) sends u(1) by (auto simp: armed_def)
  qed
  then show ?thesis using receive_ack_armed [OF u(2) _ assms(3)] by simp
qed

definition quiet_passes :: "nat \<Rightarrow> time_point set \<Rightarrow> (clock \<times> buffer option) list \<Rightarrow> bool" where
  "quiet_passes k ts passes \<longleftrightarrow> (\<forall>(clk, reply) \<in> set passes. silent reply) \<and>
     (\<exists>(clk, reply) \<in> set passes. ten_seconds_after ts (clk k))"

text \<open>A pass in which nothing arrives does not restart the timer.\<close>

lemma transfer_pass_quiet:
  assumes "silent reply" and "armed ts s" and "transfer_pass clk reply s = Next s'"
  shows "armed ts s'" and "\<not> ten_seconds_after ts (clk 2)"
proof -
  let ?t = "check_timeout (clk 0) s"
  let ?sent = "if CWND_space ?t > 0 \<and> \<not> eofbit (infile ?t) then send_data (clk 1) ?t else Next ?t"
  obtain u where u: "?sent = Next u" "receive_ack reply (clk 2) u = Next s'"
    using assms(3) receive_ack_not_Stop send_data_not_Stop
    by (cases ?sent) (auto simp: transfer_pass_def Let_def split: if_splits elim!: then_do.elims)
  have "armed ts u"
    using u(1) send_data_armed [of "clk 1" ?t u] assms(2) by (auto simp: armed_def split: if_splits)
  then show "armed ts s'" and "\<not> ten_seconds_after ts (clk 2)"
    using u(2) by (auto simp: receive_silent [OF assms(1)] armed_def ten_seconds_after_def split: if_splits)
qed

lemma transfer_loop_Cons_Next:
  "transfer_loop ((clk, reply) # passes) s = Next s' \<Longrightarrow>
   \<exists>t. transfer_pass clk reply s = Next t \<and> transfer_loop passes t = Next s'"
  by (cases "transfer_pass clk reply s") simp_all

lemma transfer_loop_quiet: "armed ts s \<Longrightarrow> quiet_passes 2 ts passes \<Longrightarrow> transfer_loop passes s \<noteq> Next s'"
proof (induction passes arbitrary: s)
  case (Cons p passes)
  obtain clk reply where p: "p = (clk, reply)" by (cases p)
  show ?case
  proof
    assume "transfer_loop (p # passes) s = Next s'"
    then obtain t where t: "transfer_pass clk reply s = Next t" "transfer_loop passes t = Next s'"
      using transfer_loop_Cons_Next p by blast
    have "silent reply" using Cons.prems(2) by (simp add: quiet_passes_def p)
    note q = transfer_pass_quiet [OF this Cons.prems(1) t(1)]
    then have "quiet_passes 2 ts passes" using Cons.prems(2) by (auto simp: quiet_passes_def p)
    with Cons.IH [OF q(1)] t(2) show False by blast
  qed
qed (simp add: quiet_passes_def)

definition readings :: "(clock \<times> buffer option) list \<Rightarrow> time_point set" where
  "readings passes = (\<Union>(clk, reply) \<in> set passes. clk ` {..<5})"

lemma readings_Cons: "readings ((clk, reply) # passes) = clk ` {..<5} \<union> readings passes"
  by (simp add: readings_def)

lemma transfer_loop_armed:
  assumes "transfer_loop passes s = Next s'" and "readings passes \<subseteq> ts"
    and "armed ts s \<or> passes \<noteq> [] \<and> timer_flag s = 0 \<and> CWND_space s > 0 \<and> \<not> eofbit (infile s)"
  shows "armed ts s'"
  using assms
proof (induction passes arbitrary: s)
  case (Cons p passes)
  obtain clk reply where p: "p = (clk, reply)" by (cases p)
  obtain t where t: "transfer_pass clk reply s = Next t" "transfer_loop passes t = Next s'"
    using transfer_loop_Cons_Next Cons.prems(1) p by blast
  have "clk 1 \<in> ts" "clk 2 \<in> ts" using Cons.prems(2) by (auto simp: p readings_Cons)
  then have "armed ts t" using transfer_pass_armed [OF t(1)] Cons.prems(3) by blast
  then show ?case using Cons.IH [OF t(2)] Cons.prems(2) by (simp add: p readings_Cons)
qed simp

lemma open_transfer_starts:
  assumes "open_transfer stack file c = Next s" and "window_ok c"
  shows "timer_flag s = 0" and "CWND_space s > 0" and "\<not> eofbit (infile s)"
proof -
  have "unat (CWND c div 512) = unat (CWND c) div 512" by (simp add: unat_div)
  also have "\<dots> \<noteq> 0" using assms(2) div_le_mono [of 512 "unat (CWND c)" 512] by (simp add: window_ok_def)
  finally have "CWND c div 512 > 0" by (metis unat_0 word_neq_0_conv)
  then show "timer_flag s = 0" "CWND_space s > 0" "\<not> eofbit (infile s)"
    using assms(1) by (auto simp: open_transfer_def Let_def client.defs ifstream_open_def split: option.splits if_splits)
qed

lemma sliding_window_ends:
  assumes "window_ok c" and "passes \<noteq> []" and "quiet_passes 2 (readings passes) quiet"
  shows "sliding_window stack file (passes @ quiet) c \<noteq> Next c'"
proof
  assume "sliding_window stack file (passes @ quiet) c = Next c'"
  then obtain s t where s: "open_transfer stack file c = Next s" "transfer_loop (passes @ quiet) s = Next t"
    by (cases "open_transfer stack file c") (auto simp: sliding_window_def split: progress.splits)
  obtain u where u: "transfer_loop passes s = Next u"
    using s(2) by (cases "transfer_loop passes s") (simp_all add: transfer_loop_append)
  have "armed (readings passes) u"
    using transfer_loop_armed [OF u] open_transfer_starts [OF s(1) assms(1)] assms(2) by blast
  from transfer_loop_quiet [OF this assms(3)] s(2) u show False by (simp add: transfer_loop_append)
qed

section \<open>Closing\<close>

text \<open>The last two seconds end by the clock alone.\<close>

lemma wait_loop_ends:
  assumes "\<exists>(now, reply) \<in> set passes. 2 \<le> duration_seconds (now - t)"
  shows "wait_loop passes t pkt recv c \<noteq> Next c'"
  using assms
proof (induction passes arbitrary: pkt recv c)
  case (Cons p passes)
  obtain now reply where p: "p = (now, reply)" by (cases p)
  show ?case
  proof (cases "2 \<le> duration_seconds (now - t)")
    case False
    then have "\<exists>(now, reply) \<in> set passes. 2 \<le> duration_seconds (now - t)" using Cons.prems by (auto simp: p)
    from Cons.IH [OF this] False show ?thesis by (simp add: p Let_def split: option.split list.split)
  qed (simp add: p)
qed simp

lemma ending_loop_quiet: "t \<in> ts \<Longrightarrow> quiet_passes 0 ts passes \<Longrightarrow> ending_loop passes t t\<^sub>2 pkt recv c \<noteq> Next c'"
proof (induction passes arbitrary: t\<^sub>2 c)
  case (Cons p passes)
  obtain clk reply where p: "p = (clk, reply)" by (cases p)
  show ?case
  proof (cases "10 \<le> duration_seconds (clk 0 - t)")
    case False
    then have "\<not> ten_seconds_after ts (clk 0)" using Cons.prems(1) by (auto simp: ten_seconds_after_def)
    then have "quiet_passes 0 ts passes" "silent reply" using Cons.prems(2) by (auto simp: quiet_passes_def p)
    then show ?thesis using Cons.IH [OF Cons.prems(1)] False by (auto simp: p silent_def Let_def)
  qed (simp add: p)
qed (simp add: quiet_passes_def)

lemma ending_loop_ends:
  "insert t (readings passes) \<subseteq> ts \<Longrightarrow> quiet_passes 0 ts quiet \<Longrightarrow> ending_loop (passes @ quiet) t t\<^sub>2 pkt recv c \<noteq> Next c'"
proof (induction passes arbitrary: t t\<^sub>2 recv c)
  case Nil
  then have "t \<in> ts" by simp
  from ending_loop_quiet [OF this Nil(2), of t\<^sub>2 pkt recv c c'] show ?case by simp
next
  case (Cons p passes)
  obtain clk reply where p: "p = (clk, reply)" by (cases p)
  have clk: "clk 3 \<in> ts" "clk 4 \<in> ts" "t \<in> ts" and sub: "readings passes \<subseteq> ts"
    using Cons.prems(1) by (auto simp: p readings_Cons)
  have loop: "ending_loop (passes @ quiet) t' t\<^sub>2' pkt recv' d \<noteq> Next c'" if "t' \<in> ts" for t' t\<^sub>2' recv' d
    using Cons.IH Cons.prems(2) sub that by simp
  obtain clk' reply' where quiet: "(clk', reply') \<in> set quiet" "ten_seconds_after ts (clk' 0)"
    using Cons.prems(2) by (auto simp: quiet_passes_def)
  then have "2 \<le> duration_seconds (clk' 0 - clk 4)" using clk(2) by (force simp: ten_seconds_after_def)
  then have "\<exists>(now, reply) \<in> set (map (\<lambda>(clk, reply). (clk 0, reply)) (passes @ quiet)). 2 \<le> duration_seconds (now - clk 4)"
    using quiet(1) by force
  note wait = wait_loop_ends [OF this]
  show ?case
    using loop [OF clk(1)] loop [OF clk(3)] wait
    by (auto simp: p Let_def split: option.split list.split)
qed

section \<open>Property\<close>

text \<open>C15: The client always ends, with success or with an error message, once the network has been silent
  for long enough: whatever datagrams come in the handshake, the transfer and the closing, from the
  server or from anyone, if in each of them ten seconds pass without any after all times before, the program does
  not go on for ever. (In the handshake the ten seconds count from its start or from the last
  round in which something came; in the transfer and in the closing from every clock reading of their
  passes before, of which the transfer has at least one.)\<close>

theorem session_ends:
  assumes "quiet_rounds (insert t\<^sub>0 ((\<lambda>(now, polls, now'). now') ` set rounds)) rounds'"
    and "passes \<noteq> []" and "quiet_passes 2 (readings passes) passes'"
    and "quiet_passes 0 (insert t\<^sub>1 (readings closing)) closing'"
  shows "client_session t\<^sub>0 (rounds @ rounds') stack file (passes @ passes') t\<^sub>1 t\<^sub>2 (closing @ closing') \<noteq> Next c"
proof -
  have "window_ok client_init" by (simp add: window_ok_def client_init_def)
  then have window: "progress_all window_ok (handshake t\<^sub>0 (rounds @ rounds') client_init)"
    unfolding handshake_def by (rule handshake_loop_window)
  have hand: "handshake t\<^sub>0 (rounds @ rounds') client_init \<noteq> Next c'" for c'
    unfolding handshake_def by (rule handshake_loop_ends [OF _ _ assms(1)]) (simp_all add: subset_insertI)
  have closed: "ending t\<^sub>1 t\<^sub>2 (closing @ closing') d \<noteq> Next c'" for d c'
    unfolding ending_def Let_def by (rule ending_loop_ends [OF _ assms(4)]) simp
  show ?thesis
  proof (cases "handshake t\<^sub>0 (rounds @ rounds') client_init")
    case (Stop d)
    then have "window_ok d" using window by simp
    note moved = sliding_window_ends [OF this assms(2,3)]
    show ?thesis
      using Stop moved closed
      by (cases "sliding_window stack file (passes @ passes') d") (auto simp: client_session_def)
  qed (use hand in \<open>simp_all add: client_session_def\<close>)
qed

theorem session_ends_witness:
  "\<forall>c. client_session 0 ([(0, [Some (packet_bytes (syn_ack 0))], 0)] @ [(seconds 10, [], 0)]) zero_packet (Some [1, 2]) ([(\<lambda>_. 0, None)] @ [(\<lambda>_. seconds 10, None)])
     0 0 ([] @ [(\<lambda>_. seconds 10, None)]) \<noteq> Next c"
  by (rule allI, rule session_ends)
    (simp_all add: quiet_rounds_def quiet_passes_def ten_seconds_after_def readings_def silent_def duration_seconds_def)

end
