(* ===== verification/ConfundoLivelock.thy ===== *)
theory ConfundoLivelock
  imports ConfundoDelivery
begin

text \<open>
  A transfer that never ends. The client takes an acknowledgement only when it is exactly the one
  that some packet in its log expects, not when it acknowledges more than that. If acknowledgements
  are lost and the client has gone back, the server can be ahead of everything in the log: it
  then answers each packet with a number that the client drops, and a client without space in its
  window sends the same packets again for ever. \<open>livelocked\<close> is such a state, it is kept by everything
  that can happen, and it is reached within a few packets.
\<close>

section \<open>Ahead of the client\<close>

text \<open>The server has the packet of this entry and at least one byte more.\<close>

definition stale :: "buffer \<Rightarrow> nat \<Rightarrow> logger \<Rightarrow> bool" where
  "stale file m l \<longleftrightarrow> file_pos l + data_size < m \<and> E_ACK l = seq_at (file_pos l + data_size)"

definition stuck_client :: "nat \<Rightarrow> buffer \<Rightarrow> nat \<Rightarrow> sending \<Rightarrow> bool" where
  "stuck_client i file m c \<longleftrightarrow>
     sending_inv file (of_nat (Suc i)) c \<and> CWND_logs c \<noteq> [] \<and> CWND_space c = 0 \<and> \<not> eofbit (infile c) \<and>
     (\<forall>l \<in> set (CWND_logs c). stale file m l)"

text \<open>On the way are only packets the server has and its answers to them.\<close>

definition livelocked :: "string \<Rightarrow> nat \<Rightarrow> sockaddr \<Rightarrow> buffer \<Rightarrow> nat \<Rightarrow> sending \<Rightarrow> server \<Rightarrow> bool" where
  "livelocked file_dir i A file m c s \<longleftrightarrow>
     length file \<le> 90054 \<and> m \<le> length file \<and> stuck_client i file m c \<and>
     (\<forall>d \<in> set (client_sent c). d = syn_datagram \<or>
       (\<exists>p < m. carries (of_nat (Suc i)) (seq_at p) (chunk p data_size file) d)) \<and>
     server_side file_dir i A file m s \<and> replies_in {0, seq_at 0, seq_at m} A s"

lemma stale_unmatched:
  assumes "stale file m l" and "m \<le> length file" and "length file \<le> 90054"
  shows "E_ACK l \<notin> {0, seq_at 0, seq_at m}"
proof -
  have p: "file_pos l + data_size < m" "E_ACK l = seq_at (file_pos l + data_size)" using assms(1) by (auto simp: stale_def)
  then have "seq_at (file_pos l + data_size) \<noteq> seq_at 0" "seq_at (file_pos l + data_size) \<noteq> seq_at m"
    using assms(2,3) by (subst seq_at_inject; simp)+
  moreover have "seq_at (file_pos l + data_size) \<noteq> 0" using p(1) assms(2,3) by (intro seq_at_nonzero) simp
  ultimately show ?thesis using p(2) by simp
qed

text \<open>The first half of a pass sends the oldest packet again, or nothing.\<close>

lemma stuck_resend:
  assumes "stuck_client i file m c" and "m \<le> length file"
  obtains c1 where "(let s = check_timeout T c in if CWND_space s > 0 \<and> \<not> eofbit (infile s) then send_data T' s else Next s) = Next c1"
    and "stuck_client i file m c1"
    and "client_sent c1 = client_sent c \<or> (\<exists>d p. client_sent c1 = client_sent c @ [d] \<and> p < m \<and>
      carries (of_nat (Suc i)) (seq_at p) (chunk p data_size file) d)"
proof -
  have c: "sending_inv file (of_nat (Suc i)) c" "CWND_space c = 0" "\<forall>l \<in> set (CWND_logs c). stale file m l"
    using assms(1) by (simp_all add: stuck_client_def)
  obtain l rest where logs: "CWND_logs c = l # rest" using assms(1) by (cases "CWND_logs c") (auto simp: stuck_client_def)
  show ?thesis
  proof (cases "500 < duration_millis (T - send_time l)")
    case False
    then have "check_timeout T c = c" by (simp add: check_timeout_def logs)
    then show ?thesis using that [of c] c(2) assms(1) by (simp add: Let_def)
  next
    case True
    let ?t = "check_timeout T c"
    have eq: "?t = c\<lparr>infile := (infile c)\<lparr>pos := file_pos l, eofbit := False, failbit := False\<rparr>,
        last_seq := seq_num c, seq_num := log_seq l, CWND_logs := rest, SS_THRESH := CWND c div 2, CWND := 512, CWND_space := 1\<rparr>"
      by (rule check_timeout_late [OF logs True])
    have t: "sending_inv file (of_nat (Suc i)) ?t" "client_sent ?t = client_sent c"
      by (rule check_timeout_inv [OF c(1)])+
    have open_t: "\<not> eofbit (infile ?t)" "CWND_space ?t = 1" "pos (infile ?t) = file_pos l" "CWND_logs ?t = rest"
      by (simp_all add: eq)
    have l: "stale file m l" using c(3) logs by simp
    then have len: "length (chunk (file_pos l) data_size file) = data_size" using assms(2) by (auto simp: stale_def min_def)
    obtain u where u: "send_data T' ?t = Next u" "sending_inv file (of_nat (Suc i)) u"
        "CWND_logs u = rest @ [\<lparr>E_ACK = seq_at (file_pos l + data_size), log_seq = seq_at (file_pos l), send_time = T', file_pos = file_pos l\<rparr>]"
        "eofbit (infile u) = (data_size < data_size)" "CWND_space u = 1 - 1"
        "\<exists>d. client_sent u = client_sent c @ [d] \<and> carries (of_nat (Suc i)) (seq_at (file_pos l)) (chunk (file_pos l) data_size file) d"
      using send_data_effect [OF t(1) open_t(1), where now = T'] unfolding open_t(2-4) t(2) len by metis
    have "stuck_client i file m u"
      using u(2-5) c(3) l by (auto simp: stuck_client_def logs stale_def)
    moreover have "file_pos l < m" using l by (simp add: stale_def)
    ultimately show ?thesis using that [of u] u(1,6) open_t(1,2) by (auto simp: Let_def)
  qed
qed

text \<open>The second half drops whatever answer there is.\<close>

lemma livelocked_pass:
  assumes "livelocked file_dir i A file m c s" and "reply_from A s reply"
  shows "transfer_pass clk reply c = Next c' \<Longrightarrow> livelocked file_dir i A file m c' s"
    and "transfer_pass clk reply c \<noteq> Stop c'" and "reply \<noteq> None \<Longrightarrow> \<exists>c'. transfer_pass clk reply c = Next c'"
proof -
  have l: "length file \<le> 90054" "m \<le> length file" "stuck_client i file m c" "replies_in {0, seq_at 0, seq_at m} A s"
    using assms(1) by (simp_all add: livelocked_def)
  obtain c1 where c1: "(let s = check_timeout (clk 0) c in if CWND_space s > 0 \<and> \<not> eofbit (infile s) then send_data (clk 1) s else Next s) = Next c1"
      "stuck_client i file m c1" "client_sent c1 = client_sent c \<or> (\<exists>d p. client_sent c1 = client_sent c @ [d] \<and> p < m \<and>
        carries (of_nat (Suc i)) (seq_at p) (chunk p data_size file) d)"
    by (rule stuck_resend [OF l(3,2)])
  have eq: "transfer_pass clk reply c = then_do (receive_ack reply (clk 2) c1)
      (\<lambda>s. if ifstream_tellg (infile s) = - 1 \<and> CWND_logs s = [] then Stop s else Next s)"
    using c1(1) by (auto simp: transfer_pass_def Let_def split: if_splits)
  have unmatched: "length d = packet_size \<and> (\<forall>l \<in> set (CWND_logs c1). E_ACK l \<noteq> ack_of d)" if "reply = Some d" for d
  proof -
    obtain a where "(d, A, a) \<in> set (server_sent s)" using assms(2) \<open>reply = Some d\<close> by (auto simp: reply_from_def)
    from replies_inD [OF l(4) this] have d: "length d = packet_size" "ack_of d \<in> {0, seq_at 0, seq_at m}" by auto
    have "E_ACK l \<noteq> ack_of d" if "l \<in> set (CWND_logs c1)" for l
    proof -
      have "stale file m l" using c1(2) that by (simp add: stuck_client_def)
      from stale_unmatched [OF this l(2,1)] d(2) show ?thesis by metis
    qed
    with d(1) show ?thesis by blast
  qed
  have inv1: "sending_inv file (of_nat (Suc i)) c1" using c1(2) by (simp add: stuck_client_def)
  then have wf: "packet_wf (recv_packet c1)" by (simp add: sending_inv_def Let_def)
  have "(transfer_pass clk reply c = Next c' \<longrightarrow> livelocked file_dir i A file m c' s) \<and> transfer_pass clk reply c \<noteq> Stop c' \<and>
    (reply \<noteq> None \<longrightarrow> (\<exists>c'. transfer_pass clk reply c = Next c'))"
  proof (cases "receive_ack reply (clk 2) c1")
    case (Next c2)
    note r = receive_ack_unmatched [OF unmatched wf Next] and i2 = receive_ack_effect(1) [OF inv1 Next]
    have c2: "stuck_client i file m c2" using c1(2) r i2 by (simp add: stuck_client_def)
    then have "transfer_pass clk reply c = Next c2" by (simp add: eq Next stuck_client_def)
    moreover have "livelocked file_dir i A file m c2 s"
      using assms(1) c1(3) c2 r(4) by (auto simp: livelocked_def)
    ultimately show ?thesis by auto
  next
    case (Stop c2)
    then show ?thesis using receive_ack_not_Stop by blast
  next
    case (ExitFailure e c2)
    have "reply = None"
    proof (rule ccontr)
      assume "reply \<noteq> None"
      then obtain d where d: "reply = Some d" by blast
      with unmatched obtain x e' where "d = x # e'" by (cases d) fastforce+
      with ExitFailure d show False by (simp add: receive_ack_def)
    qed
    then show ?thesis unfolding eq ExitFailure then_do.simps by simp
  qed
  then show "transfer_pass clk reply c = Next c' \<Longrightarrow> livelocked file_dir i A file m c' s"
    and "transfer_pass clk reply c \<noteq> Stop c'" and "reply \<noteq> None \<Longrightarrow> \<exists>c'. transfer_pass clk reply c = Next c'" by auto
qed

text \<open>Nothing on the way is new to the server.\<close>

lemma livelocked_deliver:
  assumes "livelocked file_dir i A file m c s" and "d \<in> set (client_sent c)"
  shows "livelocked file_dir i A file m c (serve_one can_open file_dir (Datagram d A 16) s)"
proof -
  have l: "length file \<le> 90054" "m \<le> length file" "server_side file_dir i A file m s" "replies_in {0, seq_at 0, seq_at m} A s"
    using assms(1) by (simp_all add: livelocked_def)
  note fam = server_side_family [OF l(3)]
  have "server_side file_dir i A file m (serve_one can_open file_dir (Datagram d A 16) s) \<and>
    replies_in {0, seq_at 0, seq_at m} A (serve_one can_open file_dir (Datagram d A 16) s)"
  proof (cases "d = syn_datagram")
    case True
    obtain k where inv: "server_inv file_dir k s" by (rule server_side_inv [OF l(3)])
    from server_side_own_syn [OF l(3) fam] replies_own_syn [OF inv fam l(4)] True show ?thesis by simp
  next
    case False
    then obtain p where p: "p < m" "carries (of_nat (Suc i)) (seq_at p) (chunk p data_size file) d"
      using assms by (auto simp: livelocked_def)
    have seg: "segment_of file (seq_at p) (chunk p data_size file)"
      unfolding segment_of_def using p(1) l(2) by (intro exI [of _ p]) (simp add: chunk_def take_is_prefix)
    have "length file \<le> 102400" using l(1) by simp
    note data = server_side_data [OF l(3) p(2) seg fam this, where can_open = can_open]
    have "seq_at p \<noteq> seq_at m" using p(1) l(1,2) by (subst seq_at_inject) simp_all
    with data(1) data(3) [OF l(4)] show ?thesis by (simp add: insert_commute insert_absorb)
  qed
  with assms(1) show ?thesis by (simp add: livelocked_def)
qed

lemma livelocked_foreign:
  assumes "livelocked file_dir i A file m c s" and "foreign i A s ev"
  shows "livelocked file_dir i A file m c (serve_one can_open file_dir ev s)"
proof -
  have l: "server_side file_dir i A file m s" "replies_in {0, seq_at 0, seq_at m} A s"
    using assms(1) by (simp_all add: livelocked_def)
  obtain k where inv: "server_inv file_dir k s" by (rule server_side_inv [OF l(1)])
  from server_side_foreign [OF l(1) assms(2)] replies_foreign [OF inv assms(2) l(2)] assms(1) show ?thesis
    by (simp add: livelocked_def)
qed

lemma livelocked_reaches:
  assumes "reaches can_open file_dir i A c\<^sub>0 s\<^sub>0 c s" and "livelocked file_dir i A file m c\<^sub>0 s\<^sub>0"
  shows "livelocked file_dir i A file m c s"
  using assms
  by (induction rule: reaches.induct) (auto intro: livelocked_pass(1) livelocked_deliver livelocked_foreign)

text \<open>Everything on the way may be lost in such a state: it stays one.\<close>

lemma livelocked_lost:
  assumes "stuck_client i file m c" and "server_side file_dir i A file m s" and "length file \<le> 90054"
  shows "livelocked file_dir i A file m (c\<lparr>client_sent := []\<rparr>) (s\<lparr>server_sent := []\<rparr>)"
proof -
  have "server_side file_dir i A file m (s\<lparr>server_sent := []\<rparr>)"
    using assms(2) by (simp add: server_side_def conn_valid_def server_inv_def conn_closed_def stored_file_def
        expected_seq_def replies_in_def)
  moreover have "stuck_client i file m (c\<lparr>client_sent := []\<rparr>)"
    using assms(1) by (simp add: stuck_client_def sending_inv_def Let_def)
  ultimately show ?thesis
    using assms(3) by (simp add: livelocked_def replies_in_def) (simp add: server_side_def)
qed

section \<open>Getting there\<close>

text \<open>
  A run is followed by its numbers: packet \<open>p\<close> is the \<open>p\<close>-th piece of 512 bytes. \<open>sender\<close> describes
  the client: what is in the log and when it was sent, the packet to send next, the window, and packets on the way;
  \<open>receiver\<close> a server that has the first \<open>m\<close> packets and has just acknowledged them.
\<close>

definition entry :: "time_point \<times> nat \<Rightarrow> logger" where
  "entry x = \<lparr>E_ACK = seq_at (512 * snd x + 512), log_seq = seq_at (512 * snd x), send_time = fst x, file_pos = 512 * snd x\<rparr>"

definition sender ::
  "nat \<Rightarrow> buffer \<Rightarrow> time_point \<Rightarrow> (time_point \<times> nat) list \<Rightarrow> nat \<Rightarrow> u32 \<Rightarrow> u32 \<Rightarrow> u32 \<Rightarrow> nat set \<Rightarrow> sending \<Rightarrow> bool" where
  "sender i file t xs n C T sp S c \<longleftrightarrow>
     sending_inv file (of_nat (Suc i)) c \<and> CWND_logs c = map entry xs \<and> (\<forall>x \<in> set xs. 512 * snd x + 512 \<le> length file) \<and>
     pos (infile c) = 512 * n \<and> \<not> eofbit (infile c) \<and> CWND c = C \<and> SS_THRESH c = T \<and> CWND_space c = sp \<and>
     timeout_check c = t \<and>
     (\<forall>p \<in> S. \<exists>d \<in> set (client_sent c). carries (of_nat (Suc i)) (seq_at (512 * p)) (chunk (512 * p) data_size file) d)"

definition receiver :: "string \<Rightarrow> nat \<Rightarrow> sockaddr \<Rightarrow> buffer \<Rightarrow> nat \<Rightarrow> server \<Rightarrow> bool" where
  "receiver file_dir i A file m s \<longleftrightarrow>
     server_side file_dir i A file (512 * m) s \<and> (m > 0 \<longrightarrow> (\<exists>d l. (d, A, l) \<in> set (server_sent s) \<and> ack_of d = seq_at (512 * m)))"

lemma sender_inv:
  assumes "sender i file t xs n C T sp S c"
  shows "sending_inv file (of_nat (Suc i)) c" and "packet_wf (recv_packet c)" and "CWND_logs c = map entry xs"
  using assms by (simp_all add: sender_def sending_inv_def Let_def)

lemma sender_send:
  assumes "sender i file t xs n C T sp S c" and "512 * n + 512 \<le> length file"
  obtains c' where "send_data t' c = Next c'"
    and "sender i file (if timer_flag c = 0 then t' else t) (xs @ [(t', n)]) (Suc n) C T (sp - 1) (insert n S) c'"
proof -
  have c: "sending_inv file (of_nat (Suc i)) c" "\<not> eofbit (infile c)" "pos (infile c) = 512 * n" "CWND_logs c = map entry xs"
      "timeout_check c = t" "CWND c = C" "SS_THRESH c = T" "CWND_space c = sp"
    using assms(1) by (simp_all add: sender_def)
  have len: "length (chunk (512 * n) data_size file) = 512" using assms(2) by simp
  obtain c' where c': "send_data t' c = Next c'" "sending_inv file (of_nat (Suc i)) c'"
      "CWND_logs c' = map entry xs @ [\<lparr>E_ACK = seq_at (512 * n + 512), log_seq = seq_at (512 * n), send_time = t', file_pos = 512 * n\<rparr>]"
      "pos (infile c') = 512 * n + 512" "eofbit (infile c') = (512 < data_size)" "CWND c' = C" "SS_THRESH c' = T"
      "CWND_space c' = sp - 1" "timeout_check c' = (if timer_flag c = 0 then t' else t)"
      "\<exists>d. client_sent c' = client_sent c @ [d] \<and> carries (of_nat (Suc i)) (seq_at (512 * n)) (chunk (512 * n) data_size file) d \<and>
        data_datagram file (of_nat (Suc i)) d"
    using send_data_effect [OF c(1,2), where now = t'] unfolding c(3-8) len by metis
  have "sender i file (if timer_flag c = 0 then t' else t) (xs @ [(t', n)]) (Suc n) C T (sp - 1) (insert n S) c'"
    using assms c' by (auto simp: sender_def entry_def)
  with c'(1) show ?thesis by (rule that)
qed

lemma acked_entries:
  assumes "x \<in> set xs" and "Suc (snd x) = m" and "\<forall>x \<in> set xs. 512 * snd x + 512 \<le> length file" and "length file \<le> 90054"
  shows "\<exists>l \<in> set (map entry xs). E_ACK l = seq_at (512 * m)"
    and "acked (seq_at (512 * m)) (map entry xs) = map entry (tl (dropWhile (\<lambda>x. Suc (snd x) \<noteq> m) xs))"
proof -
  have m: "512 * m \<le> 90054" using assms(1-4) by force
  have eq: "E_ACK (entry y) = seq_at (512 * m) \<longleftrightarrow> Suc (snd y) = m" if "y \<in> set xs" for y
  proof -
    have "512 * snd y + 512 \<le> 90054" using assms(3,4) that by force
    then show ?thesis using m by (subst entry_def, simp only: logger.simps, subst seq_at_inject) auto
  qed
  then show found: "\<exists>l \<in> set (map entry xs). E_ACK l = seq_at (512 * m)" using assms(1,2) by auto
  have "dropWhile (\<lambda>l. E_ACK l \<noteq> seq_at (512 * m)) (map entry xs) = map entry (dropWhile (\<lambda>x. Suc (snd x) \<noteq> m) xs)"
    unfolding dropWhile_map by (rule arg_cong, rule dropWhile_cong) (simp_all add: eq)
  then show "acked (seq_at (512 * m)) (map entry xs) = map entry (tl (dropWhile (\<lambda>x. Suc (snd x) \<noteq> m) xs))"
    using found by (simp add: acked_def map_tl)
qed

lemma sender_ack:
  assumes "sender i file t xs n C T sp S c" and "length d = packet_size" and "ack_of d = seq_at (512 * m)"
    and "x \<in> set xs" and "Suc (snd x) = m" and "C < T" and "length file \<le> 90054"
  obtains c' where "receive_ack (Some d) t' c = Next c'"
    and "sender i file t' (tl (dropWhile (\<lambda>x. Suc (snd x) \<noteq> m) xs)) n (C + 512) T (sp + 2) S c'"
proof -
  note c = sender_inv [OF assms(1)]
  have b: "\<forall>x \<in> set xs. 512 * snd x + 512 \<le> length file" "CWND c = C" "SS_THRESH c = T" "CWND_space c = sp"
    using assms(1) by (simp_all add: sender_def)
  note a = acked_entries [OF assms(4,5) b(1) assms(7)]
  obtain c' where c': "receive_ack (Some d) t' c = Next c'" "CWND_logs c' = acked (ack_of d) (CWND_logs c)"
      "infile c' = infile c" "timeout_check c' = t'" "client_sent c' = client_sent c" "SS_THRESH c' = SS_THRESH c"
      "CWND c' = CWND c + 512 \<and> CWND_space c' = CWND_space c + 2"
    by (rule receive_ack_found [OF assms(2) c(2), of t']) (use a(1) c(3) assms(3,6) b in auto)
  have "set (tl (dropWhile P xs)) \<subseteq> set xs" for P
    by (meson set_mono_suffix suffix_dropWhile suffix_order.order_trans suffix_tl)
  then have "sender i file t' (tl (dropWhile (\<lambda>x. Suc (snd x) \<noteq> m) xs)) n (C + 512) T (sp + 2) S c'"
    using assms(1,3) c' a(2) receive_ack_effect(1) [OF c(1) c'(1)] b by (auto simp: sender_def)
  with c'(1) show ?thesis by (rule that)
qed

text \<open>States that are reached, with these numbers, and the steps between them.\<close>

definition run_at ::
  "(string \<Rightarrow> bool) \<Rightarrow> string \<Rightarrow> nat \<Rightarrow> sockaddr \<Rightarrow> buffer \<Rightarrow> sending \<times> server \<Rightarrow> time_point \<Rightarrow> nat list \<Rightarrow> nat \<Rightarrow>
   u32 \<Rightarrow> u32 \<Rightarrow> u32 \<Rightarrow> nat \<Rightarrow> nat \<Rightarrow> bool" where
  "run_at can_open file_dir i A file start t ps n C T sp h m \<longleftrightarrow>
     (\<exists>c s. reaches can_open file_dir i A (fst start) (snd start) c s \<and>
       sender i file t (map (Pair t) ps) n C T sp {..<h} c \<and> receiver file_dir i A file m s)"

lemma insert_upto: "n \<le> h \<Longrightarrow> insert n {..<h} = {..<max h (Suc n)}"
  by auto

lemma receiver_reply:
  assumes "receiver file_dir i A file m s" and "m > 0"
  obtains d where "reply_from A s (Some d)" and "length d = packet_size" and "ack_of d = seq_at (512 * m)"
proof -
  from assms obtain d l where "(d, A, l) \<in> set (server_sent s)" "ack_of d = seq_at (512 * m)" "replies_ok (512 * m) A s"
    by (auto simp: receiver_def server_side_def)
  then show ?thesis using that [of d] replies_okD by (auto simp: reply_from_def)
qed

lemma on_time:
  assumes "sender i file t (map (Pair t) ps) n C T sp S c"
  shows "check_timeout t c = c"
  using sender_inv(3) [OF assms] by (cases ps) (simp_all add: check_timeout_def entry_def)

lemma pass_end:
  assumes "sender i file t xs n C T sp S c"
  shows "(if ifstream_tellg (infile c) = - 1 \<and> CWND_logs c = [] then Stop c else Next c) = Next c"
  using assms by (auto simp: sender_def sending_inv_def Let_def ifstream_tellg_def)

lemma run_send:
  assumes "run_at can_open file_dir i A file start t ps n C T sp h m" and "0 < sp" and "512 * n + 512 \<le> length file"
  and "n \<le> h"
    and "ps' = ps @ [n]" and "n' = Suc n" and "sp' = sp - 1" and "h' = max h (Suc n)"
  shows "run_at can_open file_dir i A file start t ps' n' C T sp' h' m"
proof -
  obtain c s where c: "reaches can_open file_dir i A (fst start) (snd start) c s"
      "sender i file t (map (Pair t) ps) n C T sp {..<h} c" "receiver file_dir i A file m s" using assms(1) by (auto simp: run_at_def)
  obtain c' where c': "send_data t c = Next c'" "sender i file t (map (Pair t) (ps @ [n])) (Suc n) C T (sp - 1) {..<max h (Suc n)} c'"
    using sender_send [OF c(2) assms(3), where t' = t] insert_upto [OF assms(4)] by (auto split: if_splits)
  have "receive_ack None t c' = Next c'" using c'(2) by (simp add: receive_ack_def sender_def)
  then have "transfer_pass (\<lambda>_. t) None c = Next c'"
    using c(2) c'(1) assms(2) pass_end [OF c'(2)] by (simp add: transfer_pass_def on_time [OF c(2)] Let_def sender_def)
  from reaches.pass [OF c(1) _ this] c(3) c'(2) show ?thesis by (auto simp: run_at_def assms(5-8) reply_from_def)
qed

lemma run_send_ack:
  assumes "run_at can_open file_dir i A file start t ps n C T sp h m" and "0 < sp" and "512 * n + 512 \<le> length file"
    and "p \<in> set (ps @ [n])" and "m = Suc p" and "C < T" and "length file \<le> 90054" and "n \<le> h"
    and "ps' = tl (dropWhile (\<lambda>p. Suc p \<noteq> m) (ps @ [n]))" and "n' = Suc n" and "C' = C + 512" and "sp' = sp - 1 + 2"
    and "h' = max h (Suc n)"
  shows "run_at can_open file_dir i A file start t ps' n' C' T sp' h' m"
proof -
  obtain c s where c: "reaches can_open file_dir i A (fst start) (snd start) c s"
      "sender i file t (map (Pair t) ps) n C T sp {..<h} c" "receiver file_dir i A file m s" using assms(1) by (auto simp: run_at_def)
  obtain c' where c': "send_data t c = Next c'" "sender i file t (map (Pair t) (ps @ [n])) (Suc n) C T (sp - 1) {..<max h (Suc n)} c'"
    using sender_send [OF c(2) assms(3), where t' = t] insert_upto [OF assms(8)] by (auto split: if_splits)
  obtain d where d: "reply_from A s (Some d)" "length d = packet_size" "ack_of d = seq_at (512 * m)"
    using receiver_reply [OF c(3)] assms(5) by blast
  obtain c2 where c2: "receive_ack (Some d) t c' = Next c2"
      "sender i file t (tl (dropWhile (\<lambda>x. Suc (snd x) \<noteq> m) (map (Pair t) (ps @ [n])))) (Suc n) (C + 512) T
        (sp - 1 + 2) {..<max h (Suc n)} c2"
    by (rule sender_ack [OF c'(2) d(2,3) _ _ assms(6,7), of "(t, p)" t]) (use assms(4,5) in auto)
  have "tl (dropWhile (\<lambda>x. Suc (snd x) \<noteq> m) (map (Pair t) (ps @ [n]))) =
      map (Pair t) (tl (dropWhile (\<lambda>p. Suc p \<noteq> m) (ps @ [n])))"
    unfolding dropWhile_map map_tl by (simp add: o_def)
  note c3 = c2(2) [unfolded this]
  have "transfer_pass (\<lambda>_. t) (Some d) c = Next c2"
    using c(2) c'(1) c2(1) assms(2) pass_end [OF c3] by (simp add: transfer_pass_def on_time [OF c(2)] Let_def sender_def)
  from reaches.pass [OF c(1) d(1) this] c(3) c3 show ?thesis by (auto simp: run_at_def assms(9-13))
qed

lemma run_deliver:
  assumes "run_at can_open file_dir i A file start t ps n C T sp h m" and "m < h" and "512 * m + 512 \<le> length file"
    and "length file \<le> 90054"
    and "m' = Suc m"
  shows "run_at can_open file_dir i A file start t ps n C T sp h m'"
proof -
  obtain c s where c: "reaches can_open file_dir i A (fst start) (snd start) c s"
      "sender i file t (map (Pair t) ps) n C T sp {..<h} c" "receiver file_dir i A file m s" using assms(1) by (auto simp: run_at_def)
  let ?b = "chunk (512 * m) data_size file"
  obtain d where d: "d \<in> set (client_sent c)" "carries (of_nat (Suc i)) (seq_at (512 * m)) ?b d"
    using c(2) assms(2) by (auto simp: sender_def)
  have s: "server_side file_dir i A file (512 * m) s" using c(3) by (simp add: receiver_def)
  have seg: "segment_of file (seq_at (512 * m)) ?b"
    unfolding segment_of_def using assms(3) by (intro exI [of _ "512 * m"]) (simp add: chunk_def take_is_prefix)
  have "length file \<le> 102400" using assms(4) by simp
  note data = server_side_data [OF s d(2) seg server_side_family [OF s] this, where can_open = can_open]
  have "length ?b = 512" using assms(3) by simp
  with data(1,2) have "receiver file_dir i A file (Suc m) (serve_one can_open file_dir (Datagram d A 16) s)"
    by (simp add: receiver_def add.commute)
  with reaches.deliver [OF c(1) d(1)] c(2) show ?thesis by (auto simp: run_at_def assms(5))
qed

text \<open>The oldest packet is late and sent again; its acknowledgement comes in the same pass.\<close>

lemma run_timeout_ack:
  assumes "run_at can_open file_dir i A file start t (p # ps) n C T sp h m" and "500 < duration_millis (t' - t)"
    and "m = Suc p" and "p \<notin> set ps" and "512 < C div 2" and "length file \<le> 90054" and "p < h"
    and "T' = C div 2"
  shows "run_at can_open file_dir i A file start t' [] m 1024 T' 2 h m"
proof -
  obtain c s where c: "reaches can_open file_dir i A (fst start) (snd start) c s"
      "sender i file t (map (Pair t) (p # ps)) n C T sp {..<h} c" "receiver file_dir i A file m s" using assms(1) by (auto simp: run_at_def)
  let ?c = "check_timeout t' c"
  have logs: "CWND_logs c = entry (t, p) # map entry (map (Pair t) ps)" using sender_inv(3) [OF c(2)] by simp
  have eq: "?c = c\<lparr>infile := (infile c)\<lparr>pos := 512 * p, eofbit := False, failbit := False\<rparr>,
      last_seq := seq_num c, seq_num := seq_at (512 * p), CWND_logs := map entry (map (Pair t) ps),
      SS_THRESH := CWND c div 2, CWND := 512, CWND_space := 1\<rparr>"
    using assms(2) by (simp add: check_timeout_def logs entry_def ifstream_rewind)
  have p: "512 * p + 512 \<le> length file" using c(2) by (simp add: sender_def)
  have "sender i file t (map (Pair t) ps) p 512 (C div 2) 1 {..<h} ?c"
    using c(2) check_timeout_inv [OF sender_inv(1) [OF c(2)], of t'] by (simp add: sender_def eq)
  from sender_send [OF this p, where t' = t'] obtain c1 t1 where c1: "send_data t' ?c = Next c1"
      "sender i file t1 (map (Pair t) ps @ [(t', p)]) (Suc p) 512 (C div 2) (1 - 1) {..<h} c1" using assms(7) by (metis insert_absorb lessThan_iff)
  obtain d where d: "reply_from A s (Some d)" "length d = packet_size" "ack_of d = seq_at (512 * m)"
    using receiver_reply [OF c(3)] assms(3) by blast
  obtain c2 where c2: "receive_ack (Some d) t' c1 = Next c2"
      "sender i file t' (tl (dropWhile (\<lambda>x. Suc (snd x) \<noteq> m) (map (Pair t) ps @ [(t', p)]))) (Suc p) (512 + 512) (C div 2)
        (1 - 1 + 2) {..<h} c2"
    by (rule sender_ack [OF c1(2) d(2,3) _ _ assms(5,6), of "(t', p)" t']) (use assms(3) in auto)
  have "tl (dropWhile (\<lambda>x. Suc (snd x) \<noteq> m) (map (Pair t) ps @ [(t', p)])) = []"
    using assms(3,4) by (subst dropWhile_append2) auto
  note c3 = c2(2) [unfolded this]
  have "transfer_pass (\<lambda>_. t') (Some d) c = Next c2"
    using c1(1) c2(1) pass_end [OF c3] by (simp add: transfer_pass_def Let_def) (simp add: eq)
  from reaches.pass [OF c(1) d(1) this] c(3) c3 show ?thesis by (auto simp: run_at_def assms(3,8))
qed

text \<open>
  Six packets are sent and the third is late although it and the others arrived. After it has been
  sent again, its acknowledgement empties the log; the next two packets fill the window, and
  the server already has them and the one after.
\<close>

lemma livelock_reached:
  assumes "established file_dir i A file c\<^sub>0 s\<^sub>0" and "CWND_logs c\<^sub>0 = []" and "CWND_space c\<^sub>0 = 2" and "CWND c\<^sub>0 = 1024"
    and "SS_THRESH c\<^sub>0 = 10000" and "timeout_check c\<^sub>0 = 0" and "infile c\<^sub>0 = ifstream_open file" and "3072 \<le> length file"
  obtains c s where "reaches can_open file_dir i A c\<^sub>0 s\<^sub>0 c s" and "stuck_client i file 3072 c"
    and "server_side file_dir i A file 3072 s"
proof -
  note len = assms(8)
  have le: "length file \<le> 90054" using assms(1) by (simp add: established_def)
  let ?run = "run_at can_open file_dir i A file (c\<^sub>0, s\<^sub>0)"
  have "?run 0 [] 0 1024 10000 2 0 0"
    unfolding run_at_def fst_conv snd_conv
    by (intro exI conjI, rule reaches.start)
      (use assms in \<open>simp_all add: sender_def receiver_def established_def client_side_def ifstream_open_def\<close>)
  then have "?run 0 [0] 1 1024 10000 1 1 0" by (rule run_send) (use len in simp_all)
  then have "?run 0 [0] 1 1024 10000 1 1 1" by (rule run_deliver) (use len le in simp_all)
  then have "?run 0 [1] 2 1536 10000 2 2 1" by (rule run_send_ack [where p = 0]) (use len le in simp_all)
  then have "?run 0 [1] 2 1536 10000 2 2 2" by (rule run_deliver) (use len le in simp_all)
  then have "?run 0 [2] 3 2048 10000 3 3 2" by (rule run_send_ack [where p = 1]) (use len le in simp_all)
  then have "?run 0 [2, 3] 4 2048 10000 2 4 2" by (rule run_send) (use len in simp_all)
  then have "?run 0 [2, 3, 4] 5 2048 10000 1 5 2" by (rule run_send) (use len in simp_all)
  then have "?run 0 [2, 3, 4, 5] 6 2048 10000 0 6 2" by (rule run_send) (use len in simp_all)
  then have "?run 0 [2, 3, 4, 5] 6 2048 10000 0 6 3" by (rule run_deliver) (use len le in simp_all)
  then have "?run 501000000 [] 3 1024 1024 2 6 3"
    by (rule run_timeout_ack) (use le in \<open>simp_all add: duration_millis_def\<close>)
  then have "?run 501000000 [3] 4 1024 1024 1 6 3" by (rule run_send) (use len in simp_all)
  then have "?run 501000000 [3, 4] 5 1024 1024 0 6 3" by (rule run_send) (use len in simp_all)
  then have "?run 501000000 [3, 4] 5 1024 1024 0 6 4" by (rule run_deliver) (use len le in simp_all)
  then have "?run 501000000 [3, 4] 5 1024 1024 0 6 5" by (rule run_deliver) (use len le in simp_all)
  then have "?run 501000000 [3, 4] 5 1024 1024 0 6 6" by (rule run_deliver) (use len le in simp_all)
  then obtain c s where "reaches can_open file_dir i A c\<^sub>0 s\<^sub>0 c s"
      "sender i file 501000000 (map (Pair 501000000) [3, 4]) 5 1024 1024 0 {..<6} c" "receiver file_dir i A file 6 s"
    unfolding run_at_def fst_conv snd_conv by blast
  then show ?thesis
    using that [of c s] by (simp add: sender_def receiver_def stuck_client_def stale_def entry_def)
qed

end
