(* ===== verification/ConfundoRecovery.thy ===== *)
theory ConfundoRecovery
  imports ConfundoSession ConfundoWindow
begin

text \<open>
  From which states a transfer can still be finished. As long as no packet has been late, the log
  lists the pieces of the file on their way without a gap (\<open>gapless\<close>), and a client with an empty log
  can send. If the acknowledgements of everything the server has stored came through, then the oldest
  packet of the log is the one the server waits for, and going back to it is enough: whatever
  else was on its way may be lost. (Of lost acknowledgements this is not true: \<open>upload_livelock\<close>.)
\<close>

section \<open>Runs without a timeout\<close>

inductive punctual ::
  "(string \<Rightarrow> bool) \<Rightarrow> string \<Rightarrow> nat \<Rightarrow> sockaddr \<Rightarrow> sending \<Rightarrow> server \<Rightarrow> sending \<Rightarrow> server \<Rightarrow> bool"
  for can_open file_dir i A c\<^sub>0 s\<^sub>0 where
  start: "punctual can_open file_dir i A c\<^sub>0 s\<^sub>0 c\<^sub>0 s\<^sub>0"
| pass: "punctual can_open file_dir i A c\<^sub>0 s\<^sub>0 c s \<Longrightarrow> reply_from A s reply \<Longrightarrow> in_time (clk 0) c \<Longrightarrow>
    transfer_pass clk reply c = Next c' \<Longrightarrow> punctual can_open file_dir i A c\<^sub>0 s\<^sub>0 c' s"
| deliver: "punctual can_open file_dir i A c\<^sub>0 s\<^sub>0 c s \<Longrightarrow> d \<in> set (client_sent c) \<Longrightarrow>
    punctual can_open file_dir i A c\<^sub>0 s\<^sub>0 c (serve_one can_open file_dir (Datagram d A 16) s)"
| other: "punctual can_open file_dir i A c\<^sub>0 s\<^sub>0 c s \<Longrightarrow> foreign i A s ev \<Longrightarrow>
    punctual can_open file_dir i A c\<^sub>0 s\<^sub>0 c (serve_one can_open file_dir ev s)"

lemma punctual_reaches:
  "punctual can_open file_dir i A c\<^sub>0 s\<^sub>0 c s \<Longrightarrow> reaches can_open file_dir i A c\<^sub>0 s\<^sub>0 c s"
  by (induction rule: punctual.induct) (auto intro: reaches.intros)

section \<open>A log without gaps\<close>

text \<open>The pieces from \<open>p\<close> to the place the file is read at; a short one is the last.\<close>

fun gapless :: "buffer \<Rightarrow> ifstream \<Rightarrow> nat \<Rightarrow> logger list \<Rightarrow> bool" where
  "gapless file f p [] \<longleftrightarrow> pos f = p \<and> \<not> eofbit f"
| "gapless file f p (l # ls) \<longleftrightarrow>
     file_pos l = p \<and> p \<le> length file \<and> E_ACK l = seq_at (p + length (chunk p data_size file)) \<and>
     (if p + data_size \<le> length file then gapless file f (p + data_size) ls
      else ls = [] \<and> eofbit f \<and> pos f = length file)"

definition unacked :: "sending \<Rightarrow> nat" where
  "unacked c = (case CWND_logs c of [] \<Rightarrow> pos (infile c) | l # _ \<Rightarrow> file_pos l)"

lemma length_piece: "p \<le> length file \<Longrightarrow>
  p + length (chunk p data_size file) = (if p + data_size \<le> length file then p + data_size else length file)"
  by (simp add: length_chunk)

lemma gapless_send:
  assumes "gapless file f p ls" and "\<not> eofbit f" and "pos f \<le> length file"
    and "pos f' = pos f + length (chunk (pos f) data_size file)"
    and "eofbit f' = (length (chunk (pos f) data_size file) < data_size)"
    and "file_pos l = pos f" and "E_ACK l = seq_at (pos f')"
  shows "gapless file f' p (ls @ [l])"
  using assms(1)
proof (induction ls arbitrary: p)
  case Nil
  then show ?case using assms(2-) length_piece [OF assms(3)] by (auto simp: length_chunk)
next
  case (Cons k ls)
  then show ?case using assms(2) by (auto split: if_splits)
qed

lemma acked_Cons: "acked a (l # ls) = (if E_ACK l = a then ls else if \<exists>k \<in> set ls. E_ACK k = a then acked a ls else l # ls)"
  by (simp add: acked_def)

lemma gapless_acked:
  assumes "gapless file f p ls" and "\<exists>l \<in> set ls. E_ACK l = a"
  shows "acked a ls = [] \<and> eofbit f \<or> (\<exists>q. gapless file f q (acked a ls))"
  using assms
proof (induction ls arbitrary: p)
  case (Cons l ls)
  show ?case
  proof (cases "E_ACK l = a")
    case True
    with Cons.prems(1) show ?thesis by (auto simp: acked_Cons split: if_splits)
  next
    case False
    with Cons.prems have "\<exists>l \<in> set ls. E_ACK l = a" "gapless file f (p + data_size) ls" by (auto split: if_splits)
    with Cons.IH False show ?thesis by (auto simp: acked_Cons)
  qed
qed simp

text \<open>An entry in the middle expects a place behind the first piece.\<close>

lemma gapless_later:
  assumes "gapless file f p ls" and "l \<in> set ls" and "length file \<le> 90054" and "m < p"
  shows "E_ACK l \<noteq> seq_at m"
  using assms
proof (induction ls arbitrary: p)
  case (Cons k ls)
  show ?case
  proof (cases "l = k")
    case True
    with Cons.prems have "E_ACK l = seq_at (p + length (chunk p data_size file))" "p \<le> length file" by auto
    moreover have "p + length (chunk p data_size file) \<le> length file" if "p \<le> length file"
      using length_piece [OF that] by simp
    ultimately show ?thesis
      using Cons.prems(3,4) seq_at_inject [of "p + length (chunk p data_size file)" m] by simp
  next
    case False
    with Cons.prems Cons.IH [of "p + data_size"] show ?thesis by (auto split: if_splits)
  qed
qed simp

lemma gapless_unacked: "gapless file (infile c) p (CWND_logs c) \<Longrightarrow> unacked c = p"
  by (auto simp: unacked_def split: list.split)

text \<open>The client without a timeout.\<close>

definition orderly :: "buffer \<Rightarrow> sending \<Rightarrow> bool" where
  "orderly file c \<longleftrightarrow> gapless file (infile c) (unacked c) (CWND_logs c) \<and>
     (CWND_logs c = [] \<longrightarrow> CWND_space c > 0) \<and> window_ok c \<and> flight_ok c"

lemma receive_ack_cases:
  assumes "receive_ack reply now c = Next c'"
  obtains (same) "CWND_logs c' = CWND_logs c" and "infile c' = infile c"
  | (match) a where "\<exists>l \<in> set (CWND_logs c). E_ACK l = a" and "CWND_logs c' = acked a (CWND_logs c)"
      and "infile c' = infile c" and "CWND_space c' \<in> {CWND_space c + 1, CWND_space c + 2}"
proof (cases "\<exists>x d. reply = Some (x # d)")
  case True
  then obtain x d where r: "reply = Some (x # d)" by blast
  define t where "t = c\<lparr>recv_packet := ntoh_reorder (recv_into (x # d) (recv_packet c)), timeout_check := now\<rparr>"
  define a where "a = ack (pack_header (recv_packet t))"
  have c': "c' = process_ack t" using assms r by (simp add: receive_ack_def t_def)
  have t: "CWND_logs t = CWND_logs c" "infile t = infile c" "CWND_space t = CWND_space c" by (simp_all add: t_def)
  show ?thesis
  proof (cases "\<exists>l \<in> set (CWND_logs c). E_ACK l = a")
    case True
    define u where "u = (put_line (CHR ''R'') (recv_packet t) t)\<lparr>CWND_logs := tl (dropWhile (\<lambda>l. E_ACK l \<noteq> a) (CWND_logs t))\<rparr>"
    have "process_ack t = grow_window u" using True t(1) by (simp add: process_ack_def Let_def a_def u_def)
    with grow_window_space(1) [of u] have "CWND_space c' \<in> {CWND_space c + 1, CWND_space c + 2}"
      by (simp add: c' u_def t(3))
    then show ?thesis using match [OF True] process_ack_fields(1,2) [of t] by (simp add: c' t a_def)
  next
    case False
    then show ?thesis using same process_ack_fields(1,2) [of t] by (simp add: c' t acked_def a_def)
  qed
next
  case False
  with assms have "c' = c" by (auto simp: receive_ack_def split: option.splits list.splits if_splits)
  then show ?thesis using same by simp
qed

lemma small_space: "unat (x :: u32) \<le> 1000 \<Longrightarrow> y \<in> {x + 1, x + 2} \<Longrightarrow> y > 0"
  by (auto simp: word_gt_0 unat_eq_0 [symmetric] unat_plus_small)

lemma flight_ok_space: "window_ok c \<Longrightarrow> flight_ok c \<Longrightarrow> unat (CWND_space c) \<le> 1000"
  unfolding window_ok_def flight_ok_def by linarith


lemma orderly_pass:
  assumes "transfer_pass clk reply c = Next c'" and "in_time (clk 0) c" and "sending_inv file n c" and "orderly file c"
  shows "orderly file c'"
proof -
  have c: "gapless file (infile c) (unacked c) (CWND_logs c)" "CWND_logs c = [] \<longrightarrow> CWND_space c > 0" "window_ok c" "flight_ok c"
    using assms(4) by (simp_all add: orderly_def)
  have w: "window_ok c'" "flight_ok c'"
    using transfer_pass_window [OF _ c(3), of clk reply c'] assms(1,2) c(4) by auto
  let ?send = "if CWND_space c > 0 \<and> \<not> eofbit (infile c) then send_data (clk 1) c else Next c"
  have "\<exists>c2. ?send = Next c2 \<and> sending_inv file n c2 \<and> gapless file (infile c2) (unacked c) (CWND_logs c2) \<and>
    CWND_logs c2 \<noteq> [] \<and> unat (CWND_space c2) \<le> 1000"
  proof (cases "CWND_space c > 0 \<and> \<not> eofbit (infile c)")
    case True
    then have open_c: "\<not> eofbit (infile c)" by simp
    have p: "pos (infile c) \<le> length file" using assms(3) by (simp add: sending_inv_def Let_def)
    obtain c2 where c2: "send_data (clk 1) c = Next c2" "sending_inv file n c2"
        "CWND_logs c2 = CWND_logs c @ [\<lparr>E_ACK = seq_at (pos (infile c) + length (chunk (pos (infile c)) data_size file)),
          log_seq = seq_at (pos (infile c)), send_time = clk 1, file_pos = pos (infile c)\<rparr>]"
        "pos (infile c2) = pos (infile c) + length (chunk (pos (infile c)) data_size file)"
        "eofbit (infile c2) = (length (chunk (pos (infile c)) data_size file) < data_size)" "CWND_space c2 = CWND_space c - 1"
      by (rule send_data_effect [OF assms(3) open_c, where now = "clk 1"]) blast
    have "gapless file (infile c2) (unacked c) (CWND_logs c2)"
      unfolding c2(3) by (rule gapless_send [OF c(1) open_c p c2(4,5)]) (simp_all add: c2(4))
    moreover have "unat (CWND_space c2) \<le> 1000"
      using True flight_ok_space [OF c(3,4)] by (simp add: c2(6) unat_minus_one word_neq_0_conv)
    ultimately show ?thesis using True c2(1-3) by simp
  next
    case False
    then have "CWND_logs c \<noteq> []" using c(1,2) by auto
    with False show ?thesis using c(1) assms(3) flight_ok_space [OF c(3,4)] by auto
  qed
  then obtain c2 where c2: "?send = Next c2" "sending_inv file n c2" "gapless file (infile c2) (unacked c) (CWND_logs c2)"
      "CWND_logs c2 \<noteq> []" "unat (CWND_space c2) \<le> 1000" by blast
  have eq: "transfer_pass clk reply c = then_do (receive_ack reply (clk 2) c2)
      (\<lambda>s. if ifstream_tellg (infile s) = - 1 \<and> CWND_logs s = [] then Stop s else Next s)"
    using c2(1) check_timeout_in_time [OF assms(2)] by (auto simp: transfer_pass_def Let_def split: if_splits)
  then have r: "receive_ack reply (clk 2) c2 = Next c'" "\<not> (ifstream_tellg (infile c') = - 1 \<and> CWND_logs c' = [])"
    using assms(1) receive_ack_not_Stop [of reply "clk 2" c2]
    by (cases "receive_ack reply (clk 2) c2"; auto split: if_splits)+
  from r(1) show ?thesis
  proof (cases rule: receive_ack_cases)
    case same
    then have "gapless file (infile c') (unacked c) (CWND_logs c')" using c2(3) by simp
    with gapless_unacked [OF this] show ?thesis using w same(1) c2(4) by (simp add: orderly_def)
  next
    case (match a)
    have "failbit (infile c') = eofbit (infile c')" using match(3) c2(2) by (simp add: sending_inv_def Let_def)
    then have "\<not> (CWND_logs c' = [] \<and> eofbit (infile c'))" using r(2) by (auto simp: ifstream_tellg_def)
    with gapless_acked [OF c2(3) match(1)] obtain q where q: "gapless file (infile c') q (CWND_logs c')"
      using match(2,3) by auto
    from small_space [OF c2(5) match(4)] gapless_unacked [OF q] q w show ?thesis by (simp add: orderly_def)
  qed
qed

lemma punctual_orderly:
  assumes "punctual can_open file_dir i A c\<^sub>0 s\<^sub>0 c s" and "established file_dir i A file c\<^sub>0 s\<^sub>0" and "orderly file c\<^sub>0"
  shows "orderly file c"
  using assms(1)
proof (induction rule: punctual.induct)
  case (pass c s reply clk c')
  obtain m where "client_side i file m c" by (rule reaches_inv [OF punctual_reaches [OF pass.hyps(1)] assms(2)])
  then have "sending_inv file (of_nat (Suc i)) c" by (simp add: client_side_def)
  from orderly_pass [OF pass.hyps(4,3) this pass.IH] show ?case .
qed (use assms(3) in auto)

lemma orderly_start:
  assumes "CWND_logs c = []" and "infile c = ifstream_open file" and "CWND_space c > 0" and "window_ok c" and "flight_ok c"
  shows "orderly file c"
  using assms by (simp add: orderly_def unacked_def ifstream_open_def)


section \<open>Going back\<close>

lemma check_timeout_back:
  assumes "CWND_logs c = l # rest" and "500 < duration_millis (T - send_time l)"
  shows "CWND_logs (check_timeout T c) = rest" and "CWND_space (check_timeout T c) = 1"
    and "pos (infile (check_timeout T c)) = file_pos l" and "\<not> eofbit (infile (check_timeout T c))"
    and "timeout_check (check_timeout T c) = timeout_check c"
  by (simp_all add: check_timeout_late [OF assms])

lemma pass_goes_back:
  assumes "CWND_logs c = l # rest" and "500 < duration_millis (T - send_time l)" and "send_data T (check_timeout T c) = Next c'"
  shows "transfer_pass (\<lambda>_. T) reply c = then_do (receive_ack reply T c')
    (\<lambda>s. if ifstream_tellg (infile s) = - 1 \<and> CWND_logs s = [] then Stop s else Next s)"
  using assms check_timeout_back [OF assms(1,2)] by (simp add: transfer_pass_def Let_def)

text \<open>The piece after the one that was sent again is in the log and has not been late, or is late
  as well and is sent again in the pass in which the acknowledgement comes.\<close>

definition replied :: "sockaddr \<Rightarrow> nat \<Rightarrow> server \<Rightarrow> bool" where
  "replied A m s \<longleftrightarrow> (\<exists>e l. (e, A, l) \<in> set (server_sent s) \<and> ack_of e = seq_at m)"

definition gone_back :: "time_point \<Rightarrow> string \<Rightarrow> nat \<Rightarrow> sockaddr \<Rightarrow> buffer \<Rightarrow> logger list \<Rightarrow> sending \<Rightarrow> server \<Rightarrow> bool" where
  "gone_back T file_dir i A file rest c s \<longleftrightarrow>
     (let m = pos (infile c) in
      client_side i file m c \<and> server_side file_dir i A file m s \<and> replied A m s \<and>
      duration_seconds (T - timeout_check c) < 10 \<and> CWND_space c = 0 \<and>
      (\<exists>l. CWND_logs c = rest @ [l] \<and> E_ACK l = seq_at m \<and> send_time l = T) \<and>
      (rest \<noteq> [] \<longrightarrow> \<not> eofbit (infile c) \<and> (\<exists>f. gapless file f m rest)))"

lemma goes_back:
  assumes "client_side i file m c" and "server_side file_dir i A file m s" and "orderly file c" and "unacked c = m"
    and "CWND_logs c = l # rest" and "500 < duration_millis (T - send_time l)" and "duration_seconds (T - timeout_check c) < 10"
    and "length file \<le> 90054" and "reaches can_open file_dir i A c\<^sub>0 s\<^sub>0 c s"
  obtains c' s' where "reaches can_open file_dir i A c\<^sub>0 s\<^sub>0 c' s'" and "gone_back T file_dir i A file rest c' s'"
proof -
  let ?t = "check_timeout T c"
  note late = check_timeout_back [OF assms(5,6)]
  have m: "file_pos l = m" using assms(4,5) by (simp add: unacked_def)
  have g: "gapless file (infile c) m (l # rest)" using assms(3-5) by (simp add: orderly_def)
  have t: "client_side i file m ?t" by (rule client_side_check_timeout [OF assms(1)])
  have pos_t: "m = pos (infile ?t)" using late(3) m by simp
  obtain c1 d where c1: "send_data T ?t = Next c1" "client_side i file m c1" "timeout_check c1 \<in> {T, timeout_check ?t}"
      "CWND_logs c1 = CWND_logs ?t @ [\<lparr>E_ACK = seq_at (pos (infile c1)), log_seq = seq_at m, send_time = T, file_pos = m\<rparr>]"
      "CWND_space c1 = CWND_space ?t - 1" "d \<in> set (client_sent c1)"
      "server_side file_dir i A file (pos (infile c1)) (serve_one can_open file_dir (Datagram d A 16) s)"
      "\<exists>e l. (e, A, l) \<in> set (server_sent (serve_one can_open file_dir (Datagram d A 16) s)) \<and> ack_of e = seq_at (pos (infile c1))"
    by (rule send_and_deliver [OF t assms(2) pos_t late(4) assms(8), where T = T and can_open = can_open]) blast
  have inv: "sending_inv file (of_nat (Suc i)) ?t" using t by (simp add: client_side_def)
  have pos1: "pos (infile c1) = m + length (chunk m data_size file)" "eofbit (infile c1) = (length (chunk m data_size file) < data_size)"
    using send_data_effect [OF inv late(4), where now = T] c1(1) unfolding pos_t by (metis progress.inject(1))+
  have dur: "duration_seconds (T - timeout_check c1) < 10" using c1(3) late(5) assms(7) by auto
  have "receive_ack None T c1 = Next c1" using dur by (simp add: receive_ack_def)
  then have p: "transfer_pass (\<lambda>_. T) None c = Next c1"
    using pass_goes_back [OF assms(5,6) c1(1), of None] c1(4) by simp
  from reaches.deliver [OF reaches.pass [OF assms(9) _ p] c1(6)]
  have "reaches can_open file_dir i A c\<^sub>0 s\<^sub>0 c1 (serve_one can_open file_dir (Datagram d A 16) s)"
    by (simp add: reply_from_def)
  moreover have "client_side i file (pos (infile c1)) c1" using client_side_later [OF c1(2)] c1(4) by simp
  moreover have "rest \<noteq> [] \<longrightarrow> \<not> eofbit (infile c1) \<and> (\<exists>f. gapless file f (pos (infile c1)) rest)"
    using g pos1 by (auto simp: length_chunk split: if_splits)
  ultimately show ?thesis
    using that c1(4,5,7,8) late(1,2) dur unfolding gone_back_def Let_def replied_def by simp
qed


lemma acked_skip: "\<forall>l \<in> set ls. E_ACK l \<noteq> a \<Longrightarrow> E_ACK l = a \<Longrightarrow> acked a (ls @ l # ks) = ks"
  by (induction ls) (auto simp: acked_Cons)

text \<open>The second piece is not late: the acknowledgement finishes all that is in the log, up to an
  empty last piece that expects the same.\<close>

lemma gone_back_acked:
  assumes "reaches can_open file_dir i A c\<^sub>0 s\<^sub>0 c s" and "gone_back T file_dir i A file (r # rs) c s"
    and "length file \<le> 90054" and "duration_millis (T - send_time r) \<le> 500"
  shows "\<exists>c'. reaches can_open file_dir i A c\<^sub>0 s\<^sub>0 c' s \<and> (ready T file_dir i A file c' s \<or> flying T file_dir i A file c' s)"
proof -
  let ?m = "pos (infile c)"
  obtain f l where c: "client_side i file ?m c" "server_side file_dir i A file ?m s" "replied A ?m s"
      "duration_seconds (T - timeout_check c) < 10" "CWND_space c = 0" "CWND_logs c = r # rs @ [l]" "E_ACK l = seq_at ?m"
      "send_time l = T" "\<not> eofbit (infile c)" "gapless file f ?m (r # rs)"
    using assms(2) by (auto simp: gone_back_def Let_def)
  obtain e al where e: "(e, A, al) \<in> set (server_sent s)" "ack_of e = seq_at ?m" using c(3) by (auto simp: replied_def)
  have m: "?m \<le> length file" and rep: "replies_ok ?m A s" using c(2) by (simp_all add: server_side_def)
  have len: "length e = packet_size" using replies_okD [OF rep e(1)] by simp
  have src: "reply_from A s (Some e)" using e(1) by (auto simp: reply_from_def)
  have wf: "packet_wf (recv_packet c)" and bits: "failbit (infile c) = eofbit (infile c)"
    using c(1) by (simp_all add: client_side_def sending_inv_def Let_def)
  obtain c' where c': "receive_ack (Some e) T c = Next c'" "CWND_logs c' = acked (ack_of e) (CWND_logs c)"
      "infile c' = infile c" "timeout_check c' = T" "CWND_space c' \<in> {CWND_space c + 1, CWND_space c + 2}"
    by (rule receive_ack_found [OF len wf, of T]) (use c(6,7) e(2) in auto)
  have "check_timeout T c = c" using assms(4) by (simp add: check_timeout_def c(6))
  then have "transfer_pass (\<lambda>_. T) (Some e) c = Next c'"
    using c' bits c(5,9) by (simp add: transfer_pass_def ifstream_tellg_def)
  note p = this client_side_pass(1) [OF c(1) src rep m assms(3) this]
  have space: "CWND_space c' > 0" using c'(5) c(5) by auto
  have "ready T file_dir i A file c' s \<or> flying T file_dir i A file c' s"
  proof (cases "E_ACK r = seq_at ?m")
    case True
    then have "?m + length (chunk ?m data_size file) = ?m"
      using c(10) m assms(3) length_piece [OF m] seq_at_inject [of "?m + length (chunk ?m data_size file)" ?m]
      by (auto split: if_splits)
    then have "rs = []" using c(10) by (auto simp: length_chunk split: if_splits)
    then have "CWND_logs c' = [l]" using c'(2) c(6) True e(2) by (simp add: acked_Cons)
    then have "flying T file_dir i A file c' s"
      using p(2) c(2,7,8) c'(3,4) e by (auto simp: flying_def calm_def)
    then show ?thesis by simp
  next
    case False
    have "\<forall>k \<in> set rs. E_ACK k \<noteq> seq_at ?m"
      using c(10) gapless_later [of "file" f "?m + data_size" rs _ ?m] assms(3) by (auto split: if_splits)
    with False have "acked (seq_at ?m) ((r # rs) @ [l]) = []" by (intro acked_skip) (simp_all add: c(7))
    then have "CWND_logs c' = []" using c'(2) c(6) e(2) by simp
    then have "ready T file_dir i A file c' s"
      using p(2) c(2,9) c'(3,4) space by (simp add: ready_def calm_def)
    then show ?thesis by simp
  qed
  with reaches.pass [OF assms(1) src p(1)] show ?thesis by blast
qed

text \<open>The second piece is late.\<close>

lemma gone_back_again:
  assumes "reaches can_open file_dir i A c\<^sub>0 s\<^sub>0 c s" and "gone_back T file_dir i A file (r # rs) c s"
    and "length file \<le> 90054" and "500 < duration_millis (T - send_time r)"
  shows "\<exists>c' s'. reaches can_open file_dir i A c\<^sub>0 s\<^sub>0 c' s' \<and> flying T file_dir i A file c' s'"
proof -
  let ?m = "pos (infile c)" and ?t = "check_timeout T c"
  obtain f l where c: "client_side i file ?m c" "server_side file_dir i A file ?m s" "replied A ?m s"
      "CWND_logs c = r # rs @ [l]" "E_ACK l = seq_at ?m" "gapless file f ?m (r # rs)"
    using assms(2) by (auto simp: gone_back_def Let_def)
  obtain e al where e: "(e, A, al) \<in> set (server_sent s)" "ack_of e = seq_at ?m" using c(3) by (auto simp: replied_def)
  have m: "?m \<le> length file" and rep: "replies_ok ?m A s" using c(2) by (simp_all add: server_side_def)
  have len: "length e = packet_size" using replies_okD [OF rep e(1)] by simp
  have src: "reply_from A s (Some e)" using e(1) by (auto simp: reply_from_def)
  note late = check_timeout_back [OF c(4) assms(4)]
  have t: "client_side i file ?m ?t" by (rule client_side_check_timeout [OF c(1)])
  have pos_t: "?m = pos (infile ?t)" using late(3) c(6) by simp
  obtain c1 d where c1: "send_data T ?t = Next c1" "client_side i file ?m c1"
      "CWND_logs c1 = CWND_logs ?t @ [\<lparr>E_ACK = seq_at (pos (infile c1)), log_seq = seq_at ?m, send_time = T, file_pos = ?m\<rparr>]"
      "d \<in> set (client_sent c1)"
      "server_side file_dir i A file (pos (infile c1)) (serve_one can_open file_dir (Datagram d A 16) s)"
      "\<exists>e l. (e, A, l) \<in> set (server_sent (serve_one can_open file_dir (Datagram d A 16) s)) \<and> ack_of e = seq_at (pos (infile c1))"
    by (rule send_and_deliver [OF t c(2) pos_t late(4) assms(3), where T = T and can_open = can_open]) blast
  define k where "k = \<lparr>E_ACK = seq_at (pos (infile c1)), log_seq = seq_at ?m, send_time = T, file_pos = ?m\<rparr>"
  have logs1: "CWND_logs c1 = rs @ l # [k]" using c1(3) late(1) by (simp add: k_def)
  have wf: "packet_wf (recv_packet c1)" using c1(2) by (simp add: client_side_def sending_inv_def Let_def)
  obtain c2 where c2: "receive_ack (Some e) T c1 = Next c2" "CWND_logs c2 = acked (ack_of e) (CWND_logs c1)"
      "infile c2 = infile c1" "timeout_check c2 = T" "client_sent c2 = client_sent c1"
    by (rule receive_ack_found [OF len wf, of T]) (use logs1 c(5) e(2) in auto)
  have "\<forall>k \<in> set rs. E_ACK k \<noteq> seq_at ?m"
    using c(6) gapless_later [of "file" f "?m + data_size" rs _ ?m] assms(3) by (auto split: if_splits)
  then have logs2: "CWND_logs c2 = [k]" using c2(2) acked_skip [OF _ c(5)] by (simp add: logs1 e(2))
  then have p: "transfer_pass (\<lambda>_. T) (Some e) c = Next c2"
    using pass_goes_back [OF c(4) assms(4) c1(1), of "Some e"] c2(1) by simp
  have "d \<in> set (client_sent c2)" using c1(4) c2(5) by simp
  note r = reaches.deliver [OF reaches.pass [OF assms(1) src p] this]
  have "client_side i file (pos (infile c2)) c2"
    using client_side_later [OF client_side_pass(1) [OF c(1) src rep m assms(3) p]] logs2 by simp
  then have "flying T file_dir i A file c2 (serve_one can_open file_dir (Datagram d A 16) s)"
    using c1(5,6) logs2 c2(3,4) by (simp add: flying_def calm_def k_def)
  with r show ?thesis by blast
qed

lemma gone_back_finishes:
  assumes "reaches can_open file_dir i A c\<^sub>0 s\<^sub>0 c s" and "gone_back T file_dir i A file rest c s" and "length file \<le> 90054"
  shows "\<exists>c s reply c'. reaches can_open file_dir i A c\<^sub>0 s\<^sub>0 c s \<and> reply_from A s reply \<and>
    transfer_pass (\<lambda>_. T) reply c = Stop c'"
proof (cases rest)
  case Nil
  then have "flying T file_dir i A file c s"
    using assms(2) by (auto simp: gone_back_def flying_def calm_def replied_def Let_def)
  from flying_finishes [OF assms(1) this assms(3)] show ?thesis .
next
  case (Cons r rs)
  show ?thesis
  proof (cases "500 < duration_millis (T - send_time r)")
    case True
    from gone_back_again [OF assms(1) assms(2) [unfolded Cons] assms(3) True] flying_finishes assms(3) show ?thesis by blast
  next
    case False
    then have "duration_millis (T - send_time r) \<le> 500" by simp
    from gone_back_acked [OF assms(1) assms(2) [unfolded Cons] assms(3) this] obtain c' where
      c': "reaches can_open file_dir i A c\<^sub>0 s\<^sub>0 c' s" "ready T file_dir i A file c' s \<or> flying T file_dir i A file c' s"
      by blast
    from c'(2) show ?thesis
      by (elim disjE) (rule ready_finishes [OF c'(1) _ assms(3)] flying_finishes [OF c'(1) _ assms(3)], assumption)+
  qed
qed

text \<open>From every orderly state whose server has just what the client was told of.\<close>

lemma orderly_recovers:
  assumes "client_side i file m c" and "server_side file_dir i A file m s" and "orderly file c" and "unacked c = m"
    and "CWND_logs c \<noteq> [] \<Longrightarrow> \<not> in_time T c" and "duration_seconds (T - timeout_check c) < 10" and "length file \<le> 90054"
  shows "\<exists>c' s' reply c''. reaches can_open file_dir i A c s c' s' \<and> reply_from A s' reply \<and>
    transfer_pass (\<lambda>_. T) reply c' = Stop c''"
proof (cases "CWND_logs c")
  case Nil
  then have "ready T file_dir i A file c s"
    using assms by (simp add: ready_def calm_def orderly_def unacked_def)
  from ready_finishes [OF reaches.start this assms(7)] show ?thesis .
next
  case (Cons l rest)
  then have late: "500 < duration_millis (T - send_time l)" using assms(5) by (auto simp: in_time_def)
  obtain c' s' where "reaches can_open file_dir i A c s c' s'" "gone_back T file_dir i A file rest c' s'"
    by (rule goes_back [OF assms(1-4) Cons late assms(6,7) reaches.start])
  from gone_back_finishes [OF this assms(7)] show ?thesis .
qed

text \<open>What is on its way may be lost.\<close>

lemma client_side_lost: "client_side i file m c \<Longrightarrow> client_side i file m (c\<lparr>client_sent := []\<rparr>)"
  by (simp add: client_side_def sending_inv_def Let_def)

lemma server_side_lost: "server_side file_dir i A file m s \<Longrightarrow> server_side file_dir i A file m (s\<lparr>server_sent := []\<rparr>)"
  by (simp add: server_side_def conn_valid_def server_inv_def conn_closed_def stored_file_def expected_seq_def replies_in_def)

lemma orderly_lost: "orderly file c \<Longrightarrow> orderly file (c\<lparr>client_sent := []\<rparr>) \<and> unacked (c\<lparr>client_sent := []\<rparr>) = unacked c"
  by (cases "CWND_logs c") (simp_all add: orderly_def unacked_def window_ok_def flight_ok_def)

end
