(* ===== verification/StdioFiles.thy ===== *)
theory StdioFiles
  imports Prelude
begin

text \<open>
  A C \<^verbatim>\<open>FILE\<close> open for writing: the bytes in it and the room left on its device, which may end a
  write early. The buffer of the stream is not modelled: the file is looked at after \<^verbatim>\<open>fclose\<close>.
\<close>

record cfile =
  written :: buffer
  room :: nat

text \<open>\<^verbatim>\<open>fopen(path, "w")\<close> creates the file, or empties it.\<close>

definition fopen_w :: "nat \<Rightarrow> cfile" where
  "fopen_w n = \<lparr>written = [], room = n\<rparr>"

text \<open>\<^verbatim>\<open>fwrite(b, 1, n, fp)\<close>: the number of bytes written and the file.\<close>

definition fwrite :: "buffer \<Rightarrow> cfile \<Rightarrow> nat \<times> cfile" where
  "fwrite b fp =
     (let n = min (length b) (room fp)
      in (n, \<lparr>written = written fp @ take n b, room = room fp - n\<rparr>))"

lemma fwrite_all:
  "length b \<le> room fp \<Longrightarrow> fwrite b fp = (length b, \<lparr>written = written fp @ b, room = room fp - length b\<rparr>)"
  by (simp add: fwrite_def Let_def)

end
