(* ===== verification/PcapDump.thy ===== *)
theory PcapDump
  imports Protocol StdioFiles
begin

text \<open>
  \<^verbatim>\<open>core/dumper.cpp\<close> and \<^verbatim>\<open>core/dumper.hpp\<close>: capture files in the format of libpcap, as a little
  endian machine writes them. \<open>read_pcap\<close> reads that format back; it is the reference for the
  round trip: a dump holds the packets it was given, with the time of each cut to 32 bits.
\<close>

section \<open>Structures\<close>

record pcap_file_header =
  magic :: u32
  version_major :: u16
  version_minor :: u16
  thiszone :: u32
  sigfigs :: u32
  snaplen :: u32
  linktype :: u32

text \<open>\<^verbatim>\<open>struct timeval\<close> has 64-bit fields, the one in the file 32-bit ones.\<close>

record timeval =
  tv_sec :: "64 word"
  tv_usec :: "64 word"

record pcap_pkthdr =
  pkt_ts :: timeval
  pkt_caplen :: u32
  pkt_len :: u32

record pcap_timeval =
  file_tv_sec :: u32
  file_tv_usec :: u32

record pcap_sf_pkthdr =
  sf_ts :: pcap_timeval
  sf_caplen :: u32
  sf_len :: u32

definition pcap_file_header_bytes :: "pcap_file_header \<Rightarrow> buffer" where
  "pcap_file_header_bytes h =
     u32_bytes (magic h) @ u16_bytes (version_major h) @ u16_bytes (version_minor h) @ u32_bytes (thiszone h) @
     u32_bytes (sigfigs h) @ u32_bytes (snaplen h) @ u32_bytes (linktype h)"

definition pcap_sf_pkthdr_bytes :: "pcap_sf_pkthdr \<Rightarrow> buffer" where
  "pcap_sf_pkthdr_bytes h =
     u32_bytes (file_tv_sec (sf_ts h)) @ u32_bytes (file_tv_usec (sf_ts h)) @ u32_bytes (sf_caplen h) @ u32_bytes (sf_len h)"

section \<open>Writing\<close>

text \<open>The flag says whether the error message is printed.\<close>

definition sf_write_header :: "cfile \<Rightarrow> u32 \<Rightarrow> u32 \<Rightarrow> u32 \<Rightarrow> bool \<times> cfile" where
  "sf_write_header fp link zone snap =
     (let hdr = \<lparr>magic = 0xa1b2c3d4, version_major = 2, version_minor = 4, thiszone = zone, sigfigs = 0,
        snaplen = snap, linktype = link\<rparr>;
          b = pcap_file_header_bytes hdr;
          (n, fp) = fwrite b fp
      in (n \<noteq> length b, fp))"

text \<open>The name "-" stands for the standard output, \<open>out\<close>; \<open>file\<close> is what \<^verbatim>\<open>fopen\<close> returns.\<close>

definition sr_dump_open :: "cfile \<Rightarrow> cfile option \<Rightarrow> string \<Rightarrow> u32 \<Rightarrow> u32 \<Rightarrow> cfile option" where
  "sr_dump_open out file fname zone snap =
     (case (if fname = ''-'' then Some out else file) of
        None \<Rightarrow> None
      | Some fp \<Rightarrow> Some (snd (sf_write_header fp 1 zone snap)))"

text \<open>\<open>None\<close>: the packet is shorter than its header says, and memory behind it is read.\<close>

definition sr_dump :: "cfile \<Rightarrow> pcap_pkthdr \<Rightarrow> buffer \<Rightarrow> cfile option" where
  "sr_dump fp h sp =
     (let sf_hdr = \<lparr>sf_ts = \<lparr>file_tv_sec = ucast (tv_sec (pkt_ts h)), file_tv_usec = ucast (tv_usec (pkt_ts h))\<rparr>,
        sf_caplen = pkt_caplen h, sf_len = pkt_len h\<rparr>;
          (_, fp) = fwrite (pcap_sf_pkthdr_bytes sf_hdr) fp
      in case mem_read 0 (unat (pkt_caplen h)) sp of
           None \<Rightarrow> None
         | Some b \<Rightarrow> Some (snd (fwrite b fp)))"

fun sr_dump_all :: "cfile \<Rightarrow> (pcap_pkthdr \<times> buffer) list \<Rightarrow> cfile option" where
  "sr_dump_all fp [] = Some fp"
| "sr_dump_all fp ((h, sp) # ps) = (case sr_dump fp h sp of None \<Rightarrow> None | Some fp \<Rightarrow> sr_dump_all fp ps)"

text \<open>\<^verbatim>\<open>fclose\<close> leaves the file with what was written.\<close>

definition sr_dump_close :: "cfile \<Rightarrow> buffer" where
  "sr_dump_close fp = written fp"

section \<open>Reading\<close>

function read_records :: "buffer \<Rightarrow> (pcap_sf_pkthdr \<times> buffer) list option" where
  "read_records b =
     (if b = [] then Some []
      else if length b < 16 then None
      else
        let n = unat (u32_at 8 b) in
        if length b < 16 + n then None
        else map_option (Cons (\<lparr>sf_ts = \<lparr>file_tv_sec = u32_at 0 b, file_tv_usec = u32_at 4 b\<rparr>,
            sf_caplen = u32_at 8 b, sf_len = u32_at 12 b\<rparr>, chunk 16 n b))
          (read_records (drop (16 + n) b)))"
  by pat_completeness auto

termination
  by (relation "measure length") (auto simp: Suc_le_eq)

declare read_records.simps [simp del]

definition read_pcap :: "buffer \<Rightarrow> (pcap_file_header \<times> (pcap_sf_pkthdr \<times> buffer) list) option" where
  "read_pcap b =
     (if length b < 24 \<or> u32_at 0 b \<noteq> 0xa1b2c3d4 then None
      else map_option (Pair \<lparr>magic = u32_at 0 b, version_major = u16_at 4 b, version_minor = u16_at 6 b,
          thiszone = u32_at 8 b, sigfigs = u32_at 12 b, snaplen = u32_at 16 b, linktype = u32_at 20 b\<rparr>)
        (read_records (drop 24 b)))"

section \<open>The round trip\<close>

lemma length_pcap_bytes [simp]:
  "length (pcap_sf_pkthdr_bytes h) = 16" "length (pcap_file_header_bytes f) = 24"
  by (simp_all add: pcap_sf_pkthdr_bytes_def pcap_file_header_bytes_def)

lemma pcap_sf_pkthdr_fields:
  "u32_at 0 (pcap_sf_pkthdr_bytes h @ x) = file_tv_sec (sf_ts h)"
  "u32_at 4 (pcap_sf_pkthdr_bytes h @ x) = file_tv_usec (sf_ts h)"
  "u32_at 8 (pcap_sf_pkthdr_bytes h @ x) = sf_caplen h" "u32_at 12 (pcap_sf_pkthdr_bytes h @ x) = sf_len h"
  by (simp_all add: pcap_sf_pkthdr_bytes_def u32_at_def u32_bytes_def le32_of_u32)

lemma pcap_file_header_fields:
  "u32_at 0 (pcap_file_header_bytes h @ x) = magic h" "u16_at 4 (pcap_file_header_bytes h @ x) = version_major h"
  "u16_at 6 (pcap_file_header_bytes h @ x) = version_minor h" "u32_at 8 (pcap_file_header_bytes h @ x) = thiszone h"
  "u32_at 12 (pcap_file_header_bytes h @ x) = sigfigs h" "u32_at 16 (pcap_file_header_bytes h @ x) = snaplen h"
  "u32_at 20 (pcap_file_header_bytes h @ x) = linktype h"
  by (simp_all add: pcap_file_header_bytes_def u32_at_def u16_at_def u32_bytes_def u16_bytes_def
      le32_of_u32 le16_of_u16)

lemma read_record:
  assumes "length d = unat (sf_caplen h)"
  shows "read_records (pcap_sf_pkthdr_bytes h @ d @ rest) = map_option (Cons (h, d)) (read_records rest)"
proof -
  have ne: "pcap_sf_pkthdr_bytes h \<noteq> []" by (simp add: pcap_sf_pkthdr_bytes_def u32_bytes_def)
  have h: "\<lparr>sf_ts = \<lparr>file_tv_sec = file_tv_sec (sf_ts h), file_tv_usec = file_tv_usec (sf_ts h)\<rparr>,
      sf_caplen = sf_caplen h, sf_len = sf_len h\<rparr> = h"
    by (cases h; cases "sf_ts h") simp
  show ?thesis
    using assms by (subst read_records.simps) (simp add: pcap_sf_pkthdr_fields chunk_def ne h)
qed

text \<open>What the file says of a packet.\<close>

definition stored_header :: "pcap_pkthdr \<Rightarrow> pcap_sf_pkthdr" where
  "stored_header h = \<lparr>sf_ts = \<lparr>file_tv_sec = ucast (tv_sec (pkt_ts h)), file_tv_usec = ucast (tv_usec (pkt_ts h))\<rparr>,
     sf_caplen = pkt_caplen h, sf_len = pkt_len h\<rparr>"

definition stored_packet :: "pcap_pkthdr \<times> buffer \<Rightarrow> pcap_sf_pkthdr \<times> buffer" where
  "stored_packet = (\<lambda>(h, sp). (stored_header h, take (unat (pkt_caplen h)) sp))"

lemma sr_dump_good:
  assumes "unat (pkt_caplen h) \<le> length sp" and "16 + unat (pkt_caplen h) \<le> room fp"
  shows "sr_dump fp h sp = Some \<lparr>written = written fp @ pcap_sf_pkthdr_bytes (stored_header h) @ take (unat (pkt_caplen h)) sp,
    room = room fp - (16 + unat (pkt_caplen h))\<rparr>"
  using assms by (simp add: sr_dump_def Let_def fwrite_all mem_read_def chunk_def stored_header_def)

lemma sr_dump_all_good:
  assumes "\<forall>(h, sp) \<in> set ps. unat (pkt_caplen h) \<le> length sp"
    and "sum_list (map (\<lambda>(h, sp). 16 + unat (pkt_caplen h)) ps) \<le> room fp"
  obtains fp' b where "sr_dump_all fp ps = Some fp'" and "written fp' = written fp @ b"
    and "read_records b = Some (map stored_packet ps)"
proof -
  have "\<exists>fp' b. sr_dump_all fp ps = Some fp' \<and> written fp' = written fp @ b \<and> read_records b = Some (map stored_packet ps)"
    using assms
  proof (induction ps arbitrary: fp)
    case Nil
    then show ?case by (simp add: read_records.simps)
  next
    case (Cons p ps)
    obtain h sp where p: "p = (h, sp)" by (cases p)
    let ?r = "pcap_sf_pkthdr_bytes (stored_header h) @ take (unat (pkt_caplen h)) sp"
    let ?fp = "\<lparr>written = written fp @ ?r, room = room fp - (16 + unat (pkt_caplen h))\<rparr>"
    have le: "unat (pkt_caplen h) \<le> length sp" and "16 + unat (pkt_caplen h) \<le> room fp" using Cons.prems p by simp_all
    then have d: "sr_dump fp h sp = Some ?fp" by (rule sr_dump_good)
    have "\<exists>fp' b. sr_dump_all ?fp ps = Some fp' \<and> written fp' = written ?fp @ b \<and> read_records b = Some (map stored_packet ps)"
      by (rule Cons.IH) (use Cons.prems p in auto)
    then obtain fp' b where b: "sr_dump_all ?fp ps = Some fp'" "written fp' = written fp @ ?r @ b"
        "read_records b = Some (map stored_packet ps)" by auto
    have "read_records (?r @ b) = Some (map stored_packet (p # ps))"
      using read_record [of "take (unat (pkt_caplen h)) sp" "stored_header h" b] le b(3)
      by (simp add: p stored_packet_def stored_header_def min_absorb2)
    with b d p show ?case by (intro exI [of _ fp'] exI [of _ "?r @ b"]) simp
  qed
  then show ?thesis using that by blast
qed

lemma read_pcap_header:
  assumes "magic f = 0xa1b2c3d4"
  shows "read_pcap (pcap_file_header_bytes f @ b) = map_option (Pair f) (read_records b)"
proof -
  have f: "\<lparr>magic = 0xa1b2c3d4, version_major = version_major f, version_minor = version_minor f, thiszone = thiszone f,
      sigfigs = sigfigs f, snaplen = snaplen f, linktype = linktype f\<rparr> = f"
    using assms by (cases f) simp
  show ?thesis using assms by (simp add: read_pcap_def pcap_file_header_fields f)
qed

text \<open>C31: A capture file written through the dumper reads back as the format of libpcap prescribes: with
  room for it on the device and packets that are at least as long as their headers say, the file
  that \<open>sr_dump_open\<close> and one \<open>sr_dump\<close> per packet write consists of the file header and, for each
  packet in order, its lengths, its bytes, and the lower 32 bits of its time.\<close>

theorem dump_roundtrip:
  assumes "\<forall>(h, sp) \<in> set ps. unat (pkt_caplen h) \<le> length sp"
    and "24 + sum_list (map (\<lambda>(h, sp). 16 + unat (pkt_caplen h)) ps) \<le> n" and "fname \<noteq> ''-''"
  shows "\<exists>fp fp'. sr_dump_open out (Some (fopen_w n)) fname zone snap = Some fp \<and> sr_dump_all fp ps = Some fp' \<and>
    read_pcap (sr_dump_close fp') =
      Some (\<lparr>magic = 0xa1b2c3d4, version_major = 2, version_minor = 4, thiszone = zone, sigfigs = 0, snaplen = snap,
        linktype = 1\<rparr>, map stored_packet ps)"
proof -
  let ?h = "\<lparr>magic = 0xa1b2c3d4, version_major = 2, version_minor = 4, thiszone = zone, sigfigs = 0, snaplen = snap,
    linktype = 1\<rparr>"
  let ?fp = "\<lparr>written = pcap_file_header_bytes ?h, room = n - 24\<rparr>"
  have o: "sr_dump_open out (Some (fopen_w n)) fname zone snap = Some ?fp"
    using assms(2,3) by (simp add: sr_dump_open_def sf_write_header_def Let_def fopen_w_def fwrite_all)
  have "sum_list (map (\<lambda>(h, sp). 16 + unat (pkt_caplen h)) ps) \<le> room ?fp" using assms(2) by simp
  from sr_dump_all_good [OF assms(1) this] obtain fp' b where
    b: "sr_dump_all ?fp ps = Some fp'" "written fp' = pcap_file_header_bytes ?h @ b"
      "read_records b = Some (map stored_packet ps)" by auto
  then have "read_pcap (sr_dump_close fp') = Some (?h, map stored_packet ps)"
    by (simp add: sr_dump_close_def read_pcap_header)
  with o b(1) show ?thesis by blast
qed

theorem dump_roundtrip_witness:
  "\<exists>fp fp'. sr_dump_open (fopen_w 0) (Some (fopen_w 100)) ''log.pcap'' 0 65535 = Some fp \<and>
    sr_dump_all fp [(\<lparr>pkt_ts = \<lparr>tv_sec = 0x100000007, tv_usec = 5\<rparr>, pkt_caplen = 2, pkt_len = 60\<rparr>, [1, 2, 3])] = Some fp' \<and>
    map_option snd (read_pcap (sr_dump_close fp')) =
      Some [(\<lparr>sf_ts = \<lparr>file_tv_sec = 7, file_tv_usec = 5\<rparr>, sf_caplen = 2, sf_len = 60\<rparr>, [1, 2])]"
  using dump_roundtrip [of "[(\<lparr>pkt_ts = \<lparr>tv_sec = 0x100000007, tv_usec = 5\<rparr>, pkt_caplen = 2, pkt_len = 60\<rparr>, [1, 2, 3])]"
      100 "''log.pcap''" "fopen_w 0" 0 65535]
  by (auto simp: stored_packet_def stored_header_def)

end
