(* ===== verification/FileUpload.thy ===== *)
theory FileUpload
  imports StdioFiles Texts
begin

text \<open>
  \<^verbatim>\<open>Project1\<close>: the client that sends a file over a TCP connection, and the server that stores what
  each client sends, with one thread per connection. What the operating system answers is given
  pass by pass: when the socket becomes ready, what \<^verbatim>\<open>recv\<close> returns, how much \<^verbatim>\<open>send\<close> takes. Times
  are in microseconds. The setting up of the sockets is left out.

  The lemmas: an upload in which nothing goes wrong stores the file, whatever the sizes of the
  pieces; ten seconds of waiting in total, not at a stretch, are an error; and two clients that
  connect at the same moment can be given the same file and the same socket.
\<close>

section \<open>Waiting\<close>

text \<open>An error of \<^verbatim>\<open>select\<close>, or the time after which the socket is ready.\<close>

datatype poll = PollError | Ready nat

text \<open>\<^verbatim>\<open>select\<close> as on Linux: it writes the time that is left back to its argument.\<close>

fun select :: "poll \<Rightarrow> nat \<Rightarrow> int \<times> nat" where
  "select PollError timeout = (- 1, timeout)"
| "select (Ready wait) timeout = (if wait \<le> timeout then (1, timeout - wait) else (0, 0))"

definition ten_seconds :: nat where
  "ten_seconds = 10 * 1000000"

section \<open>Client\<close>

text \<open>What \<^verbatim>\<open>connect\<close> does on the non-blocking socket: it succeeds at once, is in progress, or fails.\<close>

datatype connect_result = Connected | InProgress | Refused

text \<open>The message of the error, if there is one, and the time left for the transfer.\<close>

definition connect_server :: "connect_result \<Rightarrow> poll \<Rightarrow> nat \<Rightarrow> string option \<times> nat" where
  "connect_server r p timeout =
     (case r of
        InProgress \<Rightarrow>
          let (rs, timeout) = select p timeout in
          if rs < 0 then (Some ''ERROR: Select failed'', timeout)
          else if rs = 0 then (Some ''ERROR: Connection timeout'', timeout)
          else (None, timeout)
      | Refused \<Rightarrow> (Some ''ERROR: connection failed'', timeout)
      | Connected \<Rightarrow> (Some ''ERROR: Wrong with connect function'', timeout))"

text \<open>The loop has not ended yet, has sent everything, or the program exits with a message.\<close>

datatype upload = Sending buffer | Sent buffer | SendExit string buffer

text \<open>
  The loop over the file: \<open>file\<close> is what is still to read, \<open>sent\<close> what the connection took. In a
  pass \<^verbatim>\<open>send\<close> takes up to \<open>takes\<close> bytes, or fails when that is negative.
\<close>

fun send_loop :: "nat \<Rightarrow> (poll \<times> int) list \<Rightarrow> buffer \<Rightarrow> buffer \<Rightarrow> upload" where
  "send_loop timeout [] file sent = Sending sent"
| "send_loop timeout ((p, takes) # passes) file sent =
     (let (rs, timeout) = select p timeout in
      if rs < 0 then SendExit ''ERROR: Select failed'' sent
      else if rs = 0 then SendExit ''ERROR: Connection timeout'' sent
      else
        let buf = take 1024 file in
        if buf = [] then Sent sent
        else if takes < 0 then SendExit ''ERROR: Error on sending files'' sent
        else send_loop timeout passes (drop 1024 file) (sent @ take (nat takes) buf))"

text \<open>The status of the program.\<close>

fun upload_status :: "upload \<Rightarrow> int option" where
  "upload_status (Sending sent) = None"
| "upload_status (Sent sent) = Some 0"
| "upload_status (SendExit message sent) = Some 1"

text \<open>Status 0 says that the file was read to its end, not that it was sent: \<^verbatim>\<open>send\<close> may have taken
  nothing of it.\<close>

lemma upload_status_short:
  "file \<noteq> [] \<Longrightarrow> length file \<le> 1024 \<Longrightarrow> upload_status (send_loop timeout [(Ready 0, 0), (Ready 0, 0)] file []) = Some 0 \<and>
    send_loop timeout [(Ready 0, 0), (Ready 0, 0)] file [] = Sent []"
  by simp

section \<open>Server: one connection\<close>

text \<open>The thread goes on, has returned, or has ended the whole program.\<close>

datatype handler = Serving cfile | Returned cfile | ServerExit string

text \<open>The first six bytes of \<^verbatim>\<open>char msg[20] = "ERROR"\<close>\<close>

definition error_text :: buffer where
  "error_text = map of_char ''ERROR'' @ [0]"

text \<open>
  The loop of the thread. In a pass \<^verbatim>\<open>recv\<close> fails (\<open>None\<close>) or returns up to 1024 of the bytes given,
  none when the client has closed the connection; \<open>reopened\<close> is what \<^verbatim>\<open>fopen\<close> returns after a timeout.
\<close>

fun handler_loop :: "cfile option \<Rightarrow> nat \<Rightarrow> (poll \<times> buffer option) list \<Rightarrow> cfile \<Rightarrow> handler" where
  "handler_loop reopened timeout [] fp = Serving fp"
| "handler_loop reopened timeout ((p, received) # passes) fp =
     (let (rs, timeout) = select p timeout in
      if rs < 0 then ServerExit ''ERROR: Select failed''
      else if rs = 0 then
        case reopened of
          None \<Rightarrow> ServerExit ''ERROR: file reopen error''
        | Some fp \<Rightarrow> Returned (snd (fwrite error_text fp))
      else
        case received of
          None \<Rightarrow> ServerExit ''ERROR: Receive data failed''
        | Some b \<Rightarrow>
            if b = [] then Returned fp
            else
              let (n, fp) = fwrite (take 1024 b) fp in
              if n = 0 then ServerExit ''ERROR: write failed''
              else handler_loop reopened timeout passes fp)"

text \<open>\<open>nonblock\<close>: whether \<^verbatim>\<open>fcntl\<close> succeeded; \<open>opened\<close>: what the first \<^verbatim>\<open>fopen\<close> returned.\<close>

definition connection_handler :: "bool \<Rightarrow> cfile option \<Rightarrow> cfile option \<Rightarrow> (poll \<times> buffer option) list \<Rightarrow> handler" where
  "connection_handler nonblock opened reopened passes =
     (if \<not> nonblock then ServerExit ''ERROR: set nonblocking error''
      else case opened of
        None \<Rightarrow> ServerExit ''ERROR: create file failed''
      | Some fp \<Rightarrow> handler_loop reopened ten_seconds passes fp)"

section \<open>Server: many connections\<close>

text \<open>
  What a thread has copied of the shared variables. \<^verbatim>\<open>clientSockfd\<close> is a local variable of the
  accepting loop whose address all threads get: the place is the same in every iteration.
\<close>

record thread_info =
  filepath :: "string option"
  clientsockfd :: "int option"

record upload_server =
  connection_num :: int
  clientSockfd :: int
  threads :: "thread_info list"

definition upload_init :: upload_server where
  "upload_init = \<lparr>connection_num = 0, clientSockfd = 0, threads = []\<rparr>"

text \<open>
  The steps that touch the shared variables: the main thread accepts a connection (\<open>created\<close>: whether
  \<^verbatim>\<open>pthread_create\<close> succeeded), a thread makes its path, a thread reads its socket.
\<close>

datatype action = Accept int bool | MakePath nat | ReadSocket nat

text \<open>
  \<open>None\<close>: the program has exited, or the step is not the next one of its thread. The path must fit
  in its 1000 bytes, with the final zero.
\<close>

definition upload_path :: "string \<Rightarrow> int \<Rightarrow> string" where
  "upload_path target_dir n = target_dir @ ''/'' @ show_int n @ ''.file''"

fun server_step :: "string \<Rightarrow> action \<Rightarrow> upload_server \<Rightarrow> upload_server option" where
  "server_step target_dir (Accept fd created) s =
     (if fd = - 1 then None
      else if created then
        Some \<lparr>connection_num = connection_num s + 1, clientSockfd = fd,
          threads = threads s @ [\<lparr>filepath = None, clientsockfd = None\<rparr>]\<rparr>
      else None)"
| "server_step target_dir (MakePath i) s =
     (let path = upload_path target_dir (connection_num s) in
      if i < length (threads s) \<and> filepath (threads s ! i) = None \<and> length path < 1000
      then Some (s\<lparr>threads := (threads s)[i := (threads s ! i)\<lparr>filepath := Some path\<rparr>]\<rparr>)
      else None)"
| "server_step target_dir (ReadSocket i) s =
     (if i < length (threads s) \<and> filepath (threads s ! i) \<noteq> None \<and> clientsockfd (threads s ! i) = None
      then Some (s\<lparr>threads := (threads s)[i := (threads s ! i)\<lparr>clientsockfd := Some (clientSockfd s)\<rparr>]\<rparr>)
      else None)"

fun server_run :: "string \<Rightarrow> action list \<Rightarrow> upload_server \<Rightarrow> upload_server option" where
  "server_run target_dir [] s = Some s"
| "server_run target_dir (a # as) s =
     (case server_step target_dir a s of None \<Rightarrow> None | Some s \<Rightarrow> server_run target_dir as s)"

text \<open>\<^verbatim>\<open>signal_handler\<close>: the status the program exits with, for \<^verbatim>\<open>SIGQUIT\<close> (3) and \<^verbatim>\<open>SIGTERM\<close> (15).\<close>

definition signal_handler :: "int \<Rightarrow> int option" where
  "signal_handler signo = (if signo = 3 \<or> signo = 15 then Some 0 else None)"

section \<open>An upload in which nothing goes wrong\<close>

text \<open>The passes of one end together wait no longer than the time that is left.\<close>

lemma select_in_time: "w \<le> timeout \<Longrightarrow> select (Ready w) timeout = (1, timeout - w)"
  by simp

lemma send_loop_all:
  assumes "sum_list ws \<le> timeout" and "length b + 1024 \<le> 1024 * length ws"
  shows "send_loop timeout (map (\<lambda>w. (Ready w, 1024)) ws) b out = Sent (out @ b)"
  using assms
proof (induction ws arbitrary: timeout b out)
  case (Cons w ws)
  show ?case
  proof (cases "b = []")
    case False
    then have "0 < length b" by simp
    then have "length (drop 1024 b) + 1024 \<le> 1024 * length ws"
      using Cons.prems(2) by (cases ws) simp_all
    from Cons.IH [OF _ this, of "timeout - w" "out @ take 1024 b"] False Cons.prems(1) show ?thesis by simp
  qed (use Cons.prems in simp)
qed simp

text \<open>The pieces arrive in any sizes that \<^verbatim>\<open>recv\<close> allows; the end of the stream comes last.\<close>

lemma handler_loop_pieces:
  assumes "sum_list (map fst cs) + w \<le> timeout" and "\<forall>(v, b) \<in> set cs. b \<noteq> [] \<and> length b \<le> 1024"
    and "length (concat (map snd cs)) \<le> room fp"
  shows "handler_loop reopened timeout (map (\<lambda>(v, b). (Ready v, Some b)) cs @ [(Ready w, Some [])]) fp =
    Returned \<lparr>written = written fp @ concat (map snd cs), room = room fp - length (concat (map snd cs))\<rparr>"
  using assms
proof (induction cs arbitrary: timeout fp)
  case (Cons c cs)
  obtain v b where c: "c = (v, b)" by (cases c)
  let ?fp = "\<lparr>written = written fp @ b, room = room fp - length b\<rparr>"
  have b: "b \<noteq> []" "length b \<le> 1024" "length b \<le> room fp" using Cons.prems(2,3) c by simp_all
  have "handler_loop reopened timeout (map (\<lambda>(v, b). (Ready v, Some b)) (c # cs) @ [(Ready w, Some [])]) fp =
      handler_loop reopened (timeout - v) (map (\<lambda>(v, b). (Ready v, Some b)) cs @ [(Ready w, Some [])]) ?fp"
    using b Cons.prems(1) c by (simp add: fwrite_all)
  with Cons.IH [of "timeout - v" ?fp] Cons.prems c show ?case by simp
qed simp

text \<open>When the waits add up to more than ten seconds the file is replaced by the error text.\<close>

lemma handler_loop_late:
  assumes "timeout < sum_list (map fst cs)" and "\<forall>(v, b) \<in> set cs. b \<noteq> [] \<and> length b \<le> 1024"
    and "length (concat (map snd cs)) \<le> room fp"
  shows "handler_loop (Some fp') timeout (map (\<lambda>(v, b). (Ready v, Some b)) cs @ rest) fp =
    Returned (snd (fwrite error_text fp'))"
  using assms
proof (induction cs arbitrary: timeout fp)
  case (Cons c cs)
  obtain v b where c: "c = (v, b)" by (cases c)
  let ?fp = "\<lparr>written = written fp @ b, room = room fp - length b\<rparr>"
  have b: "b \<noteq> []" "length b \<le> 1024" "length b \<le> room fp" using Cons.prems(2,3) c by simp_all
  show ?case
  proof (cases "v \<le> timeout")
    case True
    then have "handler_loop (Some fp') timeout (map (\<lambda>(v, b). (Ready v, Some b)) (c # cs) @ rest) fp =
        handler_loop (Some fp') (timeout - v) (map (\<lambda>(v, b). (Ready v, Some b)) cs @ rest) ?fp"
      using b c by (simp add: fwrite_all)
    with True Cons.IH [of "timeout - v" ?fp] Cons.prems c show ?thesis by simp
  qed (use c in simp)
qed simp

section \<open>Who writes where\<close>

text \<open>A connection whose thread has read both variables before the next one is accepted.\<close>

definition served :: "int \<Rightarrow> nat \<Rightarrow> action list" where
  "served fd i = [Accept fd True, MakePath i, ReadSocket i]"

lemma serve_connection:
  assumes "fd \<noteq> - 1" and "length (upload_path target_dir (connection_num s + 1)) < 1000"
  shows "server_run target_dir (served fd (length (threads s)) @ as) s =
    server_run target_dir as \<lparr>connection_num = connection_num s + 1, clientSockfd = fd,
      threads = threads s @ [\<lparr>filepath = Some (upload_path target_dir (connection_num s + 1)), clientsockfd = Some fd\<rparr>]\<rparr>"
  using assms by (simp add: served_def Let_def)

lemma upload_path_inject: "0 \<le> m \<Longrightarrow> 0 \<le> n \<Longrightarrow> upload_path d m = upload_path d n \<longleftrightarrow> m = n"
  by (simp add: upload_path_def show_int_def show_nat_inject eq_nat_nat_iff)

section \<open>Properties\<close>

text \<open>C16: An upload over a connection that works stores the file: when the client can send 1024 bytes in
  each pass and has enough passes to read the file to its end, it sends the file and nothing else;
  and however the connection cuts these bytes into pieces, the server's thread returns with
  exactly the file stored, as long as each of the two waits for at most ten seconds in total.\<close>

theorem tcp_upload:
  assumes "sum_list ws \<le> ten_seconds" and "length b + 1024 \<le> 1024 * length ws"
    and "concat (map snd cs) = b" and "\<forall>(v, x) \<in> set cs. x \<noteq> [] \<and> length x \<le> 1024"
    and "sum_list (map fst cs) + w \<le> ten_seconds" and "length b \<le> n"
  shows "send_loop ten_seconds (map (\<lambda>w. (Ready w, 1024)) ws) b [] = Sent b \<and>
    connection_handler True (Some (fopen_w n)) reopened (map (\<lambda>(v, x). (Ready v, Some x)) cs @ [(Ready w, Some [])]) =
      Returned \<lparr>written = b, room = n - length b\<rparr>"
proof -
  have room: "length (concat (map snd cs)) \<le> room (fopen_w n)" using assms(3,6) by (simp add: fopen_w_def)
  from send_loop_all [OF assms(1,2), of "[]"] handler_loop_pieces [OF assms(5,4) room] assms(3) show ?thesis
    by (simp add: connection_handler_def fopen_w_def)
qed

theorem tcp_upload_witness:
  "send_loop ten_seconds [(Ready 5, 1024), (Ready 0, 1024)] [1, 2, 3] [] = Sent [1, 2, 3] \<and>
    connection_handler True (Some (fopen_w 100)) None
      [(Ready 4, Some [1]), (Ready 0, Some [2, 3]), (Ready 1000, Some [])] = Returned \<lparr>written = [1, 2, 3], room = 97\<rparr>"
  using tcp_upload [of "[5, 0]" "[1, 2, 3]" "[(4, [1]), (0, [2, 3])]" 1000 100 None]
  by (simp add: ten_seconds_def)

text \<open>The ten seconds of the server are for the whole upload: a client that never pauses for long is
  cut off all the same once its pauses add up to more, and what it has sent is replaced by the
  word ERROR and a zero byte.\<close>

theorem slow_upload_lost:
  assumes "ten_seconds < sum_list (map fst cs)" and "\<forall>(v, x) \<in> set cs. x \<noteq> [] \<and> length x \<le> 1024"
    and "length (concat (map snd cs)) \<le> n" and "6 \<le> m"
  shows "connection_handler True (Some (fopen_w n)) (Some (fopen_w m)) (map (\<lambda>(v, x). (Ready v, Some x)) cs @ rest) =
    Returned \<lparr>written = [69, 82, 82, 79, 82, 0], room = m - 6\<rparr>"
proof -
  have "length (concat (map snd cs)) \<le> room (fopen_w n)" using assms(3) by (simp add: fopen_w_def)
  from handler_loop_late [OF assms(1,2) this] show ?thesis
    using assms(4) by (simp add: connection_handler_def fwrite_def fopen_w_def error_text_def Let_def)
qed

theorem slow_upload_lost_witness:
  "connection_handler True (Some (fopen_w 100)) (Some (fopen_w 100))
     [(Ready 6000000, Some [1]), (Ready 6000000, Some [2]), (Ready 0, Some [])] =
    Returned \<lparr>written = [69, 82, 82, 79, 82, 0], room = 94\<rparr>"
  using slow_upload_lost [of "[(6000000, [1]), (6000000, [2])]" 100 100 "[(Ready 0, Some [])]"]
  by (simp add: ten_seconds_def)

text \<open>C29: The thread of a connection reads the number of the file and the socket from variables that the
  accepting loop changes. When two clients connect before the first thread has run, both threads
  write the file of the second and both read its socket; the first client is never served. When
  each thread runs before the next client connects, they get different files and their own
  sockets.\<close>

theorem upload_race:
  assumes "a \<noteq> - 1" and "b \<noteq> - 1" and "0 \<le> connection_num s" and "n = length (threads s)"
    and "\<forall>i \<in> {connection_num s + 1, connection_num s + 2}. length (upload_path dir i) < 1000"
  shows "let p = upload_path dir (connection_num s + 1); q = upload_path dir (connection_num s + 2);
      t = (\<lambda>path fd. \<lparr>filepath = Some path, clientsockfd = Some fd\<rparr>) in
    p \<noteq> q \<and>
    map_option threads (server_run dir
        [Accept a True, Accept b True, MakePath n, ReadSocket n, MakePath (Suc n), ReadSocket (Suc n)] s) =
      Some (threads s @ [t q b, t q b]) \<and>
    map_option threads (server_run dir (served a n @ served b (Suc n)) s) = Some (threads s @ [t p a, t q b])"
proof -
  have len: "length (upload_path dir (connection_num s + 1)) < 1000" "length (upload_path dir (connection_num s + 2)) < 1000"
    using assms(5) by simp_all
  have "connection_num s + 1 \<noteq> connection_num s + 2" by simp
  then have "upload_path dir (connection_num s + 1) \<noteq> upload_path dir (connection_num s + 2)"
    using assms(3) by (subst upload_path_inject) auto
  moreover have "map_option threads (server_run dir
      [Accept a True, Accept b True, MakePath n, ReadSocket n, MakePath (Suc n), ReadSocket (Suc n)] s) =
    Some (threads s @ [\<lparr>filepath = Some (upload_path dir (connection_num s + 2)), clientsockfd = Some b\<rparr>,
      \<lparr>filepath = Some (upload_path dir (connection_num s + 2)), clientsockfd = Some b\<rparr>])"
    using assms(1,2,4) len by (simp add: Let_def nth_append list_update_append add.assoc)
  moreover have "map_option threads (server_run dir (served a n @ served b (Suc n)) s) =
    Some (threads s @ [\<lparr>filepath = Some (upload_path dir (connection_num s + 1)), clientsockfd = Some a\<rparr>,
      \<lparr>filepath = Some (upload_path dir (connection_num s + 2)), clientsockfd = Some b\<rparr>])"
    using assms(1,2,4) len by (simp add: served_def Let_def nth_append list_update_append add.assoc)
  ultimately show ?thesis by (simp add: Let_def)
qed

theorem upload_race_witness:
  "map_option threads (server_run ''/d'' [Accept 4 True, Accept 5 True, MakePath 0, ReadSocket 0, MakePath 1, ReadSocket 1]
      upload_init) =
    Some (replicate 2 \<lparr>filepath = Some (upload_path ''/d'' 2), clientsockfd = Some 5\<rparr>)"
proof -
  have "length (upload_path ''/d'' 1) < 1000" "length (upload_path ''/d'' 2) < 1000"
    by (simp_all add: upload_path_def show_int_def show_nat.simps)
  with upload_race [of 4 5 upload_init 0 "''/d''"] show ?thesis
    by (simp add: upload_init_def Let_def numeral_2_eq_2)
qed

end
