(* ===== verification/StartUp.thy ===== *)
theory StartUp
  imports ConfundoServer FileUpload
begin

text \<open>
  How the programs of \<^verbatim>\<open>CS118-Project2\<close> and \<^verbatim>\<open>Project1\<close> start: the part of each \<^verbatim>\<open>main\<close> before its
  loop, from the arguments to a socket. What the operating system answers is a record of its
  functions, of the argument or of the number of the call; the arguments are those after the
  name of the program. The outcome is a started program, an exit with a status and a message, or
  an exception that nothing catches. Messages are given without line ends, those of \<^verbatim>\<open>perror\<close> without
  the error text it adds.
\<close>

section \<open>std::stoi\<close>

text \<open>White space, a sign, decimal digits; whatever follows is ignored.\<close>

definition is_space :: "char \<Rightarrow> bool" where
  "is_space c \<longleftrightarrow> (of_char c :: nat) \<in> {9, 10, 11, 12, 13, 32}"

definition is_digit :: "char \<Rightarrow> bool" where
  "is_digit c \<longleftrightarrow> 48 \<le> (of_char c :: nat) \<and> (of_char c :: nat) \<le> 57"

fun sign_of :: "string \<Rightarrow> bool \<times> string" where
  "sign_of [] = (False, [])"
| "sign_of (c # t) = (if c = CHR ''-'' then (True, t) else if c = CHR ''+'' then (False, t) else (False, c # t))"

definition digits_value :: "string \<Rightarrow> nat" where
  "digits_value ds = foldl (\<lambda>n c. 10 * n + (of_char c - 48)) 0 ds"

definition stoi :: "string \<Rightarrow> string + int" where
  "stoi t =
     (let (neg, t) = sign_of (dropWhile is_space t);
          ds = takeWhile is_digit t;
          n = int (digits_value ds);
          i = if neg then - n else n
      in if ds = [] then Inl ''std::invalid_argument''
         else if i < - 2147483648 \<or> 2147483647 < i then Inl ''std::out_of_range''
         else Inr i)"

section \<open>The operating system\<close>

datatype file_kind = Directory | OtherFile

record addrinfo =
  ai_flags :: int
  ai_family :: int
  ai_socktype :: int
  ai_protocol :: int
  ai_addr :: sockaddr

text \<open>
  \<open>os_resolve\<close> is \<^verbatim>\<open>getaddrinfo\<close>, with its error text on failure; \<open>os_socket\<close> and \<open>os_bind\<close> answer the
  \<open>n\<close>-th call, the other calls are told apart by their descriptor.
\<close>

record os =
  os_stat :: "string \<Rightarrow> file_kind option"
  os_resolve :: "string option \<Rightarrow> string \<Rightarrow> addrinfo \<Rightarrow> string + addrinfo list"
  os_socket :: "nat \<Rightarrow> int"
  os_bind :: "nat \<Rightarrow> int"
  os_setsockopt :: "int \<Rightarrow> int"
  os_fcntl :: "int \<Rightarrow> int"
  os_listen :: "int \<Rightarrow> int"
  os_connect :: connect_result
  os_writable :: poll
  os_getsockname :: int
  os_fopen :: "string \<Rightarrow> buffer option"

datatype 'a start = Started 'a | Exits int string | Throws string | Undefined undefined_behaviour

definition hints :: "int \<Rightarrow> int \<Rightarrow> addrinfo" where
  "hints socktype fl =
     \<lparr>ai_flags = fl, ai_family = 2, ai_socktype = socktype, ai_protocol = 0, ai_addr = no_addr\<rparr>"

abbreviation SOCK_STREAM :: int where "SOCK_STREAM \<equiv> 1"
abbreviation SOCK_DGRAM :: int where "SOCK_DGRAM \<equiv> 2"
abbreviation AI_PASSIVE :: int where "AI_PASSIVE \<equiv> 1"

section \<open>Confundo\<close>

text \<open>
  The loop over the addresses, with the descriptors that are open: the descriptor and the address of
  the first socket that can be made and bound.
\<close>

fun bind_loop :: "os \<Rightarrow> nat \<Rightarrow> addrinfo list \<Rightarrow> int list \<Rightarrow> (int \<times> addrinfo) option \<times> int list" where
  "bind_loop os n [] fds = (None, fds)"
| "bind_loop os n (anchor # rest) fds =
     (let sockfd = os_socket os n in
      if sockfd < 0 then bind_loop os (Suc n) rest fds
      else if os_bind os n < 0 then bind_loop os (Suc n) rest (remove1 sockfd (sockfd # fds))
      else (Some (sockfd, anchor), sockfd # fds))"

text \<open>The client does not bind its socket.\<close>

fun socket_loop :: "os \<Rightarrow> nat \<Rightarrow> addrinfo list \<Rightarrow> (int \<times> addrinfo) option" where
  "socket_loop os n [] = None"
| "socket_loop os n (anchor # rest) =
     (let sockfd = os_socket os n in
      if sockfd < 0 then socket_loop os (Suc n) rest else Some (sockfd, anchor))"

definition reserved_port :: "string \<Rightarrow> string + bool" where
  "reserved_port port_num =
     (case stoi port_num of Inl e \<Rightarrow> Inl e | Inr n \<Rightarrow> Inr (n \<le> 1023 \<and> n \<ge> 0))"

text \<open>
  \<^verbatim>\<open>server.cpp\<close> does not look at \<^verbatim>\<open>argc\<close>: a missing argument is a null pointer, of which it makes a
  string. It is started with its directory, its socket, and the descriptors that are open.
\<close>

definition server_main :: "os \<Rightarrow> string list \<Rightarrow> (string \<times> int \<times> addrinfo \<times> int list) start" where
  "server_main os args =
     (case args of
        port_num # file_dir # _ \<Rightarrow>
          (case reserved_port port_num of
             Inl e \<Rightarrow> Throws e
           | Inr reserved \<Rightarrow>
               if reserved then Exits 1 ''ERROR: incorrect port number''
               else
               (case os_stat os file_dir of
                  None \<Rightarrow> Exits 1 ''ERROR:directory not exist''
                | Some OtherFile \<Rightarrow> Exits 1 ''ERROR:not a directory''
                | Some Directory \<Rightarrow>
                    (case os_resolve os None port_num (hints SOCK_DGRAM AI_PASSIVE) of
                       Inl _ \<Rightarrow> Exits 1 ''ERROR:getaddrinfo error''
                     | Inr server_info \<Rightarrow>
                         (case bind_loop os 0 server_info [] of
                            (None, _) \<Rightarrow> Exits 2 ''ERROR:bind fail''
                          | (Some (sockfd, anchor), fds) \<Rightarrow> Started (file_dir, sockfd, anchor, fds)))))
      | _ \<Rightarrow> Undefined NullDeref)"

text \<open>\<^verbatim>\<open>client.cpp\<close>: started with its socket, the address it sends to and the name of the file.\<close>

definition client_main :: "os \<Rightarrow> string list \<Rightarrow> (int \<times> addrinfo \<times> string) start" where
  "client_main os args =
     (case args of
        [host_name_ip, port_num, file_name] \<Rightarrow>
          (case reserved_port port_num of
             Inl e \<Rightarrow> Throws e
           | Inr reserved \<Rightarrow>
               if reserved then
                 Exits 1 ''ERROR: incorrect port num, please specify a number in the range [1024, 65535]''
               else
               (case os_resolve os (Some host_name_ip) port_num (hints SOCK_DGRAM AI_PASSIVE) of
                  Inl _ \<Rightarrow> Exits 1 ''ERROR: getaddrinfo error''
                | Inr server_info \<Rightarrow>
                    (case socket_loop os 0 server_info of
                       None \<Rightarrow> Exits 1 ''ERROR: bind failure''
                     | Some (sockfd, anchor) \<Rightarrow> Started (sockfd, anchor, file_name))))
      | _ \<Rightarrow> Exits 1 ''ERROR: incorrect number of arguments!'')"

text \<open>The signal handlers: the server ends with status 0, the client on \<^verbatim>\<open>SIGPIPE\<close> (13) with a message.\<close>

definition sig_handler :: "int \<Rightarrow> int" where
  "sig_handler signum = 0"

definition sigpipe_handler :: "int \<Rightarrow> (int \<times> string) option" where
  "sigpipe_handler s = (if s = 13 then Some (1, ''ERROR: Server is down. Abort.'') else None)"

section \<open>File upload\<close>

text \<open>
  Both programs of \<^verbatim>\<open>Project1\<close> use the first address only (a successful \<^verbatim>\<open>getaddrinfo\<close> returns at
  least one) and take 0 for a failure of \<^verbatim>\<open>socket\<close>.
\<close>

definition upload_server_main :: "os \<Rightarrow> string list \<Rightarrow> (string \<times> int) start" where
  "upload_server_main os args =
     (case args of
        [port, target_dir] \<Rightarrow>
          (case os_resolve os None port (hints SOCK_STREAM AI_PASSIVE) of
             Inl status \<Rightarrow> Exits 1 (''ERROR:'' @ status)
           | Inr servinfo \<Rightarrow>
               (let sockfd = os_socket os 0 in
                if sockfd = 0 then Exits 1 ''ERROR: Socket failed''
                else if os_setsockopt os sockfd = - 1 then Exits 1 ''ERROR: setsockopt failed''
                else if servinfo = [] then Undefined NullDeref
                else if os_bind os 0 = - 1 then Exits 1 ''ERROR: bind failed''
                else if os_listen os sockfd = - 1 then Exits 1 ''ERROR: listen failed''
                else Started (target_dir, sockfd)))
      | _ \<Rightarrow> Exits 1 ''ERROR:Invalid number of arguments'')"

text \<open>The client is started with its socket, its file and the time left for the transfer.\<close>

definition upload_client_main :: "os \<Rightarrow> string list \<Rightarrow> (int \<times> buffer \<times> nat) start" where
  "upload_client_main os args =
     (case args of
        [ip_addr, port, filename] \<Rightarrow>
          (case os_resolve os (Some ip_addr) port (hints SOCK_STREAM 0) of
             Inl status \<Rightarrow> Exits 1 (''ERROR: '' @ status)
           | Inr servinfo \<Rightarrow>
               (let sockfd = os_socket os 0 in
                if sockfd = 0 then Exits 1 ''ERROR: Socket failed''
                else if os_fcntl os sockfd \<noteq> 0 then Exits 1 ''ERROR: set nonblocking error''
                else if servinfo = [] then Undefined NullDeref
                else
                  (case connect_server (os_connect os) (os_writable os) ten_seconds of
                     (Some e, _) \<Rightarrow> Exits 1 e
                   | (None, timeout) \<Rightarrow>
                       if os_getsockname os = - 1 then Exits 1 ''ERROR: getsockname failed''
                       else
                         (case os_fopen os filename of
                            None \<Rightarrow> Exits 1 (''ERROR: Can'' @ [CHR 0x27] @ ''t open the file'')
                          | Some b \<Rightarrow> Started (sockfd, b, timeout)))))
      | _ \<Rightarrow> Exits 1 ''ERROR:Invalid number of arguments'')"

section \<open>Numbers as text\<close>

lemma of_char_digit: "d < 10 \<Longrightarrow> (of_char (char_of (48 + d) :: char) :: nat) = 48 + d"
  by simp

lemma digits_value_append: "digits_value (ds @ [c]) = 10 * digits_value ds + (of_char c - 48)"
  by (simp add: digits_value_def)

lemma show_nat_digits: "\<forall>c \<in> set (show_nat n). is_digit c"
proof (induction n rule: less_induct)
  case (less n)
  have last: "is_digit (char_of (48 + d))" if "d < 10" for d :: nat using that by (simp add: is_digit_def)
  show ?case
  proof (cases "n < 10")
    case False
    then have "\<forall>c \<in> set (show_nat (n div 10)). is_digit c" using less.IH [of "n div 10"] by simp
    with False last show ?thesis by (subst show_nat.simps) auto
  qed (subst show_nat.simps, simp add: last)
qed

lemma digits_value_show_nat: "digits_value (show_nat n) = n"
proof (induction n rule: less_induct)
  case (less n)
  show ?case
  proof (cases "n < 10")
    case True
    then show ?thesis by (subst show_nat.simps) (simp add: digits_value_def)
  next
    case False
    then have "digits_value (show_nat (n div 10)) = n div 10" using less by simp
    with False show ?thesis by (subst show_nat.simps) (simp add: digits_value_append)
  qed
qed

lemma sign_of_digit: "is_digit c \<Longrightarrow> sign_of (c # t) = (False, c # t)"
  by (auto simp: is_digit_def)

lemma digit_no_space: "is_digit c \<Longrightarrow> \<not> is_space c"
  by (auto simp: is_digit_def is_space_def)

text \<open>What was printed reads back when it fits in an \<^verbatim>\<open>int\<close>.\<close>

lemma stoi_show_int:
  "stoi (show_int i) = (if i < - 2147483648 \<or> 2147483647 < i then Inl ''std::out_of_range'' else Inr i)"
proof -
  have w: "takeWhile is_digit (show_nat n) = show_nat n" for n
    using show_nat_digits by (simp add: takeWhile_eq_all_conv)
  have s: "sign_of (dropWhile is_space (show_nat n)) = (False, show_nat n)" for n
  proof -
    obtain c t where t: "show_nat n = c # t" using show_nat_nonempty by (metis neq_Nil_conv)
    then have "is_digit c" using show_nat_digits [of n] by simp
    with t show ?thesis by (simp add: digit_no_space sign_of_digit del: sign_of.simps)
  qed
  have m: "dropWhile is_space (CHR ''-'' # u) = CHR ''-'' # u" for u by (simp add: is_space_def)
  show ?thesis
  proof (cases "i < 0")
    case True
    then have "show_int i = CHR ''-'' # show_nat (nat (- i))" by (simp add: show_int_def)
    with True show ?thesis
      unfolding stoi_def Let_def by (simp only: m sign_of.simps simp_thms if_True prod.case w digits_value_show_nat) (simp add: show_nat_nonempty)
  next
    case False
    then have "show_int i = show_nat (nat i)" by (simp add: show_int_def)
    with False show ?thesis
      unfolding stoi_def Let_def by (simp only: s prod.case w digits_value_show_nat) (simp add: show_nat_nonempty)
  qed
qed

lemma reserved_port_show_int:
  "reserved_port (show_int i) =
    (if i < - 2147483648 \<or> 2147483647 < i then Inl ''std::out_of_range'' else Inr (0 \<le> i \<and> i \<le> 1023))"
  by (auto simp: reserved_port_def stoi_show_int)

section \<open>The first socket that works\<close>

text \<open>Sockets that could not be bound are closed again.\<close>

lemma bind_loop_first:
  assumes "i < length as" and "0 \<le> os_socket os (n + i)" and "0 \<le> os_bind os (n + i)"
    and "\<And>j. j < i \<Longrightarrow> os_socket os (n + j) < 0 \<or> os_bind os (n + j) < 0"
  shows "bind_loop os n as fds = (Some (os_socket os (n + i), as ! i), os_socket os (n + i) # fds)"
  using assms
proof (induction as arbitrary: n i)
  case (Cons a as)
  show ?case
  proof (cases i)
    case (Suc j)
    have "os_socket os n < 0 \<or> os_bind os n < 0" using Cons.prems(4) [of 0] Suc by simp
    moreover have "bind_loop os (Suc n) as fds = (Some (os_socket os (Suc n + j), as ! j), os_socket os (Suc n + j) # fds)"
      using Cons.prems Suc by (intro Cons.IH) (use Cons.prems(4) [of "Suc _"] in auto)
    ultimately show ?thesis by (auto simp: Suc Let_def)
  qed (use Cons.prems in \<open>simp add: Let_def\<close>)
qed simp

lemma bind_loop_none:
  "(\<And>j. j < length as \<Longrightarrow> os_socket os (n + j) < 0 \<or> os_bind os (n + j) < 0) \<Longrightarrow> bind_loop os n as fds = (None, fds)"
proof (induction as arbitrary: n)
  case (Cons a as)
  have "bind_loop os (Suc n) as fds = (None, fds)"
    by (rule Cons.IH) (use Cons.prems [of "Suc _"] in auto)
  then show ?case using Cons.prems [of 0] by (auto simp: Let_def)
qed simp

section \<open>Properties\<close>

text \<open>C33: The server, given a directory and any number as its port, starts on the first address that a socket can
  be made for and bound to, and has no other descriptor open then, if the number fits in 32 bits
  and is not one of 0 to 1023: a negative port and one above 65535 pass its check and are left to the
  resolver. A port of 0 to 1023 is refused, and a number that does not fit in an \<^verbatim>\<open>int\<close> ends the program
  with an exception that nothing catches.\<close>

theorem server_starts:
  assumes "os_stat os dir = Some Directory"
    and "os_resolve os None (show_int port) (hints SOCK_DGRAM AI_PASSIVE) = Inr as" and "i < length as"
    and "0 \<le> os_socket os i" and "0 \<le> os_bind os i" and "\<forall>j < i. os_socket os j < 0 \<or> os_bind os j < 0"
  shows "server_main os (show_int port # dir # rest) =
    (if port < - 2147483648 \<or> 2147483647 < port then Throws ''std::out_of_range''
     else if 0 \<le> port \<and> port \<le> 1023 then Exits 1 ''ERROR: incorrect port number''
     else Started (dir, os_socket os i, as ! i, [os_socket os i]))"
proof -
  have "bind_loop os 0 as [] = (Some (os_socket os i, as ! i), [os_socket os i])"
    using bind_loop_first [of i as os 0 "[]"] assms(3-6) by simp
  with assms(1,2) show ?thesis
    by (simp add: server_main_def reserved_port_show_int split: sum.split)
qed

definition example_os :: os where
  "example_os = \<lparr>os_stat = (\<lambda>path. if path = ''/save'' then Some Directory else None),
     os_resolve = (\<lambda>host port h. Inr [h, h]), os_socket = (\<lambda>n. 3), os_bind = (\<lambda>n. if n = 0 then - 1 else 0),
     os_setsockopt = (\<lambda>fd. if fd < 0 then - 1 else 0), os_fcntl = (\<lambda>fd. if fd < 0 then - 1 else 0),
     os_listen = (\<lambda>fd. if fd < 0 then - 1 else 0), os_connect = InProgress, os_writable = Ready 1000,
     os_getsockname = 0, os_fopen = (\<lambda>_. None)\<rparr>"

theorem server_starts_witness:
  "server_main example_os [show_int 70000, ''/save''] =
    Started (''/save'', 3, hints SOCK_DGRAM AI_PASSIVE, [3])"
  using server_starts [of example_os "''/save''" 70000 "[hints SOCK_DGRAM AI_PASSIVE, hints SOCK_DGRAM AI_PASSIVE]" 1 "[]"]
  by (simp add: example_os_def)

text \<open>In the file upload a failure of \<^verbatim>\<open>socket\<close>, which returns -1, is reported as one of the next call,
  which fails on that descriptor.\<close>

lemma upload_socket_failure:
  assumes "os_socket os 0 = - 1" and "os_setsockopt os (- 1) = - 1" and "os_fcntl os (- 1) = - 1"
    and "os_resolve os None port (hints SOCK_STREAM AI_PASSIVE) = Inr as"
    and "os_resolve os (Some host) port (hints SOCK_STREAM 0) = Inr bs"
  shows "upload_server_main os [port, dir] = Exits 1 ''ERROR: setsockopt failed''"
    and "upload_client_main os [host, port, filename] = Exits 1 ''ERROR: set nonblocking error''"
  using assms by (simp_all add: upload_server_main_def upload_client_main_def Let_def)

text \<open>A port that is no number ends server and client with an exception.\<close>

lemma no_port_terminates:
  assumes "stoi port = Inl e"
  shows "server_main os (port # dir # rest) = Throws e" and "client_main os [host, port, filename] = Throws e"
  using assms by (simp_all add: server_main_def client_main_def reserved_port_def)

end
