(* ===== verification/Spec2Isabelle.thy ===== *)
theory Spec2Isabelle
  imports RouterDelivery RouterThreads ConfundoRedirect ConfundoWire ConfundoTermination ConfundoLivelock ConfundoRecovery PcapDump StartUp UploadRace
begin

text \<open>
  A verification of the three network programs of the repository: the file upload over TCP of
  \<^verbatim>\<open>Project1\<close>, the reliable file upload over UDP of \<^verbatim>\<open>CS118-Project2\<close> (protocol Confundo), and the
  IPv4 router of \<^verbatim>\<open>CS118-Project3\<close>. Definitions are translated from the source with its names and
  its order of steps, its errors and undefined behaviour are values, and the theorems say what
  each program does, including where that is not what was meant.

  \<^bigskip>\<^bold>\<open>The router\<close> (\<^verbatim>\<open>CS118-Project3\<close>). A frame arrives through POX at
  \<^verbatim>\<open>SimpleRouter::handlePacket\<close>, which dispatches to the ARP and IP handlers; these use the routing
  table, the set of interfaces and the ARP cache, and either send, or queue the frame in the cache
  until its next hop is known. A thread ages the cache once a second.

    \<^item> \<open>Protocol\<close> (\<^verbatim>\<open>core/protocol.hpp\<close>): header records and their packed bytes; round trips.
    \<^item> \<open>Utils\<close>, \<open>Printers\<close>, \<open>Texts\<close> (\<^verbatim>\<open>core/utils.cpp\<close>): the Internet checksum, equal to the sum of
      RFC 1071 and verifying what it seals; the printers, which never leave their buffer.
    \<^item> \<open>RoutingTable\<close> (\<^verbatim>\<open>routing-table.cpp\<close>): lookup is longest prefix match; loading and printing.
    \<^item> \<open>Interfaces\<close> (\<^verbatim>\<open>core/interface.hpp\<close>): \<^verbatim>\<open>std::set\<close> as a sorted list.
    \<^item> \<open>ArpCache\<close>, \<open>ArpTimer\<close> (\<^verbatim>\<open>arp-cache.cpp\<close>): entries and requests, one tick of the timer, refined
      to a specification on maps from addresses to waiting packets.
    \<^item> \<open>RouterState\<close>, \<open>PacketHandling\<close> (\<^verbatim>\<open>simple-router.cpp\<close>): state, configuration, and the handlers
      with every branch, null dereference and access out of range (\<open>outcome\<close> in \<open>Prelude\<close>).
    \<^item> \<open>RouterThreads\<close>: the timer and \<^verbatim>\<open>sendPendingPackets\<close> on the queue of requests in smaller steps, with
      the mutex and without; each alone refines its atomic step, and without the mutex one thing
      goes wrong (\<open>careful\<close>).
    \<^item> \<open>RouterTicks\<close>: the handlers, and a reset, with ticks of the timer between their accesses to the
      cache and, in the steps of \<open>RouterThreads\<close>, during \<^verbatim>\<open>sendPendingPackets\<close> (\<open>send_during\<close>); equal to them
      when no tick comes.
    \<^item> \<open>RouterProcess\<close> (\<^verbatim>\<open>core/main.cpp\<close>): start-up and the step relation \<open>router_step\<close> of frames, resets
      and ticks, also of ticks during a frame, with an invariant kept by every step. \<open>Examples\<close> has concrete states and frames.
    \<^item> \<open>RouterDelivery\<close>: frames, ticks and the reply together, from the first packet for an unknown host
      to its delivery.
    \<^item> \<open>PcapDump\<close> (\<^verbatim>\<open>core/dumper.cpp\<close>): capture files, which read back as they were written.

  \<^bigskip>\<^bold>\<open>Confundo\<close> (\<^verbatim>\<open>CS118-Project2\<close>). The client shakes hands, sends the file in a sliding window
  with slow start, congestion avoidance and go-back retransmission, and closes; the server keeps
  ten connections and accepts data in order only.

    \<^item> \<open>ConfundoPacket\<close>: packets, byte order, output lines of both programs.
    \<^item> \<open>FileStreams\<close>: \<^verbatim>\<open>std::ofstream\<close> and \<^verbatim>\<open>std::ifstream\<close> with their error bits.
    \<^item> \<open>ConfundoReceiver\<close>: sequence numbers modulo 102401 (\<open>seq_at\<close>) and the contract of a receiver in
      order, the locale \<open>in_order_receiver\<close>, from which alone the prefix property follows.
    \<^item> \<open>ConfundoServer\<close> (\<^verbatim>\<open>server.cpp\<close>): the array \<^verbatim>\<open>all_connection\<close> and one turn of the loop,
      \<open>serve_one\<close>; the invariant \<open>server_inv\<close>; the interpretation of the contract on \<open>serve_one\<close>.
    \<^item> \<open>ConfundoClient\<close> (\<^verbatim>\<open>client.cpp\<close>): \<open>handshake\<close>, \<open>transfer_pass\<close> (the body of the loop of
      \<^verbatim>\<open>slidingWindow_data_trans\<close>) and \<open>ending\<close>; the invariant \<open>sending_inv\<close> of window and log.
    \<^item> \<open>ConfundoTransfer\<close>: both programs and a network that may lose, repeat, delay and reorder
      (\<open>reaches\<close>); other clients and what they may send (\<open>foreign\<close>); the invariant of the two.
    \<^item> \<open>ConfundoDelivery\<close>: a run that finishes when nothing is lost, with its measure;
      \<open>ConfundoRecovery\<close>: the log without gaps (\<open>orderly\<close>) and the run that goes back after a loss;
      \<open>ConfundoLivelock\<close>: states in which client and server talk for ever without progress;
      \<open>ConfundoWindow\<close>: bounds of the window; \<open>ConfundoTimers\<close>: retransmission and giving up;
      \<open>ConfundoTermination\<close>: the whole client ends when the network falls silent;
      \<open>ConfundoClosing\<close>: FIN, and the datagrams that close or break a connection;
      \<open>ConfundoSession\<close>: the client program from its first datagram to its last (\<open>client_session\<close>), and runs
      with the passes of the client written down (\<open>exchange\<close>); \<open>ConfundoWire\<close>: every datagram the client
      sends, byte by byte;
      \<open>ConfundoAddress\<close>: the client with the address it sends to, which \<^verbatim>\<open>recvfrom\<close> overwrites; \<open>ConfundoRedirect\<close>:
      a stranger who takes over an upload by that; \<open>ConfundoProperties\<close>: properties of one program alone.

  \<^bigskip>\<^bold>\<open>File upload\<close> (\<^verbatim>\<open>Project1\<close>). \<open>FileUpload\<close> has the copy loops of client and server thread, and the
  steps of the accepting loop and its threads on the variables they share; \<open>UploadRace\<close> two threads that
  were given the same connection and file; \<open>StdioFiles\<close> is the C \<^verbatim>\<open>FILE\<close>. Shared by all: \<open>Prelude\<close> (types, outcomes, memory, list lemmas), \<open>Systems\<close> (the locale of
  step relations that keep a property, interpreted for the router and for the server).

  \<open>StartUp\<close> has the \<^verbatim>\<open>main\<close> functions of these two programs and of Confundo, from the arguments
  to a socket, over a record of what the operating system answers.

  \<^bigskip>\<^bold>\<open>What stands for the world.\<close> The host is little-endian with 64-bit pointers
  (\<^verbatim>\<open>sizeof(std::vector)\<close> is 24). \<^verbatim>\<open>inet_aton\<close> is a parameter. A clock reading is an argument: \<open>clk i\<close>
  is the \<open>i\<close>-th reading of a call or of a pass of a loop, and nothing is assumed about it unless a
  theorem says so. What system calls return is given pass by pass; frames, datagrams and output
  lines are collected in lists. Ice turns an exception of a servant into an error of its caller; one
  that leaves the timer thread ends the process. Frames are handled one
  after the other; the timer may run between two accesses of a handler to the cache,
  and during \<^verbatim>\<open>sendPendingPackets\<close>, which takes no lock; the steps of these two are atomic, a data race
  alone is not counted as undefined behaviour. A write to an open \<^verbatim>\<open>std::ofstream\<close> finds room on the device
  (\<open>StdioFiles\<close> and \<open>UploadRace\<close> have devices that are full). A datagram is the bytes given to \<^verbatim>\<open>sendto\<close>;
  no call asks for more than the 524 bytes of a packet. The handlers leave out the calls of \<^verbatim>\<open>print_hdrs\<close>,
  proved harmless. \<^verbatim>\<open>std::ofstream::write\<close> with a negative count sets the error bit, as in libstdc++;
  \<^verbatim>\<open>select\<close> writes the remaining time back, as on Linux; addresses of UDP clients are IPv4.

  \<^bigskip>\<^bold>\<open>Loops and bounds.\<close> Loops over data are structural recursion or have a termination proof;
  loops over input are functions of the finite list of their passes and say when the list ended
  first. No fuel is used. Files are at most 90054 bytes in theorems on whole uploads, where no
  sequence number repeats or is zero (the number bounced \<open>SYN\<close>s and fresh replies carry), and at
  most 102400 for the receiver alone; \<open>late_segment_stored\<close> shows what happens beyond.

  \<^bigskip>\<^bold>\<open>Not modelled.\<close> The Ice runtime and its adapters; logging; scripts, the Wireshark dissector, captures. A transfer cannot be finished from every
  reachable state (\<open>upload_livelock\<close>); it is shown to be possible from those before the first
  timeout in which no acknowledgement is missing (\<open>data_loss_recovers\<close>), not for those after one.
\<close>

section \<open>Transit traffic\<close>

text \<open>C1: A valid IPv4 frame in transit with a time to live other than 1, whose destination and next hop
  are known, leaves exactly once, on the interface of its route, addressed to the next hop from that
  interface, with a time to live one lower modulo 256 and a checksum that verifies; no other byte
  changes, and the sender is in the cache afterwards. (A time to live of 1 is \<open>time_exceeded\<close>. One
  of 0 leaves as 255, \<open>ttl_zero_forwarded\<close>, although a comment in the code asks for a time-exceeded
  message when the decremented value is 0 or less.)\<close>

theorem forward_transit:
  assumes "router_ready s" and "findIfaceByName (m_ifaces s) inIface = Some inI" and "valid_ip_frame p"
    and "findIfaceByIp (m_ifaces s) (u32_at 30 p) = None" and "p ! 22 \<noteq> 1"
    and "rt_lookup (m_routingTable s) (u32_at 30 p) = Inr e"
    and "findIfaceByName (m_ifaces s) (rt_ifName e) = Some out"
    and "arp_mac (m_arp s) (u32_at 30 p) = Some d"
    and "arp_mac (m_arp s) (if rt_dest e = 0 then u32_at 30 p else rt_dest e) = Some mac"
  shows "\<exists>s' frame. handlePacket clk p inIface s = Done () s' \<and>
    sent s' = sent s @ [(frame, rt_ifName e)] \<and> relayed p mac (if_addr out) frame \<and>
    arp_mac (m_arp s') (u32_at 26 p) \<noteq> None"
  by (rule handlePacket_forward [OF assms, of clk]) (auto simp: learnt_known)

theorem forward_transit_witness:
  "\<exists>s' frame. handlePacket (\<lambda>_. 0) transit_frame ''sw0-eth3'' example_router = Done () s' \<and>
    sent s' = sent example_router @ [(frame, rt_ifName (server1_route (- 1)))] \<and>
    relayed transit_frame server1_mac (if_addr iface1) frame \<and>
    arp_mac (m_arp s') (u32_at 26 transit_frame) \<noteq> None"
  by (rule forward_transit [OF example_ready]) simp_all

text \<open>A valid IPv4 frame in transit to an address that is not in the cache is appended, as it
  arrived, to the packets waiting for that address, under the interface whose hardware address
  it was sent to; nothing is sent and nothing else that waits changes.\<close>

theorem transit_queued:
  assumes "router_ready s" and "findIfaceByName (m_ifaces s) inIface = Some inI" and "valid_ip_frame p"
    and "findIfaceByIp (m_ifaces s) (u32_at 30 p) = None" and "p ! 22 \<noteq> 1"
    and "arp_mac (m_arp s) (u32_at 30 p) = None" and "u32_at 26 p \<noteq> u32_at 30 p"
    and "findIfaceByMac (m_ifaces s) (chunk 0 6 p) = Some j"
  shows "\<exists>s'. handlePacket clk p inIface s = Done () s' \<and> sent s' = sent s \<and>
    pending (m_arp s') = (pending (m_arp s))(u32_at 30 p :=
      pending (m_arp s) (u32_at 30 p) @ [\<lparr>pp_packet = p, pp_iface = if_name j\<rparr>])"
proof -
  have p: "34 \<le> length p" using assms(3) by (simp add: valid_ip_frame_def)
  have "arp_inv (m_arp (received clk p inIface s))"
    using router_ready_received [OF assms(1) p, of clk inIface] unfolding router_ready_def router_inv_def by blast
  note q = queue.waiting_enqueue [OF this, where p = "\<lparr>pp_packet = p, pp_iface = if_name j\<rparr>"]
  have "pending (m_arp (received clk p inIface s)) = pending (m_arp s)"
    by (simp add: pending_learn)
  with q p show ?thesis by (simp add: handlePacket_queue [OF assms])
qed

theorem transit_queued_witness:
  "\<exists>s'. handlePacket (\<lambda>_. 0) server2_frame ''sw0-eth3'' example_router = Done () s' \<and>
    sent s' = sent example_router \<and>
    pending (m_arp s') = (pending (m_arp example_router))(u32_at 30 server2_frame :=
      pending (m_arp example_router) (u32_at 30 server2_frame) @
        [\<lparr>pp_packet = server2_frame, pp_iface = if_name iface3\<rparr>])"
  by (rule transit_queued [OF example_ready]) simp_all

text \<open>A frame whose IP checksum does not verify is dropped: nothing is sent, learnt or queued.\<close>

theorem bad_checksum_dropped:
  assumes "router_ready s" and "findIfaceByName (m_ifaces s) inIface = Some inI"
    and "34 \<le> length p" and "chunk 12 2 p = [0x08, 0x00]" and "\<not> ip_cksum_ok p"
  shows "handlePacket clk p inIface s = Done () (s\<lparr>temp_iface := inIface\<rparr>)"
  using assms by (simp add: handlePacket_known handleIpPacket_eq)

theorem bad_checksum_dropped_witness:
  "handlePacket (\<lambda>_. 0) (client_frame 0 64 17 172 196 [192, 168, 2, 2] udp_payload) ''sw0-eth3'' example_router =
    Done () (example_router\<lparr>temp_iface := ''sw0-eth3''\<rparr>)"
  by (rule bad_checksum_dropped [OF example_ready, where inI = iface3])
     (simp_all add: client_frame_fields client_frame_cksum be16_def)

text \<open>A time to live of zero is not stopped: the frame is relayed like any other and leaves
  with a time to live of 255.\<close>

theorem ttl_zero_forwarded:
  assumes "router_ready s" and "findIfaceByName (m_ifaces s) inIface = Some inI" and "valid_ip_frame p"
    and "findIfaceByIp (m_ifaces s) (u32_at 30 p) = None" and "p ! 22 = 0"
    and "rt_lookup (m_routingTable s) (u32_at 30 p) = Inr e"
    and "findIfaceByName (m_ifaces s) (rt_ifName e) = Some out"
    and "arp_mac (m_arp s) (u32_at 30 p) = Some d"
    and "arp_mac (m_arp s) (if rt_dest e = 0 then u32_at 30 p else rt_dest e) = Some mac"
  shows "\<exists>s' frame. handlePacket clk p inIface s = Done () s' \<and>
    sent s' = sent s @ [(frame, rt_ifName e)] \<and> frame ! 22 = 255"
proof -
  have "p ! 22 \<noteq> 1" using assms(5) by simp
  from handlePacket_forward [OF assms(1-4) this assms(6-9), of clk] obtain frame where
    "handlePacket clk p inIface s = Done () (sendPacket frame (rt_ifName e) (received clk p inIface s))"
    "relayed p mac (if_addr out) frame" .
  then show ?thesis using assms(5) by (simp add: relayed_def)
qed

theorem ttl_zero_forwarded_witness:
  "\<exists>s' frame. handlePacket (\<lambda>_. 0) dead_frame ''sw0-eth3'' example_router = Done () s' \<and>
    sent s' = sent example_router @ [(frame, rt_ifName (server1_route (- 1)))] \<and> frame ! 22 = 255"
  by (rule ttl_zero_forwarded [OF example_ready]) simp_all
section \<open>ICMP\<close>

text \<open>C19: A frame of at least 42 bytes in transit with a time to live of one, other than one that starts like an echo
  request, is answered with one time-exceeded message on the interface it came from: sent back
  to its sender from that interface, carrying the first 28 bytes of the packet, both checksums
  verifying, and with a total length field four less than that of the packet.\<close>

theorem time_exceeded:
  assumes "router_ready s" and "findIfaceByName (m_ifaces s) inIface = Some inI" and "valid_ip_frame p"
    and "42 \<le> length p" and "findIfaceByIp (m_ifaces s) (u32_at 30 p) = None" and "p ! 22 = 1" and "p ! 34 \<noteq> 8"
  shows "\<exists>s' frame. handlePacket clk p inIface s = Done () s' \<and> sent s' = sent s @ [(frame, inIface)] \<and>
    icmp_error_for p (if_addr inI) (if_ip inI) [0x0b, 0x00] frame"
  using received_error [OF assms(1,2,4,7), of "ethernet_hdr_of_bytes (chunk 0 14 p)" clk] assms(5,6)
  by (auto simp: handlePacket_ip [OF assms(1-3)] ip_decision_def)

theorem time_exceeded_witness:
  "\<exists>s' frame. handlePacket (\<lambda>_. 0) last_hop_frame ''sw0-eth3'' example_router = Done () s' \<and>
    sent s' = sent example_router @ [(frame, ''sw0-eth3'')] \<and>
    icmp_error_for last_hop_frame (if_addr iface3) (if_ip iface3) [0x0b, 0x00] frame"
  by (rule time_exceeded [OF example_ready]) simp_all

text \<open>C20: A UDP packet to an address of the router, in a frame of at least 42 bytes, is answered with one
  port-unreachable message from that address, unless the IP payload starts with the byte 8,
  as an echo request does: sent back to its sender on the interface it came from, carrying the
  first 28 bytes of the packet, both checksums verifying, and with a total length field four less
  than that of the packet.\<close>

theorem port_unreachable:
  assumes "router_ready s" and "findIfaceByName (m_ifaces s) inIface = Some inI" and "valid_ip_frame p"
    and "42 \<le> length p" and "findIfaceByIp (m_ifaces s) (u32_at 30 p) \<noteq> None" and "p ! 23 = 0x11" and "p ! 34 \<noteq> 8"
  shows "\<exists>s' frame. handlePacket clk p inIface s = Done () s' \<and> sent s' = sent s @ [(frame, inIface)] \<and>
    icmp_error_for p (if_addr inI) (u32_at 30 p) [0x03, 0x03] frame"
  using received_error [OF assms(1,2,4,7), of "ethernet_hdr_of_bytes (chunk 0 14 p)" clk] assms(5,6)
  by (auto simp: handlePacket_ip [OF assms(1-3)] ip_decision_def)

theorem port_unreachable_witness:
  "\<exists>s' frame. handlePacket (\<lambda>_. 0) udp_frame ''sw0-eth3'' example_router = Done () s' \<and>
    sent s' = sent example_router @ [(frame, ''sw0-eth3'')] \<and>
    icmp_error_for udp_frame (if_addr iface3) (u32_at 30 udp_frame) [0x03, 0x03] frame"
  by (rule port_unreachable [OF example_ready]) simp_all

text \<open>C21: An echo request to an address of the router is answered on the interface it came from with
  a reply of the same length: addresses exchanged, type zero, identifier, sequence number and
  data as they were, and 0xffff as the ICMP checksum whatever the message says.\<close>

theorem echo_answered:
  assumes "router_ready s" and "findIfaceByName (m_ifaces s) inIface = Some inI" and "valid_ip_frame p"
    and "38 \<le> length p" and "findIfaceByIp (m_ifaces s) (u32_at 30 p) \<noteq> None" and "p ! 23 = 1" and "p ! 34 = 8"
  shows "\<exists>s' frame. handlePacket clk p inIface s = Done () s' \<and> sent s' = sent s @ [(frame, inIface)] \<and>
    echo_answer p (if_addr inI) 0 frame"
  using received_echo [OF assms(1,2,4,7), of "ethernet_hdr_of_bytes (chunk 0 14 p)" 0 clk] assms(3,5,6)
  by (auto simp: handlePacket_ip [OF assms(1-3)] ip_decision_def valid_ip_frame_def)

theorem echo_answered_witness:
  "\<exists>s' frame. handlePacket (\<lambda>_. 0) echo_frame ''sw0-eth3'' example_router = Done () s' \<and>
    sent s' = sent example_router @ [(frame, ''sw0-eth3'')] \<and> echo_answer echo_frame (if_addr iface3) 0 frame"
  by (rule echo_answered [OF example_ready]) simp_all

text \<open>The IP checksum of an echo reply verifies exactly when the first byte of the checksum of the
  request is not zero: the code computes the new checksum over a header of which it has zeroed
  one byte of the two, and keeps one byte of the result.\<close>

theorem echo_ip_checksum:
  assumes "router_ready s" and "findIfaceByName (m_ifaces s) inIface = Some inI" and "valid_ip_frame p"
    and "38 \<le> length p" and "findIfaceByIp (m_ifaces s) (u32_at 30 p) \<noteq> None" and "p ! 23 = 1" and "p ! 34 = 8"
  shows "\<exists>s' frame. handlePacket clk p inIface s = Done () s' \<and> sent s' = sent s @ [(frame, inIface)] \<and>
    (ip_cksum_ok frame \<longleftrightarrow> p ! 24 \<noteq> 0)"
  using received_echo [OF assms(1,2,4,7), of "ethernet_hdr_of_bytes (chunk 0 14 p)" 0 clk] assms(3,5,6)
  by (auto simp: handlePacket_ip [OF assms(1-3)] ip_decision_def valid_ip_frame_def)

theorem echo_ip_checksum_witness:
  "\<exists>s' frame. handlePacket (\<lambda>_. 0) echo_frame_0 ''sw0-eth3'' example_router = Done () s' \<and>
    sent s' = sent example_router @ [(frame, ''sw0-eth3'')] \<and> (ip_cksum_ok frame \<longleftrightarrow> echo_frame_0 ! 24 \<noteq> 0)"
  by (rule echo_ip_checksum [OF example_ready]) simp_all

text \<open>An echo request in transit whose time to live runs out is not answered with a time-exceeded
  message: what comes back is the request itself with type 11, its own identifier and data where
  the header of the lost packet should be, and its own destination as the sender.\<close>

theorem echo_expired_misanswered:
  assumes "router_ready s" and "findIfaceByName (m_ifaces s) inIface = Some inI" and "valid_ip_frame p"
    and "38 \<le> length p" and "findIfaceByIp (m_ifaces s) (u32_at 30 p) = None" and "p ! 22 = 1" and "p ! 34 = 8"
  shows "\<exists>s' frame. handlePacket clk p inIface s = Done () s' \<and> sent s' = sent s @ [(frame, inIface)] \<and>
    echo_answer p (if_addr inI) 0x0b frame"
  using received_echo [OF assms(1,2,4,7), of "ethernet_hdr_of_bytes (chunk 0 14 p)" 1 clk] assms(3,5,6)
  by (auto simp: handlePacket_ip [OF assms(1-3)] ip_decision_def valid_ip_frame_def)

theorem echo_expired_misanswered_witness:
  "\<exists>s' frame. handlePacket (\<lambda>_. 0) expired_echo_frame ''sw0-eth3'' example_router = Done () s' \<and>
    sent s' = sent example_router @ [(frame, ''sw0-eth3'')] \<and>
    echo_answer expired_echo_frame (if_addr iface3) 0x0b frame"
  by (rule echo_expired_misanswered [OF example_ready]) simp_all
section \<open>ARP\<close>

text \<open>C22: An ARP request for an address of the router is answered on the interface that has the
  address, with a reply from that interface to the asker, and the asker is in the cache
  afterwards.\<close>

theorem arp_request_answered:
  assumes "router_ready s" and "findIfaceByName (m_ifaces s) inIface = Some inI"
    and "42 \<le> length p" and "chunk 12 2 p = [0x08, 0x06]" and "chunk 20 2 p = [0, 1]"
    and "findIfaceByIp (m_ifaces s) (u32_at 38 p) = Some mine"
  shows "\<exists>s'. handlePacket clk p inIface s = Done () s' \<and> sent s' = sent s @
      [(chunk 6 6 p @ if_addr mine @ chunk 12 8 p @ [0, 2] @ if_addr mine @ u32_bytes (if_ip mine) @
        chunk 22 6 p @ chunk 28 4 p, if_name mine)] \<and>
    arp_mac (m_arp s') (u32_at 28 p) \<noteq> None"
  using handlePacket_arp [OF assms(1-4), of clk] assms(5,6) by (simp add: learnt_known)

theorem arp_request_answered_witness:
  "\<exists>s'. handlePacket (\<lambda>_. 0) arp_query ''sw0-eth3'' example_router = Done () s' \<and> sent s' = sent example_router @
      [(chunk 6 6 arp_query @ if_addr iface3 @ chunk 12 8 arp_query @ [0, 2] @ if_addr iface3 @
        u32_bytes (if_ip iface3) @ chunk 22 6 arp_query @ chunk 28 4 arp_query, if_name iface3)] \<and>
    arp_mac (m_arp s') (u32_at 28 arp_query) \<noteq> None"
  by (rule arp_request_answered [OF example_ready]) simp_all

text \<open>C9: An ARP reply that brings a new address releases the packets that waited for it: they leave
  in the order in which they came, on the interface of the route to it, each with a new Ethernet
  header in front of the bytes that were queued (the time to live among them); nothing waits for
  the address any more, the packets that wait for others are untouched, and the cache has
  learnt exactly the new address.\<close>

theorem arp_reply_releases:
  assumes "router_ready s" and "findIfaceByName (m_ifaces s) inIface = Some inI"
    and "42 \<le> length p" and "chunk 12 2 p = [0x08, 0x06]" and "chunk 20 2 p = [0, 2]"
    and "arp_mac (m_arp s) (u32_at 28 p) = None"
    and "rt_lookup (m_routingTable s) (u32_at 28 p) = Inr e"
  shows "\<exists>s'. handlePacket clk p inIface s = Done () s' \<and>
    sent s' = sent s @ map (\<lambda>q. (chunk 22 6 p @ chunk 32 6 p @ [0x08, 0x00] @ drop 14 (pp_packet q), rt_ifName e))
      (pending (m_arp s) (u32_at 28 p)) \<and>
    pending (m_arp s') = (pending (m_arp s))(u32_at 28 p := []) \<and>
    arp_mac (m_arp s') = (arp_mac (m_arp s))(u32_at 28 p \<mapsto> chunk 6 6 p)"
  by (rule reply_releases [OF assms, of clk]) blast

theorem arp_reply_releases_witness:
  "\<exists>s'. handlePacket (\<lambda>_. 0) arp_answer ''sw0-eth2'' waiting_router = Done () s' \<and>
    sent s' = sent waiting_router @ map (\<lambda>q. (chunk 22 6 arp_answer @ chunk 32 6 arp_answer @ [0x08, 0x00] @
        drop 14 (pp_packet q), rt_ifName (server2_route (- 1))))
      (pending (m_arp waiting_router) (u32_at 28 arp_answer)) \<and>
    pending (m_arp s') = (pending (m_arp waiting_router))(u32_at 28 arp_answer := []) \<and>
    arp_mac (m_arp s') = (arp_mac (m_arp waiting_router))(u32_at 28 arp_answer \<mapsto> chunk 6 6 arp_answer)"
  by (rule arp_reply_releases [OF waiting_ready]) simp_all

text \<open>An ARP reply for an address that is already in the cache releases nothing: what waits for
  the address, if the cache learnt it from the source of another frame, keeps waiting.\<close>

theorem known_reply_releases_nothing:
  assumes "router_ready s" and "findIfaceByName (m_ifaces s) inIface = Some inI"
    and "42 \<le> length p" and "chunk 12 2 p = [0x08, 0x06]" and "chunk 20 2 p = [0, 2]"
    and "arp_mac (m_arp s) (u32_at 28 p) \<noteq> None"
  shows "handlePacket clk p inIface s = Done () (s\<lparr>temp_iface := inIface\<rparr>)"
  using handlePacket_arp [OF assms(1-4), of clk] assms(5,6) by auto

theorem known_reply_releases_nothing_witness:
  "handlePacket (\<lambda>_. 0) arp_answer ''sw0-eth2'' stuck_router = Done () (stuck_router\<lparr>temp_iface := ''sw0-eth2''\<rparr>) \<and>
   pending (m_arp stuck_router) (u32_at 28 arp_answer) \<noteq> []"
  using known_reply_releases_nothing [OF stuck_ready, of "''sw0-eth2''" iface2 arp_answer "\<lambda>_. 0"] by simp

section \<open>Delivery to a host that has to be asked for\<close>

text \<open>C3: Packets for a host whose hardware address is not known get through. Nothing waits for any
  host, and a first frame for this one (a valid IPv4
  frame in transit, sent to the router, with a time to live other than 1) starts a request; more frames for it and ticks of the timer may follow in any order, at most five ticks,
  more than a second apart; then the host answers. The router sends one ARP request per tick and,
  on the answer, all the frames in the order in which they came, to the address in the answer, on the
  interface of the route; nothing waits any more, and the address is in the cache.\<close>

theorem resolved_delivery:
  assumes "router_ready s" and "m_arpRequests (m_arp s) = []" and "arp_mac (m_arp s) ip = None"
    and "rt_lookup (m_routingTable s) ip = Inr e" and "frame_for (m_ifaces s) ip p inIface"
    and "\<forall>ev \<in> set evs. resolving (m_ifaces s) ip ev" and "spaced 0 (ticks_in evs)" and "length (ticks_in evs) \<le> 5"
    and "findIfaceByName (m_ifaces s) backIface = Some backI" and "42 \<le> length a"
    and "chunk 12 2 a = [0x08, 0x06]" and "chunk 20 2 a = [0, 2]" and "u32_at 28 a = ip"
  shows "\<exists>s'. router_does (HandlePacket clk p inIface # evs @ [HandlePacket clk' a backIface]) s s' \<and>
    sent s' = sent s @
      concat (replicate (length (ticks_in evs)) (request_frame (m_routingTable s) (m_ifaces s) ip)) @
      map (\<lambda>q. (chunk 22 6 a @ chunk 32 6 a @ [0x08, 0x00] @ drop 14 q, rt_ifName e)) (p # frames_in evs) \<and>
    pending (m_arp s') ip = [] \<and> arp_mac (m_arp s') ip = Some (chunk 6 6 a)"
  using assms by (rule resolved)

theorem resolved_delivery_witness:
  "\<exists>s'. router_does (HandlePacket (\<lambda>_. 0) server2_frame ''sw0-eth3'' #
        [Tick (\<lambda>_. seconds 2), HandlePacket (\<lambda>_. 0) server2_frame ''sw0-eth3''] @
        [HandlePacket (\<lambda>_. 0) arp_answer ''sw0-eth2'']) example_router s' \<and>
    map snd (sent s') = [''sw0-eth2'', ''sw0-eth2'', ''sw0-eth2'']"
proof -
  have frame: "frame_for (m_ifaces example_router) server2_ip server2_frame ''sw0-eth3''"
    by (simp add: frame_for_def example_router_fields)
  let ?evs = "[Tick (\<lambda>_. seconds 2), HandlePacket (\<lambda>_. 0) server2_frame ''sw0-eth3'']"
  have "m_arpRequests (m_arp example_router) = []" "arp_mac (m_arp example_router) server2_ip = None"
      "rt_lookup (m_routingTable example_router) server2_ip = Inr (server2_route (- 1))"
      "\<forall>ev \<in> set ?evs. resolving (m_ifaces example_router) server2_ip ev" "spaced 0 (ticks_in ?evs)" "length (ticks_in ?evs) \<le> 5"
      "findIfaceByName (m_ifaces example_router) ''sw0-eth2'' = Some iface2"
    using frame by (simp_all add: example_router_fields ticks_in_def) (auto intro: exI [of _ "seconds 2"])
  note facts = this
  have answer: "42 \<le> length arp_answer" "chunk 12 2 arp_answer = [0x08, 0x06]" "chunk 20 2 arp_answer = [0, 2]"
      "u32_at 28 arp_answer = server2_ip" by simp_all
  obtain s' where run: "router_does (HandlePacket (\<lambda>_. 0) server2_frame ''sw0-eth3'' # ?evs @
        [HandlePacket (\<lambda>_. 0) arp_answer ''sw0-eth2'']) example_router s'"
    and sent': "sent s' = sent example_router @ concat (replicate (length (ticks_in ?evs))
        (request_frame (m_routingTable example_router) (m_ifaces example_router) server2_ip)) @
      map (\<lambda>q. (chunk 22 6 arp_answer @ chunk 32 6 arp_answer @ [0x08, 0x00] @ drop 14 q, rt_ifName (server2_route (- 1))))
        (server2_frame # frames_in ?evs)"
    using resolved_delivery [OF example_ready facts(1-3) frame facts(4-7) answer, of "\<lambda>_. 0" "\<lambda>_. 0"] by blast
  have out: "map snd (sent s') = [''sw0-eth2'', ''sw0-eth2'', ''sw0-eth2'']"
    unfolding sent' by (simp add: example_router_fields ticks_in_def frames_in_def request_frame_def)
  show ?thesis by (rule exI [of _ s'], rule conjI, rule run, rule out)
qed

section \<open>Staying up\<close>

text \<open>C4: Whatever frames, resets and ticks arrive after start, also ticks during the handling of a
  frame, the running router keeps its invariant:
  the objects of the cache are distinct, no two requests ask for one address, no request has
  been sent more than five times or has nothing waiting, no two valid entries are for one
  address, every interface has the address configured for its name, and every frame ever sent
  is an IPv4 frame with its whole header or a 42-byte ARP frame.\<close>

theorem router_invariant:
  assumes "startup aton rtFile connected ifFile ports = Done True s" and "reachable (Running s) (Running s')"
  shows "router_inv s'"
  using startup_inv [of aton rtFile connected ifFile ports] reachable_inv [OF assms(2)] assms(1) by simp

theorem router_invariant_witness:
  "router_inv (router_init\<lparr>temp_iface := ''sw0-eth9''\<rparr>)"
proof (rule router_invariant)
  show "startup (\<lambda>_. Some 0) (Some []) True None [] = Done True router_init"
    by (simp add: startup_def loadRoutingTable_def rt_load_def loadIfconfig_def reset_def
        printIfaces_def router_init_def arp_clear_def arp_init_def fgets_lines.simps)
  have "router_step (HandlePacket (\<lambda>_. 0) transit_frame ''sw0-eth9'') (Running router_init)
      (Running (router_init\<lparr>temp_iface := ''sw0-eth9''\<rparr>))"
    by (rule router_step.packet) (simp add: handlePacket_def findIfaceByName_def router_init_def)
  then show "reachable (Running router_init) (Running (router_init\<lparr>temp_iface := ''sw0-eth9''\<rparr>))"
    by (rule reachable.later [OF reachable.here])
qed



section \<open>Two threads\<close>



text \<open>C5: The handler of a packet in transit asks the cache twice, without holding its mutex in between, and
  does not look at the second answer. Take a router with a default route and routes to single hosts,
  all over interfaces it has, and a valid IPv4 frame of at least 42 bytes, sent to the hardware address
  of one of its interfaces, with a time to live other than 1, in transit to a host in the cache. If
  the timer runs there when the entry of that host is more than thirty seconds old, a null pointer
  is dereferenced. For such a frame that place is the only one: whatever ticks come before its other
  accesses to the cache, it is handled without harm. (Without these conditions there is harm also
  without a tick: \<open>network_route_null_deref\<close>, \<open>broadcast_null_deref\<close>, \<open>unroutable_frame_terminates\<close>.)\<close>

theorem tick_between_lookups:
  assumes "router_inv s" and "config_ok s" and "findIfaceByName (m_ifaces s) inIface = Some inI"
    and "valid_ip_frame p" and "42 \<le> length p" and "chunk 0 6 p \<in> if_addr ` set (m_ifaces s)"
    and "findIfaceByIp (m_ifaces s) (u32_at 30 p) = None" and "p ! 22 \<noteq> 1"
    and "arp_lookup (m_arp s) (u32_at 30 p) = Some cached" and "SR_ARPCACHE_TO < clk' 0 - timeAdded cached"
  shows "handlePacket_ticks (send_during clk'' ths) (\<lambda>k. if k = 3 then [clk'] else []) clk p inIface s = Undef NullDeref \<and>
    (\<forall>ticks. ticks 3 = [] \<longrightarrow> unharmed (handlePacket_ticks (send_during clk'' ths) ticks clk p inIface s))"
proof (intro conjI allI impI)
  show "handlePacket_ticks (send_during clk'' ths) (\<lambda>k. if k = 3 then [clk'] else []) clk p inIface s = Undef NullDeref"
    by (rule interrupted_forward [OF assms(1-4,7-9), where clk' = clk']) (rule assms(10))
  fix ticks :: "nat \<Rightarrow> clock list"
  assume "ticks 3 = []"
  then show "unharmed (handlePacket_ticks (send_during clk'' ths) ticks clk p inIface s)"
    using handlePacket_ticks_cases [OF assms(1,2,5), of ticks clk inIface] assms(4,6) by (auto simp: valid_ip_frame_def)
qed

theorem tick_between_lookups_witness:
  "handlePacket_ticks (send_during (\<lambda>_. 0) []) (\<lambda>k. if k = 3 then [\<lambda>_. 30000000001] else []) (\<lambda>_. 29000000000) transit_frame ''sw0-eth3''
     example_router = Undef NullDeref"
proof -
  have inv: "router_inv example_router" and conf: "config_ok example_router"
    using example_ready example_config_ok by (simp_all add: router_ready_def example_router_def)
  have entry: "arp_lookup (m_arp example_router) (u32_at 30 transit_frame) = Some server1_entry"
    by (simp add: example_router_fields arp_lookup_def server1_entry_def)
  have old: "SR_ARPCACHE_TO < (\<lambda>_. 30000000001) (0 :: nat) - timeAdded server1_entry"
    by (simp add: SR_ARPCACHE_TO_def server1_entry_def)
  have own: "chunk 0 6 transit_frame \<in> if_addr ` set (m_ifaces example_router)"
    by (simp add: example_router_fields example_ifaces_def)
  have i: "findIfaceByName (m_ifaces example_router) ''sw0-eth3'' = Some iface3"
    and transit: "findIfaceByIp (m_ifaces example_router) (u32_at 30 transit_frame) = None"
    by (simp_all add: example_router_fields)
  show ?thesis
    using tick_between_lookups [where clk = "\<lambda>_. 29000000000" and clk' = "\<lambda>_. 30000000001", OF inv conf i _ _ own transit _ entry old] by simp
qed

text \<open>C25: A reset needs no more of the mutex than it takes: with ticks of the timer between its steps, from
  the clearing of the cache on, it ends as it does alone. And the handlers with room for ticks are,
  when none comes, the handlers.\<close>

theorem reset_atomic:
  "reset_ticks ticks ports s = finish (reset ports s) \<and>
   handlePacket_ticks (send_during clk' []) (\<lambda>_. []) clk p inIface s = finish (handlePacket clk p inIface s)"
  by (simp add: reset_ticks_eq handlePacket_no_ticks)

section \<open>What the configuration must exclude\<close>

text \<open>C38: When the matching route has a destination other than 0.0.0.0 that is not itself in the cache
  (a route to a network, as in the shipped table), forwarding a frame to a known host of that
  network dereferences a null pointer.\<close>

theorem network_route_null_deref:
  assumes "router_ready s" and "findIfaceByName (m_ifaces s) inIface = Some inI" and "valid_ip_frame p"
    and "findIfaceByIp (m_ifaces s) (u32_at 30 p) = None" and "p ! 22 \<noteq> 1"
    and "rt_lookup (m_routingTable s) (u32_at 30 p) = Inr e" and "rt_dest e \<noteq> 0"
    and "arp_mac (m_arp s) (u32_at 30 p) \<noteq> None" and "arp_mac (m_arp s) (rt_dest e) = None"
    and "u32_at 26 p \<noteq> rt_dest e"
  shows "handlePacket clk p inIface s = Undef NullDeref"
proof -
  let ?t = "received clk p inIface s"
  have p: "34 \<le> length p" using assms(3) by (simp add: valid_ip_frame_def)
  have "routes_ok s" using assms(1) by (simp add: router_ready_def)
  then obtain j where j: "findIfaceByName (m_ifaces s) (rt_ifName e) = Some j" "length (if_addr j) = 6"
    by (rule routes_ok_route [OF _ assms(6)])
  then have i: "findIfaceByName (m_ifaces ?t) (rt_ifName e) = Some j" "6 \<le> length (if_addr j)" by simp_all
  have r: "rt_lookup (m_routingTable ?t) (u32_at 30 p) = Inr e" using assms(6) by simp
  have none: "arp_mac (m_arp ?t) (rt_dest e) = None"
    using assms(9,10) by (simp add: arp.learn_def arp.lookup_insert_new)
  obtain d where "arp_mac (m_arp s) (u32_at 30 p) = Some d" using assms(8) by blast
  then have "arp_mac (m_arp ?t) (u32_at 30 p) \<noteq> None" by (simp add: arp.learn_keeps)
  then show ?thesis
    using forward_packet_no_hop [OF p r i assms(7) none] assms(4,5)
    by (simp add: handlePacket_ip [OF assms(1-3)] ip_decision_def)
qed

theorem network_route_null_deref_witness:
  "handlePacket (\<lambda>_. 0) neighbour_frame ''sw0-eth3'' shipped_router = Undef NullDeref"
  by (rule network_route_null_deref [OF shipped_ready, where inI = iface3 and e = "server1_route (le32 255 255 255 0)"])
     simp_all

text \<open>An IPv4 frame in transit to an unknown address that was not sent to the hardware address of an
  interface, such as a broadcast, dereferences a null pointer.\<close>

theorem broadcast_null_deref:
  assumes "router_ready s" and "findIfaceByName (m_ifaces s) inIface = Some inI" and "valid_ip_frame p"
    and "findIfaceByIp (m_ifaces s) (u32_at 30 p) = None" and "p ! 22 \<noteq> 1"
    and "arp_mac (m_arp s) (u32_at 30 p) = None" and "u32_at 26 p \<noteq> u32_at 30 p"
    and "findIfaceByMac (m_ifaces s) (chunk 0 6 p) = None"
  shows "handlePacket clk p inIface s = Undef NullDeref"
proof -
  have "arp_mac (m_arp (received clk p inIface s)) (u32_at 30 p) = None"
    using assms(6,7) by (simp add: arp.learn_def arp.lookup_insert_new)
  then show ?thesis
    using assms(3-5,8)
    by (simp add: handlePacket_ip [OF assms(1-3)] ip_decision_def ether_hosts_at valid_ip_frame_def
        del: received_fields(5))
qed

theorem broadcast_null_deref_witness:
  "handlePacket (\<lambda>_. 0) broadcast_frame ''sw0-eth3'' example_router = Undef NullDeref"
  by (rule broadcast_null_deref [OF example_ready, where inI = iface3]) simp_all

text \<open>C39: Without a default route one frame ends the program: a frame in transit to an address that no
  route matches is queued all the same, and the next tick throws out of the timer thread.\<close>

theorem unroutable_frame_terminates:
  assumes "router_ready s" and "findIfaceByName (m_ifaces s) inIface = Some inI" and "valid_ip_frame p"
    and "findIfaceByIp (m_ifaces s) (u32_at 30 p) = None" and "p ! 22 \<noteq> 1"
    and "arp_mac (m_arp s) (u32_at 30 p) = None" and "u32_at 26 p \<noteq> u32_at 30 p"
    and "findIfaceByMac (m_ifaces s) (chunk 0 6 p) = Some j"
    and "m_arpRequests (m_arp s) = []" and "rt_lookup (m_routingTable s) (u32_at 30 p) = Inl m"
    and "seconds 1 < clk' 1"
  shows "\<exists>q. router_step (HandlePacket clk p inIface) (Running s) q \<and> router_step (Tick clk') q (Terminated m)"
proof -
  let ?t = "received clk p inIface s"
  let ?s = "?t\<lparr>m_arp := snd (queueRequest (u32_at 30 p) p (if_name j) (m_arp ?t))\<rparr>"
  have p: "34 \<le> length p" using assms(3) by (simp add: valid_ip_frame_def)
  note h = handlePacket_queue [OF assms(1-8), of clk]
  have inv: "router_inv ?s"
    using handlePacket_inv [of s clk p inIface] assms(1) by (simp add: h router_ready_def del: received_fields)
  have arp: "arp_inv (m_arp ?t)"
    using router_ready_received [OF assms(1) p, of clk inIface] unfolding router_ready_def router_inv_def by blast
  have "m_arpRequests (m_arp ?t) = []" using assms(9) by simp
  then have "find_request (m_arp ?t) (u32_at 30 p) = None" by (simp add: find_request_def del: received_fields)
  note q = queueRequest_new [OF arp this, of p "if_name j"]
  then have "m_arpRequests (m_arp ?s) =
      [(new_request (next_ptr (m_arp ?t)) (u32_at 30 p))\<lparr>packets := [\<lparr>pp_packet = p, pp_iface = if_name j\<rparr>]\<rparr>]"
    using \<open>m_arpRequests (m_arp ?t) = []\<close> by (simp del: received_fields)
  from ticker_unroutable [OF inv this, of clk' m] have "router_step (Tick clk') (Running ?s) (Terminated m)"
    using assms(10,11) by (simp add: new_request_def MAX_SENT_TIME_def)
  then show ?thesis using router_step.packet [OF h] by blast
qed

theorem unroutable_frame_terminates_witness:
  "\<exists>q. router_step (HandlePacket (\<lambda>_. 0) server2_frame ''sw0-eth3'') (Running sparse_router) q \<and>
     router_step (Tick (\<lambda>_. seconds 2)) q (Terminated ''Routing entry not found'')"
  by (rule unroutable_frame_terminates [OF sparse_ready, where inI = iface3 and j = iface3]) simp_all

section \<open>The timer\<close>

text \<open>C10: One tick of the timer, when every address asked for has a route: the cache keeps exactly its
  valid entries of at most 30 seconds; the requests are stepped in order, each one that is due
  broadcast again and counted, until one that has been sent five times is dropped with its
  packets, which ends the round; the frames sent are those broadcasts.\<close>

theorem tick_effect:
  assumes "router_inv s" and "routes_ok s" and "routable s (m_arpRequests (m_arp s))"
  shows "ticker_body clk s = Done ()
    (s\<lparr>m_arp := (m_arp s)\<lparr>m_cacheEntries := fresh_entries (clk 0) (m_cacheEntries (m_arp s)),
         m_arpRequests := tick_requests clk 1 (m_arpRequests (m_arp s))\<rparr>,
       sent := sent s @
         tick_frames (m_routingTable s) (m_ifaces s) clk 1 (m_arpRequests (m_arp s))\<rparr>)"
  using assms by (rule ticker_body_refines)

theorem tick_effect_witness:
  "ticker_body (\<lambda>_. seconds 31) waiting_router = Done ()
    (waiting_router\<lparr>m_arp := (m_arp waiting_router)\<lparr>m_cacheEntries := [],
         m_arpRequests := [server2_request\<lparr>timeSent := seconds 31, nTimesSent := 1\<rparr>]\<rparr>,
       sent := [(arp_request_bytes (iface_mac 2) iface2_ip server2_ip, ''sw0-eth2'')]\<rparr>)"
proof -
  have "routable waiting_router (m_arpRequests (m_arp waiting_router))"
    by (simp add: routable_def server2_request_def)
  from tick_effect [OF _ _ this, of "\<lambda>_. seconds 31"] show ?thesis
    using waiting_ready
    by (simp add: router_ready_def fresh_entries_def server1_entry_def SR_ARPCACHE_TO_def server2_request_def
        MAX_SENT_TIME_def request_frame_def)
qed

text \<open>C23: The queue drains: with every address routable and ticks more than a second apart, no more
  ticks than the requests have rounds left (six for a new one) leave it empty.\<close>

theorem queue_drains:
  assumes "router_inv s" and "routes_ok s" and "routable s (m_arpRequests (m_arp s))"
    and "\<forall>r \<in> set (m_arpRequests (m_arp s)). timeSent r \<le> t" and "spaced t clks"
    and "rounds_left (m_arpRequests (m_arp s)) \<le> length clks"
  shows "\<exists>s'. run_ticks clks s = Done () s' \<and> m_arpRequests (m_arp s') = []"
  using assms by (rule run_ticks_drain)

theorem queue_drains_witness:
  "\<exists>s'. run_ticks example_ticks waiting_router = Done () s' \<and>
     m_arpRequests (m_arp s') = []"
  by (rule queue_drains [where t = 0])
     (use waiting_ready in \<open>simp_all add: router_ready_def routable_def server2_request_def rounds_left_def\<close>)

text \<open>C24: An address that never answers is asked for exactly five times: a new request alone in the queue
  is broadcast at each of five ticks and dropped at the sixth.\<close>

theorem five_requests:
  assumes "router_inv s" and "routes_ok s" and "routable s [r]" and "m_arpRequests (m_arp s) = [r]"
    and "nTimesSent r = 0" and "timeSent r \<le> t" and "spaced t clks" and "length clks = 6"
  shows "\<exists>s'. run_ticks clks s = Done () s' \<and> m_arpRequests (m_arp s') = [] \<and>
    sent s' = sent s @ concat (replicate 5 (request_frame (m_routingTable s) (m_ifaces s) (ar_ip r)))"
  using run_ticks_single [OF assms(1-4,6,7)] assms(5,8) by simp

theorem five_requests_witness:
  "\<exists>s'. run_ticks example_ticks waiting_router = Done () s' \<and>
     m_arpRequests (m_arp s') = [] \<and> sent s' = sent waiting_router @
       concat (replicate 5 (request_frame (m_routingTable waiting_router) (m_ifaces waiting_router) (ar_ip server2_request)))"
  by (rule five_requests [where t = 0])
     (use waiting_ready in \<open>simp_all add: router_ready_def routable_def server2_request_def\<close>)

section \<open>The file transfer of Confundo\<close>

text \<open>C6: A network that loses, repeats, delays and reorders datagrams cannot damage the upload of a file
  of at most 90054 bytes, and neither can others who send to the same server what \<open>foreign\<close> allows:
  SYNs with acknowledgement number zero (from the client's own address only with the sequence number the
  program uses), and packets for connections that are neither this one nor belong to the same
  address. Whatever state a client that has just shaken hands and the server reach, the server's file is
  a prefix of the client's; and in whatever state the client ends its transfer, on whatever reply of
  the server, the server holds the whole file. (Beyond 102400 bytes a late datagram can damage a
  file, \<open>late_segment_stored\<close>.)\<close>

theorem upload_complete:
  assumes "established file_dir i A file c\<^sub>0 s\<^sub>0" and "reaches can_open file_dir i A c\<^sub>0 s\<^sub>0 c s"
  shows "(\<exists>m \<le> length file. server_files s (file_path file_dir i) = Some (take m file)) \<and>
    (\<forall>clk reply c'. reply_from A s reply \<longrightarrow> transfer_pass clk reply c = Stop c' \<longrightarrow>
      server_files s (file_path file_dir i) = Some file)"
proof -
  obtain m where m: "client_side i file m c" "server_side file_dir i A file m s"
    by (rule reaches_inv [OF assms(2,1)])
  have s: "server_files s (file_path file_dir i) = Some (take m file)" "m \<le> length file" "replies_ok m A s"
    using m(2) by (auto simp: server_side_def conn_valid_def stored_file_def)
  have len: "length file \<le> 90054" using assms(1) by (simp add: established_def)
  have "m = length file" if "reply_from A s reply" "transfer_pass clk reply c = Stop c'" for clk reply c'
    using client_side_pass(2) [OF m(1) that(1) s(3,2) len that(2)] .
  with s(1,2) show ?thesis by auto
qed

lemma abc_established:
  obtains c where "established ''/save'' 0 client_A abc c one_client" and "CWND_logs c = []" and "CWND_space c > 0"
    and "timeout_check c = 0" and "infile c = ifstream_open abc" and "window_ok c" and "flight_ok c"
proof -
  have d: "duration_seconds (0 - 0) < 10" by (simp add: duration_seconds_def)
  have le: "length abc \<le> 90054" by (simp add: abc_def)
  obtain c where c: "established ''/save'' 0 client_A abc c one_client" "CWND_space c = 2" "CWND_logs c = []"
      "timeout_check c = 0" "infile c = ifstream_open abc" "CWND c = 1024" "SS_THRESH c = 10000"
    unfolding one_client_def
    by (rule handshake_establishes [where can_open = "\<lambda>_. True" and l = 16 and n = 0 and t\<^sub>2 = 0,
          OF start_server_inv _ _ _ client_A_family _ d le zero_packet_wf])
      (auto simp: start_server_def server_init_def no_connection_def replies_in_def)
  then show ?thesis by (intro that [of c]) (simp_all add: window_ok_def flight_ok_def)
qed

theorem upload_complete_witness:
  "\<exists>c\<^sub>0 c s reply c'. reaches (\<lambda>_. True) ''/save'' 0 client_A c\<^sub>0 one_client c s \<and> reply_from client_A s reply \<and>
    transfer_pass (\<lambda>_. 0) reply c = Stop c' \<and> server_files s (file_path ''/save'' 0) = Some abc"
proof -
  obtain c\<^sub>0 where e: "established ''/save'' 0 client_A abc c\<^sub>0 one_client" "CWND_logs c\<^sub>0 = []" "CWND_space c\<^sub>0 > 0"
      "timeout_check c\<^sub>0 = 0" "infile c\<^sub>0 = ifstream_open abc" by (rule abc_established)
  from transfer_can_finish [OF e] obtain c s reply c' where
    r: "reaches (\<lambda>_. True) ''/save'' 0 client_A c\<^sub>0 one_client c s" "reply_from client_A s reply"
      "transfer_pass (\<lambda>_. 0) reply c = Stop c'" by blast
  from upload_complete [OF e(1) r(1)] r show ?thesis by blast
qed

text \<open>C7: A client at an IPv4 address to which the server has never sent anything can upload a file of at
  most 90054 bytes in one session of the whole program, when the server has a free connection that
  no FIN has closed and can open its file: there is a run in which the SYN is answered, the transfer
  ends with the whole file on the server, in the file of the connection, the FIN closes the connection,
  and the program returns after its last acknowledgement.\<close>

theorem session_possible:
  assumes "server_inv file_dir k s" and "k < 10" and "is_FIN (all_connection s ! k) = 0"
    and "can_open (file_path file_dir k)" and "sa_family A = AF_INET"
    and "\<forall>(d, a, l) \<in> set (server_sent s). a \<noteq> A" and "length file \<le> 90054" and "packet_wf stack"
  shows "let s\<^sub>0 = serve_one can_open file_dir (Datagram syn_datagram A 16) s in
    \<exists>syn_reply c c\<^sub>0 ps c\<^sub>1 s\<^sub>1 reply s\<^sub>2 a f c\<^sub>2. (syn_reply, A, 16) \<in> set (server_sent s\<^sub>0) \<and>
      handshake 0 [(0, [Some syn_reply], 0)] client_init = Stop c \<and> open_transfer stack (Some file) c = Next c\<^sub>0 \<and>
      exchange can_open file_dir k A c\<^sub>0 s\<^sub>0 ps c\<^sub>1 s\<^sub>1 \<and> reply_from A s\<^sub>1 reply \<and>
      (\<exists>fin \<in> set (client_sent c\<^sub>2). s\<^sub>2 = serve_one can_open file_dir (Datagram fin A 16) s\<^sub>1) \<and>
      map fst (server_sent s\<^sub>2) = map fst (server_sent s\<^sub>1) @ [a, f] \<and>
      client_session 0 [(0, [Some syn_reply], 0)] stack (Some file) (ps @ [(\<lambda>_. 0, reply)])
        0 0 [(\<lambda>_. 0, Some a), (\<lambda>_. 0, Some f), (\<lambda>_. seconds 2, None)] = Stop c\<^sub>2 \<and>
      server_files s\<^sub>2 (file_path file_dir k) = Some file \<and> conn_closed k s\<^sub>2"
proof -
  have d: "duration_seconds (0 - 0) < 10" by (simp add: duration_seconds_def)
  have ok: "replies_ok 0 A s" using assms(6) by (auto simp: replies_in_def)
  let ?s = "serve_one can_open file_dir (Datagram syn_datagram A 16) s"
  obtain c syn_reply c\<^sub>0 where c: "(syn_reply, A, 16) \<in> set (server_sent ?s)"
      "handshake 0 [(0, replicate 0 None @ [Some syn_reply], 0)] client_init = Stop c"
      "open_transfer stack (Some file) c = Next c\<^sub>0" "established file_dir k A file c\<^sub>0 ?s" "CWND_space c\<^sub>0 = 2"
      "CWND_logs c\<^sub>0 = []" "timeout_check c\<^sub>0 = 0" "infile c\<^sub>0 = ifstream_open file"
    by (rule handshake_establishes [where can_open = can_open and l = 16 and n = 0 and t\<^sub>2 = 0,
          OF assms(1-5) ok d assms(7,8)]) blast
  have "CWND_space c\<^sub>0 > 0" using c(5) by simp
  from transfer_can_finish [OF c(4,6) this c(7,8), of can_open] obtain c\<^sub>1 s\<^sub>1 reply c' where
    r: "reaches can_open file_dir k A c\<^sub>0 ?s c\<^sub>1 s\<^sub>1" "reply_from A s\<^sub>1 reply" "transfer_pass (\<lambda>_. 0) reply c\<^sub>1 = Stop c'"
    by blast
  obtain ps where ps: "exchange can_open file_dir k A c\<^sub>0 ?s ps c\<^sub>1 s\<^sub>1" using r(1) by (auto simp: reaches_exchange)
  obtain m where m: "client_side k file m c\<^sub>1" "server_side file_dir k A file m s\<^sub>1" by (rule reaches_inv [OF r(1) c(4)])
  note fin = transfer_ends [OF m r(2) assms(7) r(3)]
  obtain n where inv: "server_inv file_dir n s\<^sub>1" "k < n" using m(2) by (auto simp: server_side_def conn_valid_def)
  let ?c = "client.truncate c'"
  let ?fin = "fin_datagram (seq_num ?c) (of_nat (Suc k))"
  let ?s2 = "serve_one can_open file_dir (Datagram ?fin A 16) s\<^sub>1"
  have next_seq: "expected_seq k s\<^sub>1 = seq_num ?c" and id: "ucast (id_num ?c) = (of_nat (Suc k) :: u16)" using fin by simp_all
  obtain a f c\<^sub>2 where e: "map fst (server_sent ?s2) = map fst (server_sent s\<^sub>1) @ [a, f]"
      "ending 0 0 [(\<lambda>_. 0, Some a), (\<lambda>_. 0, Some f), (\<lambda>_. seconds 2, None)] ?c = Stop c\<^sub>2"
      "?fin \<in> set (client_sent c\<^sub>2)" "conn_closed k ?s2" "server_files ?s2 = server_files s\<^sub>1"
    using fin_closes_session [OF inv next_seq id, of "\<lambda>_. 0" 0 0 "\<lambda>_. 0" "\<lambda>_. seconds 2" can_open A 16]
    by (auto simp: duration_seconds_def Let_def)
  have "client_session 0 [(0, [Some syn_reply], 0)] stack (Some file) (ps @ [(\<lambda>_. 0, reply)])
      0 0 [(\<lambda>_. 0, Some a), (\<lambda>_. 0, Some f), (\<lambda>_. seconds 2, None)] = Stop c\<^sub>2"
    using session_run [OF _ c(3) ps r(3)] c(2) e(2) by simp
  with c(1-3) ps r(2) e fin(1) show ?thesis unfolding Let_def by simp metis
qed

theorem session_possible_witness:
  "\<exists>rounds passes closing c\<^sub>2 s\<^sub>2. client_session 0 rounds zero_packet (Some abc) passes 0 0 closing = Stop c\<^sub>2 \<and>
    server_files s\<^sub>2 (file_path ''/save'' 0) = Some abc \<and> conn_closed 0 s\<^sub>2"
proof -
  have le: "length abc \<le> 90054" by (simp add: abc_def)
  have fin: "is_FIN (all_connection start_server ! 0) = 0"
    by (simp add: start_server_def server_init_def no_connection_def)
  from session_possible [where can_open = "\<lambda>_. True", OF start_server_inv _ fin _ client_A_family _ le zero_packet_wf]
  show ?thesis by (simp add: Let_def) blast
qed

text \<open>The transfer alone, from the handshake to the moment the client leaves its loop.\<close>

theorem upload_possible:
  assumes "server_inv file_dir k s" and "k < 10" and "is_FIN (all_connection s ! k) = 0"
    and "can_open (file_path file_dir k)" and "sa_family A = AF_INET"
    and "\<forall>(d, a, l) \<in> set (server_sent s). a \<noteq> A" and "length file \<le> 90054" and "packet_wf stack"
  shows "let s\<^sub>0 = serve_one can_open file_dir (Datagram syn_datagram A 16) s in
    \<exists>reply\<^sub>0 c c\<^sub>0. (reply\<^sub>0, A, 16) \<in> set (server_sent s\<^sub>0) \<and>
      handshake 0 [(0, [Some reply\<^sub>0], 0)] client_init = Stop c \<and> open_transfer stack (Some file) c = Next c\<^sub>0 \<and>
      (\<exists>c\<^sub>1 s\<^sub>1 reply\<^sub>1 c\<^sub>2. reaches can_open file_dir k A c\<^sub>0 s\<^sub>0 c\<^sub>1 s\<^sub>1 \<and> reply_from A s\<^sub>1 reply\<^sub>1 \<and>
        transfer_pass (\<lambda>_. 0) reply\<^sub>1 c\<^sub>1 = Stop c\<^sub>2 \<and> server_files s\<^sub>1 (file_path file_dir k) = Some file)"
proof -
  have d: "duration_seconds (0 - 0) < 10" by (simp add: duration_seconds_def)
  have ok: "replies_ok 0 A s" using assms(6) by (auto simp: replies_in_def)
  let ?s = "serve_one can_open file_dir (Datagram syn_datagram A 16) s"
  obtain c reply c\<^sub>0 where c: "(reply, A, 16) \<in> set (server_sent ?s)"
      "handshake 0 [(0, replicate 0 None @ [Some reply], 0)] client_init = Stop c"
      "open_transfer stack (Some file) c = Next c\<^sub>0" "established file_dir k A file c\<^sub>0 ?s" "CWND_space c\<^sub>0 = 2"
      "CWND_logs c\<^sub>0 = []" "timeout_check c\<^sub>0 = 0" "infile c\<^sub>0 = ifstream_open file"
    by (rule handshake_establishes [where can_open = can_open and l = 16 and n = 0 and t\<^sub>2 = 0,
          OF assms(1-5) ok d assms(7,8)]) blast
  have "CWND_space c\<^sub>0 > 0" using c(5) by simp
  from transfer_can_finish [OF c(4,6) this c(7,8), of can_open] obtain c\<^sub>1 s\<^sub>1 reply\<^sub>1 c\<^sub>2 where
    r: "reaches can_open file_dir k A c\<^sub>0 ?s c\<^sub>1 s\<^sub>1" "reply_from A s\<^sub>1 reply\<^sub>1" "transfer_pass (\<lambda>_. 0) reply\<^sub>1 c\<^sub>1 = Stop c\<^sub>2"
    by blast
  obtain m where m: "client_side k file m c\<^sub>1" "server_side file_dir k A file m s\<^sub>1" by (rule reaches_inv [OF r(1) c(4)])
  then have f: "server_files s\<^sub>1 (file_path file_dir k) = Some (take m file)" "m \<le> length file" "replies_ok m A s\<^sub>1"
    by (auto simp: server_side_def conn_valid_def stored_file_def)
  have "server_files s\<^sub>1 (file_path file_dir k) = Some file"
    using client_side_pass(2) [OF m(1) r(2) f(3,2) assms(7) r(3)] f(1) by simp
  with c(1-3) r show ?thesis by (simp add: Let_def) blast
qed

theorem upload_possible_witness:
  "\<exists>c\<^sub>0 c\<^sub>1 s\<^sub>1 reply\<^sub>1 c\<^sub>2. reaches (\<lambda>_. True) ''/save'' 0 client_A c\<^sub>0 one_client c\<^sub>1 s\<^sub>1 \<and>
    transfer_pass (\<lambda>_. 0) reply\<^sub>1 c\<^sub>1 = Stop c\<^sub>2 \<and> server_files s\<^sub>1 (file_path ''/save'' 0) = Some abc"
proof -
  have le: "length abc \<le> 90054" by (simp add: abc_def)
  have fin: "is_FIN (all_connection start_server ! 0) = 0"
    by (simp add: start_server_def server_init_def no_connection_def)
  from upload_possible [where can_open = "\<lambda>_. True", OF start_server_inv _ fin _ client_A_family _ le zero_packet_wf]
  show ?thesis by (simp add: one_client_def Let_def) blast
qed

text \<open>C27: An upload may never end although the network recovers. For every file of more than 3072 and at
  most 90054 bytes, and a client at an IPv4 address the server has never sent to that gets a
  free connection no FIN has closed and whose file can be opened, there is a run, from the handshake, to a state in which the server has the first 3072
  bytes; if what is then on its way is lost, then whatever happens afterwards (as in \<open>upload_complete\<close>) the server never gets another
  byte of it and the client never leaves its loop: it has no space in its window, takes no acknowledgement
  that is not exactly the one of a packet in its log, and goes on as long as the server answers.\<close>

theorem upload_livelock:
  assumes "server_inv file_dir k s" and "k < 10" and "is_FIN (all_connection s ! k) = 0"
    and "can_open (file_path file_dir k)" and "sa_family A = AF_INET"
    and "\<forall>(d, a, l) \<in> set (server_sent s). a \<noteq> A" and "3072 < length file" and "length file \<le> 90054" and "packet_wf stack"
  shows "let s\<^sub>0 = serve_one can_open file_dir (Datagram syn_datagram A 16) s in
    \<exists>reply\<^sub>0 c c\<^sub>0 c\<^sub>1 s\<^sub>1. (reply\<^sub>0, A, 16) \<in> set (server_sent s\<^sub>0) \<and>
      handshake 0 [(0, [Some reply\<^sub>0], 0)] client_init = Stop c \<and> open_transfer stack (Some file) c = Next c\<^sub>0 \<and>
      reaches can_open file_dir k A c\<^sub>0 s\<^sub>0 c\<^sub>1 s\<^sub>1 \<and>
      (\<forall>c\<^sub>2 s\<^sub>2. reaches can_open file_dir k A (c\<^sub>1\<lparr>client_sent := []\<rparr>) (s\<^sub>1\<lparr>server_sent := []\<rparr>) c\<^sub>2 s\<^sub>2 \<longrightarrow>
        server_files s\<^sub>2 (file_path file_dir k) = Some (take 3072 file) \<and>
        (\<forall>clk reply c\<^sub>3. reply_from A s\<^sub>2 reply \<longrightarrow> transfer_pass clk reply c\<^sub>2 \<noteq> Stop c\<^sub>3 \<and>
          (reply \<noteq> None \<longrightarrow> (\<exists>c\<^sub>3. transfer_pass clk reply c\<^sub>2 = Next c\<^sub>3))))"
proof -
  have d: "duration_seconds (0 - 0) < 10" by (simp add: duration_seconds_def)
  have ok: "replies_ok 0 A s" using assms(6) by (auto simp: replies_in_def)
  let ?s = "serve_one can_open file_dir (Datagram syn_datagram A 16) s"
  obtain c reply c\<^sub>0 where c: "(reply, A, 16) \<in> set (server_sent ?s)"
      "handshake 0 [(0, replicate 0 None @ [Some reply], 0)] client_init = Stop c"
      "open_transfer stack (Some file) c = Next c\<^sub>0"
      and e: "established file_dir k A file c\<^sub>0 ?s" "CWND_logs c\<^sub>0 = []" "CWND_space c\<^sub>0 = 2" "CWND c\<^sub>0 = 1024"
      "SS_THRESH c\<^sub>0 = 10000" "timeout_check c\<^sub>0 = 0" "infile c\<^sub>0 = ifstream_open file"
    by (rule handshake_establishes [where can_open = can_open and l = 16 and n = 0 and t\<^sub>2 = 0,
          OF assms(1-5) ok d assms(8,9)]) blast
  obtain c\<^sub>1 s\<^sub>1 where r: "reaches can_open file_dir k A c\<^sub>0 ?s c\<^sub>1 s\<^sub>1" "stuck_client k file 3072 c\<^sub>1"
      "server_side file_dir k A file 3072 s\<^sub>1"
    using livelock_reached [OF e] assms(7) by (metis less_imp_le)
  have "server_files s\<^sub>2 (file_path file_dir k) = Some (take 3072 file) \<and>
      (reply_from A s\<^sub>2 reply \<longrightarrow> transfer_pass clk reply c\<^sub>2 \<noteq> Stop c\<^sub>3 \<and>
        (reply \<noteq> None \<longrightarrow> (\<exists>c\<^sub>3. transfer_pass clk reply c\<^sub>2 = Next c\<^sub>3)))"
    if "reaches can_open file_dir k A (c\<^sub>1\<lparr>client_sent := []\<rparr>) (s\<^sub>1\<lparr>server_sent := []\<rparr>) c\<^sub>2 s\<^sub>2" for c\<^sub>2 s\<^sub>2 clk reply c\<^sub>3
  proof -
    note l = livelocked_reaches [OF that livelocked_lost [OF r(2,3) assms(8)]]
    have "server_files s\<^sub>2 (file_path file_dir k) = Some (take 3072 file)"
      using l by (auto simp: livelocked_def server_side_def conn_valid_def stored_file_def)
    then show ?thesis using livelocked_pass(2,3) [OF l] by blast
  qed
  with c r(1) show ?thesis unfolding Let_def by (intro exI [of _ reply] exI [of _ c] exI [of _ c\<^sub>0] exI [of _ c\<^sub>1] exI [of _ s\<^sub>1]) simp
qed

theorem upload_livelock_witness:
  "\<exists>c\<^sub>0 c\<^sub>1 s\<^sub>1. reaches (\<lambda>_. True) ''/save'' 0 client_A c\<^sub>0 one_client c\<^sub>1 s\<^sub>1 \<and>
    (\<forall>c\<^sub>2 s\<^sub>2. reaches (\<lambda>_. True) ''/save'' 0 client_A (c\<^sub>1\<lparr>client_sent := []\<rparr>) (s\<^sub>1\<lparr>server_sent := []\<rparr>) c\<^sub>2 s\<^sub>2 \<longrightarrow>
      server_files s\<^sub>2 (file_path ''/save'' 0) = Some (replicate 3072 7))"
proof -
  have fin: "is_FIN (all_connection start_server ! 0) = 0"
    by (simp add: start_server_def server_init_def no_connection_def)
  have len: "3072 < length (replicate 4000 7 :: buffer)" "length (replicate 4000 7 :: buffer) \<le> 90054" by simp_all
  from upload_livelock [where can_open = "\<lambda>_. True", OF start_server_inv _ fin _ client_A_family _ len zero_packet_wf]
  show ?thesis by (simp add: one_client_def Let_def) blast
qed

text \<open>C28: Lost data are recovered by going back. Start from a handshake for a file of at most 90054
  bytes, and take any state the client and the server reach by a run in which no packet was late: if the client has been told of everything the server stored
  and its oldest packet is late, and the ten seconds without an answer are not over, then
  everything on its way may be lost, and there is still a run that ends with the whole file on the
  server. (\<open>upload_livelock\<close> is such a loss with an acknowledgement that did not come through.)\<close>

theorem data_loss_recovers:
  assumes "established file_dir i A file c\<^sub>0 s\<^sub>0" and "CWND_logs c\<^sub>0 = []" and "infile c\<^sub>0 = ifstream_open file"
    and "CWND_space c\<^sub>0 > 0" and "window_ok c\<^sub>0" and "flight_ok c\<^sub>0"
    and "punctual can_open file_dir i A c\<^sub>0 s\<^sub>0 c s" and "length (stored_file file_dir i s) = unacked c"
    and "CWND_logs c \<noteq> [] \<Longrightarrow> \<not> in_time T c" and "duration_seconds (T - timeout_check c) < 10"
  shows "\<exists>c\<^sub>1 s\<^sub>1 reply c\<^sub>2. reaches can_open file_dir i A (c\<lparr>client_sent := []\<rparr>) (s\<lparr>server_sent := []\<rparr>) c\<^sub>1 s\<^sub>1 \<and>
    reply_from A s\<^sub>1 reply \<and> transfer_pass (\<lambda>_. T) reply c\<^sub>1 = Stop c\<^sub>2 \<and> server_files s\<^sub>1 (file_path file_dir i) = Some file"
proof -
  let ?c = "c\<lparr>client_sent := []\<rparr>" and ?s = "s\<lparr>server_sent := []\<rparr>"
  have len: "length file \<le> 90054" using assms(1) by (simp add: established_def)
  obtain m where m: "client_side i file m c" "server_side file_dir i A file m s"
    by (rule reaches_inv [OF punctual_reaches [OF assms(7)] assms(1)])
  then have u: "unacked c = m" using assms(8) by (simp add: server_side_def)
  have ord: "orderly file ?c" "unacked ?c = m"
    using orderly_lost [OF punctual_orderly [OF assms(7,1) orderly_start [OF assms(2-6)]]] u by simp_all
  have late: "\<not> in_time T ?c" if "CWND_logs ?c \<noteq> []" using that assms(9) by (simp add: in_time_def)
  have dur: "duration_seconds (T - timeout_check ?c) < 10" using assms(10) by simp
  note lost = client_side_lost [OF m(1)] server_side_lost [OF m(2)]
  from orderly_recovers [OF lost ord late dur len] obtain c' s' reply c'' where
    r: "reaches can_open file_dir i A ?c ?s c' s'" "reply_from A s' reply" "transfer_pass (\<lambda>_. T) reply c' = Stop c''"
    by blast
  obtain n where n: "client_side i file n c'" "server_side file_dir i A file n s'"
    by (rule reaches_from [OF r(1) lost len])
  note fin = transfer_ends [OF n r(2) len r(3)]
  show ?thesis using r fin(1) by blast
qed

theorem data_loss_recovers_witness:
  "\<exists>c\<^sub>0 c c\<^sub>1 s\<^sub>1 reply c\<^sub>2. transfer_pass (\<lambda>_. 0) None c\<^sub>0 = Next c \<and> infile c\<^sub>0 = ifstream_open abc \<and>
    reaches (\<lambda>_. True) ''/save'' 0 client_A (c\<lparr>client_sent := []\<rparr>) (one_client\<lparr>server_sent := []\<rparr>) c\<^sub>1 s\<^sub>1 \<and>
    transfer_pass (\<lambda>_. seconds 1) reply c\<^sub>1 = Stop c\<^sub>2 \<and> server_files s\<^sub>1 (file_path ''/save'' 0) = Some abc"
proof -
  obtain c\<^sub>0 where e: "established ''/save'' 0 client_A abc c\<^sub>0 one_client" "CWND_logs c\<^sub>0 = []" "CWND_space c\<^sub>0 > 0"
      "timeout_check c\<^sub>0 = 0" "infile c\<^sub>0 = ifstream_open abc" "window_ok c\<^sub>0" "flight_ok c\<^sub>0" by (rule abc_established)
  have sides: "client_side 0 abc 0 c\<^sub>0" "server_side ''/save'' 0 client_A abc 0 one_client" and len: "length abc \<le> 90054"
    using e(1) by (simp_all add: established_def)
  have start: "0 = pos (infile c\<^sub>0)" and open_c: "\<not> eofbit (infile c\<^sub>0)" by (simp_all add: e(5) ifstream_open_def)
  have calm: "calm 0 c\<^sub>0" by (simp add: calm_def e(2,4))
  obtain c where c: "send_data 0 c\<^sub>0 = Next c" "calm 0 c" "timeout_check c \<in> {0, timeout_check c\<^sub>0}" "file_pos (hd (CWND_logs c)) = 0"
      "length (CWND_logs c) = 1"
    by (rule send_and_deliver [OF sides start open_c len, where T = 0 and can_open = "\<lambda>_. True"]) (simp add: calm e(2))
  obtain l where l: "CWND_logs c = [l]" "file_pos l = 0" using c(4,5) by (auto simp: length_Suc_conv)
  have p: "transfer_pass (\<lambda>_. 0) None c\<^sub>0 = Next c"
    using transfer_pass_sends [OF calm e(3) open_c c(1), of None] c(2) l by (simp add: receive_nothing)
  have run: "punctual (\<lambda>_. True) ''/save'' 0 client_A c\<^sub>0 one_client c one_client"
    by (rule punctual.pass [OF punctual.start _ _ p]) (simp_all add: reply_from_def in_time_def e(2))
  have told: "length (stored_file ''/save'' 0 one_client) = unacked c"
    by (simp add: one_client_facts(3) unacked_def l)
  have late: "\<not> in_time (seconds 1) c" and dur: "duration_seconds (seconds 1 - timeout_check c) < 10"
    using c(2,3) e(4) by (simp_all add: in_time_def calm_def l duration_millis_def duration_seconds_def)
  from data_loss_recovers [OF e(1,2,5,3,6,7) run told late dur] p e(5) show ?thesis by blast
qed



end
